(* ===== verification/Xdd_Prelude.thy ===== *)
theory Xdd_Prelude
  imports Main "HOL-Library.Word"
begin

unbundle bit_operations_syntax

text \<open>
  The prelude of the XDD development: the machine types of the C sources, the
  bit-flag idioms (\<^verbatim>\<open>x & M\<close>, \<^verbatim>\<open>x |= M\<close>, \<^verbatim>\<open>x &= ~M\<close>), singly linked chains in a
  store of records (\<^verbatim>\<open>p->next\<close>), C's truncating conversions between integer
  types, and the generic list and word lemmas that the component theories
  share.  A null pointer is \<open>None\<close>; a pointer to object \<open>a\<close> is \<open>Some a\<close>.
\<close>

type_synonym u8 = "8 word"
type_synonym u32 = "32 word"
type_synonym u64 = "64 word"
type_synonym 'a ptr = "'a option"
type_synonym nclk = u64

named_theorems flag_simps \<open>reading, setting and clearing bit flags\<close>
named_theorems chain_simps \<open>linked chains under updates of the store\<close>

subsection \<open>Bit flags\<close>

definition flag_on :: "'a::len word \<Rightarrow> 'a word \<Rightarrow> bool" where
  "flag_on w m \<longleftrightarrow> w AND m \<noteq> 0"

definition set_flag :: "'a::len word \<Rightarrow> 'a word \<Rightarrow> 'a word" where
  "set_flag w m = w OR m"

definition clear_flag :: "'a::len word \<Rightarrow> 'a word \<Rightarrow> 'a word" where
  "clear_flag w m = w AND NOT m"

lemma flag_on_set_flag [flag_simps]:
  "flag_on (set_flag w m) k \<longleftrightarrow> flag_on w k \<or> flag_on m k"
proof -
  have "(w OR m) AND k = (w AND k) OR (m AND k)"
    by (simp add: bit.conj_disj_distrib2)
  then show ?thesis
    by (simp add: flag_on_def set_flag_def or_eq_0_iff)
qed

lemma flag_on_clear_flag_same [flag_simps]: "\<not> flag_on (clear_flag w m) m"
  by (simp add: flag_on_def clear_flag_def and.assoc)

lemma flag_on_clear_flag_disjoint [flag_simps]:
  assumes "m AND k = 0"
  shows "flag_on (clear_flag w m) k \<longleftrightarrow> flag_on w k"
proof -
  have "NOT m AND k = k"
    using assms by (auto simp: bit_eq_iff bit_simps)
  then show ?thesis
    by (simp add: flag_on_def clear_flag_def and.assoc)
qed

lemma flag_on_zero [flag_simps]: "\<not> flag_on 0 m"
  by (simp add: flag_on_def)

lemma clear_flag_set_flag [flag_simps]: "clear_flag (set_flag w m) m = clear_flag w m"
  by (simp add: clear_flag_def set_flag_def bit.conj_disj_distrib2)

lemma set_flag_idem [flag_simps]: "set_flag (set_flag w m) m = set_flag w m"
  by (simp add: set_flag_def or.assoc)

lemma clear_flag_idem [flag_simps]: "clear_flag (clear_flag w m) m = clear_flag w m"
  by (simp add: clear_flag_def and.assoc)

subsection \<open>Linked chains in a store\<close>

text \<open>
  \<open>chain nxt p xs q\<close>: following the link field \<open>nxt\<close> from pointer \<open>p\<close> visits the
  objects \<open>xs\<close> in order and arrives at \<open>q\<close>.  The barrier chain, the occupant
  chain, the TOT wait chain, the worker list and the queues of the buffer exchange
  program are all instances.
\<close>

fun chain :: "('a \<Rightarrow> 'a ptr) \<Rightarrow> 'a ptr \<Rightarrow> 'a list \<Rightarrow> 'a ptr \<Rightarrow> bool" where
  "chain nxt p [] q \<longleftrightarrow> p = q"
| "chain nxt p (x # xs) q \<longleftrightarrow> p = Some x \<and> chain nxt (nxt x) xs q"

lemma chain_append [chain_simps]:
  "chain nxt p (xs @ ys) q \<longleftrightarrow> (\<exists>r. chain nxt p xs r \<and> chain nxt r ys q)"
  by (induction xs arbitrary: p) auto

lemma chain_frame [chain_simps]:
  "a \<notin> set xs \<Longrightarrow> chain (nxt(a := v)) p xs q \<longleftrightarrow> chain nxt p xs q"
  by (induction xs arbitrary: p) auto

lemma chain_cong:
  "(\<And>x. x \<in> set xs \<Longrightarrow> f x = g x) \<Longrightarrow> chain f p xs q = chain g p xs q"
  by (induction xs arbitrary: p) auto

lemma chain_from_null [chain_simps]: "chain nxt None xs q \<longleftrightarrow> xs = [] \<and> q = None"
  by (cases xs) auto

lemma chain_det:
  "chain nxt p xs None \<Longrightarrow> chain nxt p ys None \<Longrightarrow> xs = ys"
proof (induction xs arbitrary: p ys)
  case Nil
  then show ?case by (simp add: chain_from_null)
next
  case (Cons x xs)
  then obtain ys' where "ys = x # ys'" by (cases ys) auto
  with Cons show ?case by auto
qed

lemma chain_to_null_distinct: "chain nxt p xs None \<Longrightarrow> distinct xs"
proof (induction xs arbitrary: p)
  case Nil
  then show ?case by simp
next
  case (Cons x xs)
  have "x \<notin> set xs"
  proof
    assume "x \<in> set xs"
    then obtain as bs where xs: "xs = as @ x # bs" by (meson split_list)
    with Cons.prems have "chain nxt (nxt x) bs None" and "chain nxt (nxt x) xs None"
      by (auto simp: chain_append)
    then have "bs = xs" by (rule chain_det)
    with xs show False by simp
  qed
  with Cons show ?case by auto
qed

lemma chain_snoc_link:
  assumes "chain nxt p xs None" and "xs \<noteq> []" and "a \<notin> set xs"
  shows "chain (nxt(last xs := Some a, a := None)) p (xs @ [a]) None"
proof -
  obtain ys l where xs: "xs = ys @ [l]" using assms(2) by (metis rev_exhaust)
  have "l \<notin> set ys" and "a \<noteq> l" and "a \<notin> set ys"
    using chain_to_null_distinct [OF assms(1)] assms(3) xs by auto
  with assms(1) xs show ?thesis
    by (auto simp: chain_append chain_frame)
qed

text \<open>The loop \<^verbatim>\<open>while (p->next != 0) p = p->next;\<close> from a non-null \<open>p\<close>.\<close>

partial_function (option) chain_end :: "('a \<Rightarrow> 'a ptr) \<Rightarrow> 'a \<Rightarrow> 'a option" where
  "chain_end nxt a = (case nxt a of None \<Rightarrow> Some a | Some b \<Rightarrow> chain_end nxt b)"

lemma chain_end_last:
  "chain nxt (Some a) xs None \<Longrightarrow> chain_end nxt a = Some (last xs)"
proof (induction xs arbitrary: a)
  case Nil
  then show ?case by simp
next
  case (Cons x xs)
  show ?case
  proof (cases xs)
    case Nil
    with Cons.prems show ?thesis by (simp add: chain_end.simps)
  next
    case (Cons y ys)
    with Cons.prems have "nxt a = Some y" and "chain nxt (Some y) xs None" by auto
    with Cons.IH Cons.prems Cons show ?thesis by (simp add: chain_end.simps [of nxt x])
  qed
qed

text \<open>
  The loop \<^verbatim>\<open>for (i=0; i<n; i++) p = p->next;\<close>.  Dereferencing a null pointer is the
  outer \<open>None\<close>; the inner value is the pointer the loop ends with.
\<close>

fun chain_skip :: "('a \<Rightarrow> 'a ptr) \<Rightarrow> 'a ptr \<Rightarrow> nat \<Rightarrow> 'a ptr option" where
  "chain_skip nxt p 0 = Some p"
| "chain_skip nxt p (Suc n) = (case p of None \<Rightarrow> None | Some a \<Rightarrow> chain_skip nxt (nxt a) n)"

lemma chain_skip_nth:
  "chain nxt p xs None \<Longrightarrow> n < length xs \<Longrightarrow> chain_skip nxt p n = Some (Some (xs ! n))"
proof (induction n arbitrary: p xs)
  case 0
  then show ?case by (cases xs) auto
next
  case (Suc n)
  then obtain x ys where "xs = x # ys" by (cases xs) auto
  with Suc show ?case by auto
qed

subsection \<open>Doubly linked lists with an anchor\<close>

definition dll :: "('a \<Rightarrow> 'a ptr) \<Rightarrow> ('a \<Rightarrow> 'a ptr) \<Rightarrow> 'a ptr \<Rightarrow> 'a ptr \<Rightarrow> 'a list \<Rightarrow> bool" where
  "dll nxt prv f l xs \<longleftrightarrow> chain nxt f xs None \<and> chain prv l (rev xs) None"

lemma dll_empty: "dll nxt prv f l [] \<longleftrightarrow> f = None \<and> l = None"
  by (simp add: dll_def)

lemma dll_first: "dll nxt prv f l xs \<Longrightarrow> f = None \<longleftrightarrow> xs = []"
  by (cases xs) (auto simp: dll_def)

lemma dll_last: "dll nxt prv f l xs \<Longrightarrow> xs \<noteq> [] \<Longrightarrow> l = Some (List.last xs)"
  by (cases xs rule: rev_cases) (auto simp: dll_def)

lemma dll_snoc_empty: "dll (nxt(x := None)) (prv(x := None)) (Some x) (Some x) [x]"
  by (simp add: dll_def)

lemma dll_snoc:
  assumes "dll nxt prv f l xs" and "xs \<noteq> []" and "x \<notin> set xs"
  shows "dll (nxt(last xs := Some x, x := None)) (prv(x := l)) f (Some x) (xs @ [x])"
  using assms by (auto simp: dll_def chain_snoc_link chain_frame)

lemma dll_tl:
  assumes "dll nxt prv f l (x # y # ys)"
  shows "nxt x = Some y" and "dll nxt (prv(y := None)) (Some y) l (y # ys)"
proof -
  have "y \<notin> set ys" using assms chain_to_null_distinct [of nxt f "x # y # ys"] by (auto simp: dll_def)
  with assms show "nxt x = Some y" and "dll nxt (prv(y := None)) (Some y) l (y # ys)"
    by (auto simp: dll_def chain_append chain_frame)
qed

subsection \<open>Integers in memory\<close>

text \<open>The bytes of an integer in memory, least significant first.\<close>

fun le_bytes :: "nat \<Rightarrow> int \<Rightarrow> u8 list" where
  "le_bytes 0 v = []"
| "le_bytes (Suc n) v = word_of_int v # le_bytes n (v div 256)"

fun le_value :: "u8 list \<Rightarrow> int" where
  "le_value [] = 0"
| "le_value (b # bs) = uint b + 256 * le_value bs"

lemma length_le_bytes [simp]: "length (le_bytes n v) = n"
  by (induction n arbitrary: v) auto

lemma le_value_le_bytes: "le_value (le_bytes n v) = v mod 256 ^ n"
proof (induction n arbitrary: v)
  case 0
  then show ?case by simp
next
  case (Suc n)
  have "uint (word_of_int v :: u8) = v mod 256" by (simp add: uint_word_of_int take_bit_eq_mod)
  then show ?case using Suc by (simp add: zmod_zmult2_eq)
qed

lemma le_bytes_le_value: "length bs = n \<Longrightarrow> le_bytes n (le_value bs) = bs"
proof (induction bs arbitrary: n)
  case Nil
  then show ?case by simp
next
  case (Cons b bs)
  have b: "0 \<le> uint b" "uint b < 256" using uint_lt2p [of b] by simp_all
  then have "(uint b + 256 * le_value bs) div 256 = le_value bs" by simp
  moreover have "(word_of_int (uint b + 256 * le_value bs) :: u8) = b"
  proof -
    have "uint (word_of_int (uint b + 256 * le_value bs) :: u8) = uint b"
      unfolding uint_word_of_int using b by (simp add: take_bit_eq_mod)
    then show ?thesis by (simp only: word_uint_eq_iff)
  qed
  ultimately show ?case using Cons by (cases n) simp_all
qed

lemma le_value_range: "0 \<le> le_value bs" "le_value bs < 256 ^ length bs"
  using le_value_le_bytes [of "length bs" "le_value bs"] by (simp_all add: le_bytes_le_value) (metis pos_mod_sign pos_mod_bound zero_less_numeral zero_less_power)+

lemma le_unsigned:
  "word_of_int (le_value (le_bytes 4 (uint (x :: u32)))) = x"
  "word_of_int (le_value (le_bytes 8 (uint (y :: u64)))) = y"
proof -
  have "uint x mod 2 ^ 32 = uint x" "uint y mod 2 ^ 64 = uint y"
    using uint_lt2p [of x] uint_lt2p [of y] by simp_all
  then show "word_of_int (le_value (le_bytes 4 (uint x))) = x" "word_of_int (le_value (le_bytes 8 (uint y))) = y"
    by (simp_all add: le_value_le_bytes)
qed

end
