(* ===== verification/Tot.thy ===== *)
theory Tot
  imports Xdd_Prelude
begin

unbundle bit_operations_syntax

text \<open>
  The Target Offset Table (\<^verbatim>\<open>src/base/target_offset_table.c\<close>,
  \<^verbatim>\<open>src/common/target_offset_table.h\<close>) and the storage-ordering protocol that the worker
  threads run over it (\<^verbatim>\<open>xdd_worker_thread_wait_for_previous_io\<close> and
  \<^verbatim>\<open>xdd_worker_thread_release_next_io\<close> of \<^verbatim>\<open>src/base/worker_thread_io.c\<close>).

  Signed C integers are \<open>int\<close>, unsigned 64-bit ones \<open>u64\<close>; a conversion that can change
  the value is written out (\<open>c_int32\<close>, \<open>sint\<close>).  Worker threads are numbered by \<open>nat\<close>;
  the \<^verbatim>\<open>wd_tot_wait\<close> structures of the workers form a store indexed by that number.
  A mutex-protected region is one atomic function; the two regions of the release
  routine (with and without the entry's mutex) are two functions.
\<close>

subsection \<open>Data\<close>

abbreviation (input) TOT_ENTRY_AVAILABLE :: int where "TOT_ENTRY_AVAILABLE \<equiv> 1"
abbreviation (input) TOT_ENTRY_UNAVAILABLE :: int where "TOT_ENTRY_UNAVAILABLE \<equiv> 0"
abbreviation (input) DEFAULT_TOT_MULTIPLIER :: u64 where "DEFAULT_TOT_MULTIPLIER \<equiv> 20"

record tot_wait =
  totw_nextp :: "nat ptr"
  totw_wdp :: nat
  totw_is_released :: int

record tot_entry =
  tot_waitp :: "nat ptr"
  tot_wait_ts :: nclk
  tot_post_ts :: nclk
  tot_update_ts :: nclk
  tot_byte_offset :: int
  tot_op_number :: int
  tot_io_size :: int
  tot_wait_worker_thread_number :: int
  tot_post_worker_thread_number :: int
  tot_update_worker_thread_number :: int
  tot_status :: int

record tot =
  tot_entries :: int
  tot_tab :: "tot_entry list"

subsection \<open>Creation and destruction\<close>

text \<open>
  The size computation of \<^verbatim>\<open>tot_init\<close>: \<^verbatim>\<open>size_t\<close> products, truncated to \<^verbatim>\<open>int\<close> on
  assignment to \<^verbatim>\<open>num_entries\<close>.
\<close>

definition c_int32 :: "u64 \<Rightarrow> int" where
  "c_int32 w = sint (ucast w :: u32)"

definition tot_num_entries :: "u64 \<Rightarrow> u64 \<Rightarrow> int" where
  "tot_num_entries queue_depth num_reqs =
     (let num_entries = c_int32 (queue_depth * DEFAULT_TOT_MULTIPLIER) in
      if queue_depth > num_reqs then c_int32 queue_depth
      else if num_reqs div queue_depth > DEFAULT_TOT_MULTIPLIER * queue_depth * 1000
      then num_entries * 30
      else num_entries)"

text \<open>The three allocation branches that \<^verbatim>\<open>configure\<close> selects between.\<close>

datatype alloc_config = HAVE_VALLOC | HAVE_POSIX_MEMALIGN | PLAIN_MALLOC

definition tot_entry_reset :: "tot_entry \<Rightarrow> tot_entry" where
  "tot_entry_reset e = e\<lparr>tot_waitp := None, tot_op_number := -1, tot_byte_offset := -1,
     tot_io_size := 0, tot_status := TOT_ENTRY_AVAILABLE\<rparr>"

text \<open>
  The mutex loop: entry \<open>i\<close> fails when \<open>mutex_init i \<noteq> 0\<close>; the result is the status and
  the number of entries with a mutex.
\<close>

fun tot_init_mutexes :: "(nat \<Rightarrow> int) \<Rightarrow> nat \<Rightarrow> nat \<Rightarrow> int \<times> nat" where
  "tot_init_mutexes mutex_init i 0 = (0, i)"
| "tot_init_mutexes mutex_init i (Suc n) =
     (if mutex_init i \<noteq> 0 then (mutex_init i, i) else tot_init_mutexes mutex_init (Suc i) n)"

text \<open>
  \<open>tot_init\<close> yields \<open>None\<close> when an assertion fails and otherwise the return code and the
  table the pointer argument ends with.  Freshly allocated memory holds the garbage
  entry count \<open>raw_n\<close> and the garbage entries \<open>raw\<close>; \<open>memalign\<close> is the return code of
  \<^verbatim>\<open>posix_memalign\<close>.  In the other two branches \<^verbatim>\<open>rc = (NULL != table)\<close> tests the address
  of the caller's pointer, so \<open>rc\<close> is 1.
\<close>

definition tot_init_alloc ::
  "alloc_config \<Rightarrow> int \<Rightarrow> (nat \<Rightarrow> int) \<Rightarrow> int \<Rightarrow> (nat \<Rightarrow> tot_entry) \<Rightarrow> int \<Rightarrow> int \<times> tot option"
  where
  "tot_init_alloc cfg memalign mutex_init raw_n raw num_entries =
     (let tab = map raw [0..<nat num_entries];
          fresh = \<lparr>tot_entries = raw_n, tot_tab = tab\<rparr>;
          (rc, tp) = (case cfg of
             HAVE_VALLOC \<Rightarrow> (1, Some fresh)
           | HAVE_POSIX_MEMALIGN \<Rightarrow> (memalign, if memalign = 0 then Some fresh else None)
           | PLAIN_MALLOC \<Rightarrow> (1, Some fresh))
      in if rc \<noteq> 0 then (-1, tp)
         else let (rc, n) = tot_init_mutexes mutex_init 0 (nat num_entries)
              in if rc \<noteq> 0 then (-1, Some \<lparr>tot_entries = int n, tot_tab = tab\<rparr>)
                 else (0, Some \<lparr>tot_entries = num_entries, tot_tab = tab\<rparr>))"

definition tot_reset_entries :: "tot \<Rightarrow> tot" where
  "tot_reset_entries t = (let n = nat (tot_entries t) in
     t\<lparr>tot_tab := map tot_entry_reset (take n (tot_tab t)) @ drop n (tot_tab t)\<rparr>)"

definition tot_init ::
  "alloc_config \<Rightarrow> int \<Rightarrow> (nat \<Rightarrow> int) \<Rightarrow> int \<Rightarrow> (nat \<Rightarrow> tot_entry) \<Rightarrow> tot ptr \<Rightarrow> u64 \<Rightarrow> u64
     \<Rightarrow> (int \<times> tot ptr) option" where
  "tot_init cfg memalign mutex_init raw_n raw table queue_depth num_reqs =
     (if num_reqs = 0 \<or> queue_depth = 0 then None
      else let num_entries = tot_num_entries queue_depth num_reqs;
               (rc, tp) = (case table of
                  None \<Rightarrow> tot_init_alloc cfg memalign mutex_init raw_n raw num_entries
                | Some t \<Rightarrow> (0, Some t))
           in if rc \<noteq> 0 then Some (rc, tp) else Some (0, map_option tot_reset_entries tp))"

definition tot_destroy :: "(nat \<Rightarrow> int) \<Rightarrow> tot \<Rightarrow> int" where
  "tot_destroy mutex_destroy tp = sum_list (map mutex_destroy [0..<nat (tot_entries tp)])"

subsection \<open>Update\<close>

text \<open>
  \<open>None\<close> is a trap: a failed assertion, the remainder by an empty table, or the integer
  divisions \<^verbatim>\<open>tot_byte_offset/tot_io_size\<close> and \<^verbatim>\<open>offset/size\<close> that the collision message
  evaluates.
\<close>

definition tot_update :: "nclk \<Rightarrow> tot \<Rightarrow> int \<Rightarrow> int \<Rightarrow> int \<Rightarrow> int \<Rightarrow> (int \<times> tot) option" where
  "tot_update now table req_number worker_thread_number offset sz =
     (if req_number < 0 \<or> worker_thread_number < 0 \<or> tot_entries table = 0 then None
      else let idx = nat (req_number mod tot_entries table);
               tep = tot_tab table ! idx
           in if tot_op_number tep \<ge> req_number
              then (if tot_io_size tep = 0 \<or> sz = 0 then None else Some (-1, table))
              else Some (0, table\<lparr>tot_tab := (tot_tab table)[idx := tep\<lparr>
                     tot_update_ts := now,
                     tot_update_worker_thread_number := worker_thread_number,
                     tot_op_number := req_number,
                     tot_byte_offset := offset,
                     tot_io_size := sz\<rparr>]\<rparr>))"

subsection \<open>The ordering protocol\<close>

abbreviation (input) WT_WAITING_FOR_TOT_LOCK_RELEASE :: u32 where
  "WT_WAITING_FOR_TOT_LOCK_RELEASE \<equiv> 0x40"
abbreviation (input) WT_WAITING_FOR_TOT_LOCK_TS :: u32 where
  "WT_WAITING_FOR_TOT_LOCK_TS \<equiv> 0x80"
abbreviation (input) WT_WAITING_FOR_PREVIOUS_IO :: u32 where
  "WT_WAITING_FOR_PREVIOUS_IO \<equiv> 0x100"

text \<open>
  The state the two routines share: the table, the wait structure and the
  \<^verbatim>\<open>wd_current_state\<close> word of every worker.
\<close>

record ordering =
  od_tot :: tot
  od_wait :: "nat \<Rightarrow> tot_wait"
  od_state :: "nat \<Rightarrow> u32"

record order_task =
  ot_op_number :: u64
  ot_byte_offset :: u64
  ot_xfer_size :: u64

definition tot_slot :: "tot \<Rightarrow> u64 \<Rightarrow> int" where
  "tot_slot t op = c_int32 (op mod word_of_int (tot_entries t))"

definition tot_prev_slot :: "tot \<Rightarrow> u64 \<Rightarrow> int" where
  "tot_prev_slot t op =
     (let tot_offset = c_int32 (op mod word_of_int (tot_entries t) - 1)
      in if tot_offset < 0 then tot_entries t - 1 else tot_offset)"

definition upd_entry :: "nat \<Rightarrow> (tot_entry \<Rightarrow> tot_entry) \<Rightarrow> ordering \<Rightarrow> ordering" where
  "upd_entry i f od = od\<lparr>od_tot := (od_tot od)\<lparr>tot_tab :=
     (tot_tab (od_tot od))[i := f (tot_tab (od_tot od) ! i)]\<rparr>\<rparr>"

definition upd_wait :: "nat \<Rightarrow> (tot_wait \<Rightarrow> tot_wait) \<Rightarrow> ordering \<Rightarrow> ordering" where
  "upd_wait w f od = od\<lparr>od_wait := (od_wait od)(w := f (od_wait od w))\<rparr>"

definition upd_state :: "nat \<Rightarrow> (u32 \<Rightarrow> u32) \<Rightarrow> ordering \<Rightarrow> ordering" where
  "upd_state w f od = od\<lparr>od_state := (od_state od)(w := f (od_state od w))\<rparr>"

datatype wait_outcome = Proceed | Blocked

text \<open>
  The tail of the wait routine, once \<^verbatim>\<open>totw_is_released\<close> is seen to be 1 (or the entry was
  available): clear the waiting state and take the entry.
\<close>

definition wait_take_entry :: "nat \<Rightarrow> nat \<Rightarrow> ordering \<Rightarrow> ordering" where
  "wait_take_entry i w od =
     upd_entry i (\<lambda>e. e\<lparr>tot_status := TOT_ENTRY_UNAVAILABLE\<rparr>)
       (upd_state w (\<lambda>s. clear_flag s WT_WAITING_FOR_PREVIOUS_IO) od)"

text \<open>
  Linking the worker's wait structure at the end of the entry's chain.  Walking the
  chain may not end on a malformed (cyclic) chain: that is \<open>None\<close>.
\<close>

definition wait_link :: "nat \<Rightarrow> nat \<Rightarrow> ordering \<Rightarrow> ordering option" where
  "wait_link i w od =
     (case tot_waitp (tot_tab (od_tot od) ! i) of
        None \<Rightarrow> Some (upd_entry i (\<lambda>e. e\<lparr>tot_waitp := Some w\<rparr>) od)
      | Some h \<Rightarrow>
          (case chain_end (\<lambda>v. totw_nextp (od_wait od v)) h of
             None \<Rightarrow> None
           | Some l \<Rightarrow> Some (upd_wait l (\<lambda>t. t\<lparr>totw_nextp := Some w\<rparr>) od)))"

text \<open>From entry to the first \<^verbatim>\<open>pthread_cond_wait\<close>, or to the return.\<close>

definition wait_for_previous_io ::
  "nclk \<Rightarrow> nat \<Rightarrow> u64 \<Rightarrow> ordering \<Rightarrow> (wait_outcome \<times> ordering) option" where
  "wait_for_previous_io now w op od =
     (if op = 0 then Some (Proceed, od)
      else let i = nat (tot_prev_slot (od_tot od) op);
               od1 = upd_state w (\<lambda>s. clear_flag (set_flag s WT_WAITING_FOR_TOT_LOCK_TS)
                                        WT_WAITING_FOR_TOT_LOCK_TS) od;
               od2 = upd_entry i (\<lambda>e. e\<lparr>tot_wait_ts := now\<rparr>) od1;
               od3 = upd_state w (\<lambda>s. set_flag s WT_WAITING_FOR_PREVIOUS_IO) od2
           in if tot_status (tot_tab (od_tot od3) ! i) = TOT_ENTRY_UNAVAILABLE
              then (case wait_link i w od3 of
                      None \<Rightarrow> None
                    | Some od4 \<Rightarrow>
                        if totw_is_released (od_wait od4 w) \<noteq> 1 then Some (Blocked, od4)
                        else Some (Proceed, wait_take_entry i w
                               (upd_wait w (\<lambda>t. t\<lparr>totw_is_released := 0\<rparr>) od4)))
              else Some (Proceed, wait_take_entry i w od3))"

text \<open>One return from \<^verbatim>\<open>pthread_cond_wait\<close> and the re-test of the loop condition.\<close>

definition wait_resume :: "nat \<Rightarrow> u64 \<Rightarrow> ordering \<Rightarrow> wait_outcome \<times> ordering" where
  "wait_resume w op od =
     (if totw_is_released (od_wait od w) \<noteq> 1 then (Blocked, od)
      else (Proceed, wait_take_entry (nat (tot_prev_slot (od_tot od) op)) w
              (upd_wait w (\<lambda>t. t\<lparr>totw_is_released := 0\<rparr>) od)))"

definition release_locked :: "nclk \<Rightarrow> nat \<Rightarrow> order_task \<Rightarrow> ordering \<Rightarrow> ordering" where
  "release_locked now w task od =
     upd_entry (nat (tot_slot (od_tot od) (ot_op_number task)))
       (\<lambda>e. e\<lparr>tot_post_worker_thread_number := int w,
               tot_post_ts := now,
               tot_update_ts := now,
               tot_update_worker_thread_number := int w,
               tot_op_number := sint (ot_op_number task),
               tot_byte_offset := sint (ot_byte_offset task),
               tot_io_size := c_int32 (ot_xfer_size task),
               tot_status := TOT_ENTRY_AVAILABLE\<rparr>)
       (upd_state w (\<lambda>s. clear_flag (set_flag s WT_WAITING_FOR_TOT_LOCK_RELEASE)
                                      WT_WAITING_FOR_TOT_LOCK_RELEASE) od)"

definition release_signal :: "int \<Rightarrow> u64 \<Rightarrow> ordering \<Rightarrow> int \<times> ordering" where
  "release_signal cond_signal op od =
     (let i = nat (tot_slot (od_tot od) op) in
      case tot_waitp (tot_tab (od_tot od) ! i) of
        None \<Rightarrow> (0, od)
      | Some h \<Rightarrow>
          (if cond_signal \<noteq> 0 then -1 else 0,
           upd_wait h (\<lambda>t. t\<lparr>totw_is_released := 1, totw_nextp := None\<rparr>)
             (upd_entry i (\<lambda>e. e\<lparr>tot_waitp := totw_nextp (od_wait od h)\<rparr>) od)))"

definition release_next_io :: "nclk \<Rightarrow> int \<Rightarrow> nat \<Rightarrow> order_task \<Rightarrow> ordering \<Rightarrow> int \<times> ordering" where
  "release_next_io now cond_signal w task od =
     release_signal cond_signal (ot_op_number task) (release_locked now w task od)"

subsection \<open>Well-formed tables and the abstract gate\<close>

text \<open>
  A table is well formed when its entry count is positive, fits an \<^verbatim>\<open>int\<close> and is the
  number of entries it has.
\<close>

definition tot_ok :: "tot \<Rightarrow> bool" where
  "tot_ok t \<longleftrightarrow> 0 < tot_entries t \<and> tot_entries t < 2 ^ 31 \<and>
     tot_entries t = int (length (tot_tab t))"

text \<open>
  The abstract gate a table implements: per slot a token and a first-in first-out list
  of waiting workers, and the set of workers that have been released but have not
  resumed yet.
\<close>

abbreviation nextps :: "ordering \<Rightarrow> nat \<Rightarrow> nat ptr" where
  "nextps od \<equiv> \<lambda>w. totw_nextp (od_wait od w)"

record abs_ordering =
  ab_avail :: "nat \<Rightarrow> bool"
  ab_fifo :: "nat \<Rightarrow> nat list"
  ab_released :: "nat set"

definition abs_wait :: "nat \<Rightarrow> nat \<Rightarrow> abs_ordering \<Rightarrow> wait_outcome \<times> abs_ordering" where
  "abs_wait i w a =
     (if ab_avail a i then (Proceed, a\<lparr>ab_avail := (ab_avail a)(i := False)\<rparr>)
      else (Blocked, a\<lparr>ab_fifo := (ab_fifo a)(i := ab_fifo a i @ [w])\<rparr>))"

definition abs_resume :: "nat \<Rightarrow> nat \<Rightarrow> abs_ordering \<Rightarrow> wait_outcome \<times> abs_ordering" where
  "abs_resume i w a =
     (if w \<notin> ab_released a then (Blocked, a)
      else (Proceed, a\<lparr>ab_released := ab_released a - {w}, ab_avail := (ab_avail a)(i := False)\<rparr>))"

definition abs_release :: "nat \<Rightarrow> abs_ordering \<Rightarrow> abs_ordering" where
  "abs_release i a =
     a\<lparr>ab_avail := (ab_avail a)(i := True),
        ab_fifo := (ab_fifo a)(i := tl (ab_fifo a i)),
        ab_released := ab_released a \<union> set (take 1 (ab_fifo a i))\<rparr>"

definition ordering_rel :: "ordering \<Rightarrow> abs_ordering \<Rightarrow> bool" where
  "ordering_rel od a \<longleftrightarrow>
     tot_ok (od_tot od) \<and>
     (\<forall>i < length (tot_tab (od_tot od)).
        tot_status (tot_tab (od_tot od) ! i) = (if ab_avail a i then 1 else 0) \<and>
        chain (nextps od) (tot_waitp (tot_tab (od_tot od) ! i)) (ab_fifo a i) None) \<and>
     (\<forall>i < length (tot_tab (od_tot od)). \<forall>j < length (tot_tab (od_tot od)).
        i \<noteq> j \<longrightarrow> set (ab_fifo a i) \<inter> set (ab_fifo a j) = {}) \<and>
     (\<forall>w. (\<forall>i < length (tot_tab (od_tot od)). w \<notin> set (ab_fifo a i)) \<longrightarrow> totw_nextp (od_wait od w) = None) \<and>
     (\<forall>w. w \<in> ab_released a \<longleftrightarrow> totw_is_released (od_wait od w) = 1) \<and>
     (\<forall>i < length (tot_tab (od_tot od)). set (ab_fifo a i) \<inter> ab_released a = {})"

definition linked :: "nat \<Rightarrow> nat \<Rightarrow> nat list \<Rightarrow> ordering \<Rightarrow> ordering \<Rightarrow> bool" where
  "linked i w xs od od' \<longleftrightarrow>
     chain (nextps od') (tot_waitp (tot_tab (od_tot od') ! i)) (xs @ [w]) None \<and>
     (\<forall>p ys. set ys \<inter> set xs = {} \<longrightarrow> chain (nextps od') p ys None = chain (nextps od) p ys None) \<and>
     (\<forall>v. v \<notin> set xs \<longrightarrow> nextps od' v = nextps od v) \<and>
     (\<forall>v. totw_is_released (od_wait od' v) = totw_is_released (od_wait od v)) \<and>
     (\<forall>j. j \<noteq> i \<longrightarrow> tot_tab (od_tot od') ! j = tot_tab (od_tot od) ! j) \<and>
     tot_status (tot_tab (od_tot od') ! i) = tot_status (tot_tab (od_tot od) ! i) \<and>
     tot_entries (od_tot od') = tot_entries (od_tot od) \<and>
     length (tot_tab (od_tot od')) = length (tot_tab (od_tot od))"

subsection \<open>Slots\<close>

lemma c_int32_small: "uint w < 2 ^ 31 \<Longrightarrow> c_int32 w = uint w"
  by (simp add: c_int32_def sint_uint unsigned_ucast_eq take_bit_int_eq_self
      signed_take_bit_int_eq_self order_trans [OF _ unsigned_greater_eq])

lemma c_int32_minus_one: "c_int32 (-1) = -1"
proof -
  have "ucast (-1 :: u64) = (-1 :: u32)" by (rule bit_word_eqI) (simp add: bit_simps)
  then show ?thesis by (simp add: c_int32_def)
qed

lemma uint_mod_entries:
  assumes "0 < n" and "n < 2 ^ 31"
  shows "uint ((op :: u64) mod word_of_int n) = uint op mod n"
proof -
  have "uint (word_of_int n :: u64) = n"
    using assms by (simp add: uint_word_of_int_eq take_bit_int_eq_self)
  then show ?thesis by (simp add: uint_mod)
qed

lemma tot_slot_eq: "tot_ok t \<Longrightarrow> tot_slot t op = uint op mod tot_entries t"
proof -
  assume ok: "tot_ok t"
  then have n: "0 < tot_entries t" "tot_entries t < 2 ^ 31" by (auto simp: tot_ok_def)
  then have "uint op mod tot_entries t < 2 ^ 31"
    using n by (meson order.strict_trans pos_mod_bound)
  then show "tot_slot t op = uint op mod tot_entries t"
    using n by (simp add: tot_slot_def c_int32_small uint_mod_entries)
qed

lemma tot_prev_slot_eq:
  assumes "tot_ok t" and "op \<noteq> 0"
  shows "tot_prev_slot t op = (uint op - 1) mod tot_entries t"
proof -
  let ?n = "tot_entries t"
  let ?r = "op mod word_of_int ?n :: u64"
  have n: "0 < ?n" "?n < 2 ^ 31" using assms(1) by (auto simp: tot_ok_def)
  have r: "uint ?r = uint op mod ?n" using n by (rule uint_mod_entries)
  show ?thesis
  proof (cases "uint op mod ?n = 0")
    case True
    with r have "?r = 0" by (simp add: uint_0_iff)
    moreover have "(uint op - 1) mod ?n = ?n - 1"
      using True n by (smt (verit) mod_diff_left_eq zmod_minus1)
    ultimately show ?thesis by (simp add: tot_prev_slot_def c_int32_minus_one)
  next
    case False
    then have pos: "0 < uint op mod ?n" using n by (simp add: order_less_le)
    have "uint (?r - 1) = uint op mod ?n - 1"
      using pos r uint_sub_lem [of 1 ?r] by simp
    moreover have "uint op mod ?n < 2 ^ 31" using n by (meson order.strict_trans pos_mod_bound)
    ultimately have "c_int32 (?r - 1) = uint op mod ?n - 1" using pos by (simp add: c_int32_small)
    moreover have "(uint op - 1) mod ?n = uint op mod ?n - 1"
      using pos n by (smt (verit) mod_diff_left_eq mod_pos_pos_trivial pos_mod_bound)
    ultimately show ?thesis using pos by (simp add: tot_prev_slot_def)
  qed
qed

lemma c_int32_mult:
  assumes "uint q * k < 2 ^ 31" and "0 \<le> k" and "k < 2 ^ 31"
  shows "c_int32 (q * word_of_int k) = uint q * k"
proof -
  have "uint (q * word_of_int k) = uint q * k"
    using assms by (simp add: uint_word_arith_bintrs uint_word_of_int_eq take_bit_int_eq_self)
  with assms show ?thesis by (simp add: c_int32_small)
qed

lemma tot_num_entries_bounds:
  assumes "0 < uint queue_depth" and "uint queue_depth * 600 < 2 ^ 31"
  shows "uint queue_depth \<le> tot_num_entries queue_depth num_reqs"
    and "tot_num_entries queue_depth num_reqs \<le> uint queue_depth * 600"
proof -
  have "c_int32 (queue_depth * 20) = uint queue_depth * 20"
    using c_int32_mult [of queue_depth 20] assms by simp
  moreover have "c_int32 queue_depth = uint queue_depth"
    using assms by (simp add: c_int32_small)
  ultimately show "uint queue_depth \<le> tot_num_entries queue_depth num_reqs"
    and "tot_num_entries queue_depth num_reqs \<le> uint queue_depth * 600"
    using assms(1) by (auto simp: tot_num_entries_def Let_def)
qed

lemma tot_init_mutexes_ok:
  "(\<And>k. i \<le> k \<Longrightarrow> k < i + n \<Longrightarrow> f k = 0) \<Longrightarrow> tot_init_mutexes f i n = (0, i + n)"
  by (induction f i n rule: tot_init_mutexes.induct) auto

lemma tot_reset_entries_ok:
  "tot_ok t \<Longrightarrow> tot_ok (tot_reset_entries t) \<and> tot_entries (tot_reset_entries t) = tot_entries t \<and>
     tot_tab (tot_reset_entries t) = map tot_entry_reset (tot_tab t)"
  by (auto simp: tot_ok_def tot_reset_entries_def Let_def)

lemma slots_distinct_int:
  fixes n :: int
  assumes "0 < n" and "0 \<le> b - a" and "b - a < n" and "a mod n = b mod n"
  shows "a = b"
proof -
  have "(b - a) mod n = 0" using assms(4) by (metis mod_diff_cong diff_self mod_0)
  with assms(2,3) show ?thesis by (simp add: mod_pos_pos_trivial)
qed

subsection \<open>The concrete protocol refines the abstract gate\<close>

lemmas upd_defs = upd_entry_def upd_wait_def upd_state_def

lemma ordering_relD:
  assumes "ordering_rel od a"
  defines "n \<equiv> length (tot_tab (od_tot od))"
  shows "tot_ok (od_tot od)"
    and "i < n \<Longrightarrow> tot_status (tot_tab (od_tot od) ! i) = (if ab_avail a i then 1 else 0)"
    and "i < n \<Longrightarrow> chain (nextps od) (tot_waitp (tot_tab (od_tot od) ! i)) (ab_fifo a i) None"
    and "i < n \<Longrightarrow> j < n \<Longrightarrow> i \<noteq> j \<Longrightarrow> set (ab_fifo a i) \<inter> set (ab_fifo a j) = {}"
    and "(\<And>i. i < n \<Longrightarrow> w \<notin> set (ab_fifo a i)) \<Longrightarrow> nextps od w = None"
    and "w \<in> ab_released a \<longleftrightarrow> totw_is_released (od_wait od w) = 1"
    and "i < n \<Longrightarrow> set (ab_fifo a i) \<inter> ab_released a = {}"
  using assms unfolding ordering_rel_def by simp_all

lemma ordering_relI:
  assumes "tot_ok (od_tot od)" and "length (tot_tab (od_tot od)) = n"
    and "\<And>i. i < n \<Longrightarrow> tot_status (tot_tab (od_tot od) ! i) = (if ab_avail a i then 1 else 0)"
    and "\<And>i. i < n \<Longrightarrow> chain (nextps od) (tot_waitp (tot_tab (od_tot od) ! i)) (ab_fifo a i) None"
    and "\<And>i j. i < n \<Longrightarrow> j < n \<Longrightarrow> i \<noteq> j \<Longrightarrow> set (ab_fifo a i) \<inter> set (ab_fifo a j) = {}"
    and "\<And>w. (\<And>i. i < n \<Longrightarrow> w \<notin> set (ab_fifo a i)) \<Longrightarrow> nextps od w = None"
    and "\<And>w. w \<in> ab_released a \<longleftrightarrow> totw_is_released (od_wait od w) = 1"
    and "\<And>i. i < n \<Longrightarrow> set (ab_fifo a i) \<inter> ab_released a = {}"
  shows "ordering_rel od a"
  using assms unfolding ordering_rel_def by simp

lemma slot_in_range:
  assumes "tot_ok t"
  shows "nat (tot_slot t op) < length (tot_tab t)"
    and "op \<noteq> 0 \<Longrightarrow> nat (tot_prev_slot t op) < length (tot_tab t)"
proof -
  have n: "0 < tot_entries t" "tot_entries t = int (length (tot_tab t))"
    using assms by (auto simp: tot_ok_def)
  have "nat (k mod tot_entries t) < length (tot_tab t)" for k
    using pos_mod_bound [OF n(1), of k] pos_mod_sign [OF n(1), of k] n(2) by linarith
  then show "nat (tot_slot t op) < length (tot_tab t)"
    and "op \<noteq> 0 \<Longrightarrow> nat (tot_prev_slot t op) < length (tot_tab t)"
    by (simp_all add: tot_slot_eq [OF assms] tot_prev_slot_eq [OF assms])
qed

lemma nextps_upd: "nextps (upd_wait l (\<lambda>t. t\<lparr>totw_nextp := q\<rparr>) od) = (nextps od)(l := q)"
  by (auto simp: upd_wait_def)

lemma wait_link_chain:
  assumes c: "chain (nextps od) (tot_waitp (tot_tab (od_tot od) ! i)) xs None"
    and w: "w \<notin> set xs" "nextps od w = None" and i: "i < length (tot_tab (od_tot od))"
  shows "\<exists>od'. wait_link i w od = Some od' \<and> linked i w xs od od'"
proof (cases "tot_waitp (tot_tab (od_tot od) ! i)")
  case None
  with c have "xs = []" by (simp add: chain_from_null)
  with None w i show ?thesis
    by (auto simp: wait_link_def linked_def upd_defs)
next
  case (Some h)
  with c have ne: "xs \<noteq> []" by auto
  have ce: "chain_end (nextps od) h = Some (last xs)"
    using c Some by (simp add: chain_end_last)
  have neq: "w \<noteq> last xs" using w ne by auto
  let ?od = "upd_wait (last xs) (\<lambda>t. t\<lparr>totw_nextp := Some w\<rparr>) od"
  have "(nextps od)(last xs := Some w) = (nextps od)(last xs := Some w, w := None)"
    using w neq by auto
  then have "chain (nextps ?od) (tot_waitp (tot_tab (od_tot ?od) ! i)) (xs @ [w]) None"
    using chain_snoc_link [OF c ne w(1)] unfolding nextps_upd by (simp add: upd_wait_def)
  moreover have "set ys \<inter> set xs = {} \<Longrightarrow> chain (nextps ?od) p ys None = chain (nextps od) p ys None" for p ys
    unfolding nextps_upd using ne by (metis chain_frame disjoint_iff last_in_set)
  ultimately show ?thesis
    using Some ce ne by (auto simp: wait_link_def linked_def upd_wait_def)
qed

lemma release_locked_rel:
  assumes "ordering_rel od a"
  shows "ordering_rel (release_locked now w task od)
           (a\<lparr>ab_avail := (ab_avail a)(nat (tot_slot (od_tot od) (ot_op_number task)) := True)\<rparr>)"
proof -
  have "nat (tot_slot (od_tot od) (ot_op_number task)) < length (tot_tab (od_tot od))"
    using assms by (simp add: ordering_rel_def slot_in_range)
  then show ?thesis
    using assms by (auto simp: release_locked_def ordering_rel_def upd_defs tot_ok_def nth_list_update)
qed

lemma release_signal_rel:
  fixes op :: u64
  assumes rel: "ordering_rel od a"
  defines "i \<equiv> nat (tot_slot (od_tot od) op)"
  shows "ordering_rel (snd (release_signal sg op od))
           (a\<lparr>ab_fifo := (ab_fifo a)(i := tl (ab_fifo a i)),
               ab_released := ab_released a \<union> set (take 1 (ab_fifo a i))\<rparr>)"
proof -
  let ?n = "length (tot_tab (od_tot od))"
  note D = ordering_relD [OF rel]
  have i: "i < ?n" using D(1) by (simp add: i_def slot_in_range)
  note c = D(3) [OF i]
  show ?thesis
  proof (cases "ab_fifo a i")
    case Nil
    with c have "tot_waitp (tot_tab (od_tot od) ! i) = None" by simp
    then have "snd (release_signal sg op od) = od"
      by (simp add: release_signal_def i_def [symmetric])
    moreover have "(ab_fifo a)(i := []) = ab_fifo a" using Nil by auto
    ultimately show ?thesis using rel Nil by simp
  next
    case (Cons h xs)
    let ?f = "(ab_fifo a)(i := xs)"
    have sub: "set (?f j) \<subseteq> set (ab_fifo a j)" for j using Cons by auto
    have hp: "tot_waitp (tot_tab (od_tot od) ! i) = Some h"
      and cxs: "chain (nextps od) (nextps od h) xs None" using c Cons by auto
    have h: "h \<notin> set (?f j)" if "j < ?n" for j
      using chain_to_null_distinct [OF c] D(4) [OF that i] Cons by auto
    define od' where "od' = snd (release_signal sg op od)"
    have od': "od' = upd_wait h (\<lambda>t. t\<lparr>totw_is_released := 1, totw_nextp := None\<rparr>)
        (upd_entry i (\<lambda>e. e\<lparr>tot_waitp := nextps od h\<rparr>) od)"
      by (simp add: od'_def release_signal_def i_def [symmetric] hp)
    have nx: "nextps od' = (nextps od)(h := None)" by (auto simp: od' upd_defs)
    have "ordering_rel od' (a\<lparr>ab_fifo := ?f, ab_released := insert h (ab_released a)\<rparr>)"
    proof (rule ordering_relI [where n = ?n], goal_cases)
      case 1 then show ?case using D(1) by (auto simp: od' upd_defs tot_ok_def)
    next
      case 2 then show ?case by (simp add: od' upd_defs)
    next
      case (3 j) then show ?case using D(2) [of j] i by (auto simp: od' upd_defs nth_list_update)
    next
      case (4 j)
      then show ?case
        using D(3) [of j] cxs h [of j] unfolding nx
        by (cases "j = i") (auto simp: od' upd_defs chain_frame)
    next
      case (5 j k)
      then have "set (?f j) \<inter> set (?f k) = {}" using D(4) [of j k] sub [of j] sub [of k] by blast
      then show ?case by simp
    next
      case (6 w)
      have "w \<notin> set (ab_fifo a j)" if "j < ?n" "w \<noteq> h" for j
        using that Cons "6" [of j] by (cases "j = i") auto
      then have "w \<noteq> h \<Longrightarrow> nextps od w = None" by (intro D(5)) simp
      then show ?case by (simp add: od' upd_defs)
    next
      case (7 w) then show ?case using D(6) [of w] by (auto simp: od' upd_defs)
    next
      case (8 j)
      then have "set (?f j) \<inter> insert h (ab_released a) = {}" using D(7) [of j] sub [of j] h [of j] by blast
      then show ?case by simp
    qed
    then show ?thesis by (simp add: od'_def Cons)
  qed
qed

subsection \<open>Runs of the serial-ordering protocol\<close>

text \<open>
  With serial ordering, the worker of operation \<open>op\<close> runs \<open>wait_for_previous_io\<close>, then its
  I/O, then \<open>release_next_io\<close> (the body of \<^verbatim>\<open>xdd_worker_thread_io\<close>).  \<open>wk op\<close> is the worker
  that got the operation; a worker runs one operation at a time.
\<close>

datatype io_phase = NotStarted | InWait | InIO | Finished

record serial_sys =
  ss_ord :: ordering
  ss_phase :: "u64 \<Rightarrow> io_phase"

definition worker_free :: "(u64 \<Rightarrow> nat) \<Rightarrow> serial_sys \<Rightarrow> u64 \<Rightarrow> bool" where
  "worker_free wk s op \<longleftrightarrow>
     (\<forall>op'. op' \<noteq> op \<and> wk op' = wk op \<longrightarrow> ss_phase s op' \<in> {NotStarted, Finished})"

inductive serial_step :: "(u64 \<Rightarrow> nat) \<Rightarrow> serial_sys \<Rightarrow> serial_sys \<Rightarrow> bool" for wk where
  start: "ss_phase s op = NotStarted \<Longrightarrow> worker_free wk s op \<Longrightarrow>
     wait_for_previous_io now (wk op) op (ss_ord s) = Some (Proceed, od) \<Longrightarrow>
     serial_step wk s (s\<lparr>ss_ord := od, ss_phase := (ss_phase s)(op := InIO)\<rparr>)"
| block: "ss_phase s op = NotStarted \<Longrightarrow> worker_free wk s op \<Longrightarrow>
     wait_for_previous_io now (wk op) op (ss_ord s) = Some (Blocked, od) \<Longrightarrow>
     serial_step wk s (s\<lparr>ss_ord := od, ss_phase := (ss_phase s)(op := InWait)\<rparr>)"
| resume: "ss_phase s op = InWait \<Longrightarrow>
     wait_resume (wk op) op (ss_ord s) = (Proceed, od) \<Longrightarrow>
     serial_step wk s (s\<lparr>ss_ord := od, ss_phase := (ss_phase s)(op := InIO)\<rparr>)"
| finish: "ss_phase s op = InIO \<Longrightarrow> ot_op_number task = op \<Longrightarrow>
     release_next_io now sg (wk op) task (ss_ord s) = (rc, od) \<Longrightarrow>
     serial_step wk s (s\<lparr>ss_ord := od, ss_phase := (ss_phase s)(op := Finished)\<rparr>)"

definition serial_start :: "ordering \<Rightarrow> serial_sys" where
  "serial_start od = \<lparr>ss_ord = od, ss_phase = (\<lambda>_. NotStarted)\<rparr>"

lemma available_proceeds:
  assumes "op \<noteq> 0"
    and "tot_status (tot_tab (od_tot od) ! nat (tot_prev_slot (od_tot od) op)) = TOT_ENTRY_AVAILABLE"
    and "nat (tot_prev_slot (od_tot od) op) < length (tot_tab (od_tot od))"
  shows "\<exists>od'. wait_for_previous_io now w op od = Some (Proceed, od')"
  using assms by (auto simp: wait_for_previous_io_def Let_def upd_defs)

text \<open>
  A two-entry table used by the witnesses: worker 1 waits at entry 0, entry 1 is
  available.
\<close>

definition ex_entry :: "nat ptr \<Rightarrow> int \<Rightarrow> tot_entry" where
  "ex_entry p st = \<lparr>tot_waitp = p, tot_wait_ts = 0, tot_post_ts = 0, tot_update_ts = 0,
     tot_byte_offset = -1, tot_op_number = -1, tot_io_size = 0,
     tot_wait_worker_thread_number = 0, tot_post_worker_thread_number = 0,
     tot_update_worker_thread_number = 0, tot_status = st\<rparr>"

definition ex_ordering :: ordering where
  "ex_ordering = \<lparr>od_tot = \<lparr>tot_entries = 2, tot_tab = [ex_entry (Some 1) 0, ex_entry None 1]\<rparr>,
     od_wait = (\<lambda>w. \<lparr>totw_nextp = None, totw_wdp = w, totw_is_released = 0\<rparr>), od_state = (\<lambda>_. 0)\<rparr>"

definition ex_gate :: abs_ordering where
  "ex_gate = \<lparr>ab_avail = (\<lambda>i. i = 1), ab_fifo = (\<lambda>i. if i = 0 then [1] else []), ab_released = {}\<rparr>"

lemma ex_ordering_rel: "ordering_rel ex_ordering ex_gate"
  by (simp add: ordering_rel_def ex_ordering_def ex_gate_def ex_entry_def tot_ok_def
      All_less_Suc numeral_2_eq_2)

lemma ex_slots:
  "tot_prev_slot (od_tot ex_ordering) 1 = 0" "tot_slot (od_tot ex_ordering) 2 = 0"
proof -
  have "tot_ok (od_tot ex_ordering)" using ex_ordering_rel by (rule ordering_relD)
  then show "tot_prev_slot (od_tot ex_ordering) 1 = 0" "tot_slot (od_tot ex_ordering) 2 = 0"
    by (simp_all add: tot_prev_slot_eq tot_slot_eq) (simp_all add: ex_ordering_def)
qed

subsection \<open>Properties\<close>

text \<open>C26: The table \<^verbatim>\<open>tot_init\<close> sizes for a queue depth gives any \<open>queue_depth\<close> consecutive
  operations pairwise different entries, so operations in flight together never share one.\<close>

theorem tot_window_slots_distinct:
  assumes "0 < uint queue_depth" and "uint queue_depth * 600 < 2 ^ 31"
    and "tot_ok t" and "tot_entries t = tot_num_entries queue_depth num_reqs"
    and "uint a < uint b" and "uint b < uint a + uint queue_depth"
  shows "tot_slot t a \<noteq> tot_slot t b"
proof
  assume "tot_slot t a = tot_slot t b"
  then have "uint a mod tot_entries t = uint b mod tot_entries t"
    using assms(3) by (simp add: tot_slot_eq)
  moreover have "uint queue_depth \<le> tot_entries t"
    using tot_num_entries_bounds [OF assms(1,2)] assms(4) by simp
  ultimately have "uint a = uint b"
    by (intro slots_distinct_int [of "tot_entries t" "uint b" "uint a"])
       (use assms(1,5,6) in linarith)+
  with assms(5) show False by simp
qed

theorem tot_window_slots_distinct_witness:
  "tot_slot \<lparr>tot_entries = 40, tot_tab = replicate 40 (tot_entry_reset (undefined :: tot_entry))\<rparr> 39
     \<noteq> tot_slot \<lparr>tot_entries = 40, tot_tab = replicate 40 (tot_entry_reset undefined)\<rparr> 40"
proof -
  have "tot_num_entries 2 100 = 40" by (simp add: tot_num_entries_def c_int32_small)
  then show ?thesis
    by (intro tot_window_slots_distinct [where queue_depth = 2 and num_reqs = 100])
       (simp_all add: tot_ok_def)
qed

text \<open>The entry at which an operation waits is the entry that the preceding operation
  releases, at every position of the table, the wrap-around included.\<close>

lemma wait_slot_is_release_slot:
  assumes "tot_ok t" and "op \<noteq> 0"
  shows "tot_prev_slot t op = tot_slot t (op - 1)"
proof -
  have "uint (op - 1) = uint op - 1"
    using assms(2) uint_sub_lem [of 1 op] unsigned_greater_eq [of op]
    by (simp add: int_one_le_iff_zero_less order_less_le uint_0_iff)
  with assms show ?thesis by (simp add: tot_slot_eq tot_prev_slot_eq)
qed

lemma wait_slot_is_release_slot_witness:
  "tot_prev_slot \<lparr>tot_entries = 40, tot_tab = replicate 40 (tot_entry_reset (undefined :: tot_entry))\<rparr> 80
     = tot_slot \<lparr>tot_entries = 40, tot_tab = replicate 40 (tot_entry_reset undefined)\<rparr> (80 - 1)"
  by (rule wait_slot_is_release_slot) (simp_all add: tot_ok_def)

text \<open>In the \<^verbatim>\<open>posix_memalign\<close> build a first \<^verbatim>\<open>tot_init\<close> succeeds and yields a well-formed
  table of the computed size in which every entry is available, has no waiter and
  carries operation number -1.\<close>

lemma tot_init_ready:
  assumes "0 < uint queue_depth" and "uint queue_depth * 600 < 2 ^ 31" and "num_reqs \<noteq> 0"
    and "\<And>i. mutex_init i = 0"
  shows "\<exists>t. tot_init HAVE_POSIX_MEMALIGN 0 mutex_init raw_n raw None queue_depth num_reqs
               = Some (0, Some t) \<and> tot_ok t \<and>
             tot_entries t = tot_num_entries queue_depth num_reqs \<and>
             (\<forall>e \<in> set (tot_tab t). tot_status e = TOT_ENTRY_AVAILABLE \<and> tot_waitp e = None \<and>
                tot_op_number e = -1)"
proof -
  let ?n = "tot_num_entries queue_depth num_reqs"
  let ?t = "\<lparr>tot_entries = ?n, tot_tab = map raw [0..<nat ?n]\<rparr>"
  have n: "uint queue_depth \<le> ?n" "?n \<le> uint queue_depth * 600"
    using tot_num_entries_bounds [OF assms(1,2)] by auto
  then have ok: "tot_ok ?t" using assms(1,2) by (simp add: tot_ok_def)
  have "tot_init HAVE_POSIX_MEMALIGN 0 mutex_init raw_n raw None queue_depth num_reqs
          = Some (0, Some (tot_reset_entries ?t))"
    using assms by (auto simp: tot_init_def tot_init_alloc_def tot_init_mutexes_ok Let_def)
  then show ?thesis
    using tot_reset_entries_ok [OF ok] by (auto simp: tot_entry_reset_def)
qed

lemma tot_init_ready_witness:
  "\<exists>t. tot_init HAVE_POSIX_MEMALIGN 0 (\<lambda>_. 0) 7 (\<lambda>_. undefined) None 4 100 = Some (0, Some t) \<and>
     tot_ok t \<and> tot_entries t = tot_num_entries 4 100 \<and>
     (\<forall>e \<in> set (tot_tab t). tot_status e = TOT_ENTRY_AVAILABLE \<and> tot_waitp e = None \<and>
        tot_op_number e = -1)"
  by (rule tot_init_ready) simp_all

text \<open>In the builds that take the \<^verbatim>\<open>valloc\<close> or \<^verbatim>\<open>malloc\<close> branch, a first \<^verbatim>\<open>tot_init\<close> fails
  with -1 although the memory was allocated, and leaves behind a table whose entry
  count is whatever the memory held.\<close>

lemma tot_init_unaligned_alloc_fails:
  assumes "cfg \<noteq> HAVE_POSIX_MEMALIGN" and "queue_depth \<noteq> 0" and "num_reqs \<noteq> 0"
  shows "\<exists>t. tot_init cfg memalign mutex_init raw_n raw None queue_depth num_reqs = Some (-1, Some t) \<and>
           tot_entries t = raw_n"
  using assms by (cases cfg) (simp_all add: tot_init_def tot_init_alloc_def Let_def)

lemma tot_init_unaligned_alloc_fails_witness:
  "\<exists>t. tot_init HAVE_VALLOC 0 (\<lambda>_. 0) 7 (\<lambda>_. undefined) None 4 100 = Some (-1, Some t) \<and>
     tot_entries t = 7"
  by (rule tot_init_unaligned_alloc_fails) simp_all

text \<open>C4: Waiting for the previous operation refines the abstract gate: a worker that is on no
  chain takes the token of its slot if there is one and otherwise joins the end of that
  slot's queue; the walk over the wait chain always ends.\<close>

theorem wait_for_previous_io_refines:
  assumes rel: "ordering_rel od a" and op: "op \<noteq> 0"
    and new: "\<forall>i < length (tot_tab (od_tot od)). w \<notin> set (ab_fifo a i)" and unrel: "w \<notin> ab_released a"
  defines "i \<equiv> nat (tot_prev_slot (od_tot od) op)"
  shows "\<exists>od'. wait_for_previous_io now w op od = Some (fst (abs_wait i w a), od') \<and>
           ordering_rel od' (snd (abs_wait i w a))"
proof -
  have i: "i < length (tot_tab (od_tot od))"
    using rel op by (simp add: i_def ordering_rel_def slot_in_range)
  show ?thesis
  proof (cases "ab_avail a i")
    case True
    then show ?thesis
      using rel op i unfolding ordering_rel_def wait_for_previous_io_def i_def [symmetric] Let_def
      by (auto simp: upd_defs wait_take_entry_def abs_wait_def tot_ok_def nth_list_update)
  next
    case False
    define od3 where "od3 = upd_state w (\<lambda>s. set_flag s WT_WAITING_FOR_PREVIOUS_IO)
      (upd_entry i (\<lambda>e. e\<lparr>tot_wait_ts := now\<rparr>)
        (upd_state w (\<lambda>s. clear_flag (set_flag s WT_WAITING_FOR_TOT_LOCK_TS) WT_WAITING_FOR_TOT_LOCK_TS) od))"
    have rel3: "ordering_rel od3 a"
      using rel i by (auto simp: od3_def ordering_rel_def upd_defs tot_ok_def nth_list_update)
    have len: "length (tot_tab (od_tot od3)) = length (tot_tab (od_tot od))"
      by (simp add: od3_def upd_defs)
    have c: "chain (nextps od3) (tot_waitp (tot_tab (od_tot od3) ! i)) (ab_fifo a i) None"
      and w: "w \<notin> set (ab_fifo a i)" "nextps od3 w = None" and r: "totw_is_released (od_wait od3 w) \<noteq> 1"
      and i3: "i < length (tot_tab (od_tot od3))"
      and st: "tot_status (tot_tab (od_tot od3) ! i) = 0"
      using rel3 new unrel i len False unfolding ordering_rel_def by auto
    obtain od4 where link: "wait_link i w od3 = Some od4" and od4: "linked i w (ab_fifo a i) od3 od4"
      using wait_link_chain [OF c w i3] by blast
    have "wait_for_previous_io now w op od = Some (Blocked, od4)"
      using op link r od4 st
      unfolding wait_for_previous_io_def i_def [symmetric] Let_def od3_def [symmetric] by (simp add: linked_def)
    moreover have "ordering_rel od4 (snd (abs_wait i w a))"
    proof -
      have dis: "set (ab_fifo a j) \<inter> set (ab_fifo a i) = {}"
        if "j < length (tot_tab (od_tot od3))" "j \<noteq> i" for j
        using rel3 that i3 unfolding ordering_rel_def by blast
      have ch: "chain (nextps od4) (tot_waitp (tot_tab (od_tot od4) ! j)) (ab_fifo a j) None"
        if "j < length (tot_tab (od_tot od3))" "j \<noteq> i" for j
        using rel3 that dis [OF that] od4 unfolding ordering_rel_def linked_def by simp
      show ?thesis
        using rel3 od4 ch new unrel False i3 len
        unfolding ordering_rel_def abs_wait_def tot_ok_def linked_def
        by auto
    qed
    ultimately show ?thesis using False by (simp add: abs_wait_def)
  qed
qed

theorem wait_for_previous_io_refines_witness:
  "\<exists>od'. wait_for_previous_io 9 2 1 ex_ordering = Some (fst (abs_wait 0 2 ex_gate), od') \<and>
     ordering_rel od' (snd (abs_wait 0 2 ex_gate))"
  using wait_for_previous_io_refines [OF ex_ordering_rel, of 1 2 9]
  by (simp add: ex_slots ex_gate_def)



text \<open>C5: Releasing the next operation refines the abstract gate: it opens the slot of the
  finished operation and releases exactly the worker that has waited there longest.\<close>

theorem release_next_io_refines:
  assumes "ordering_rel od a"
  shows "ordering_rel (snd (release_next_io now sg w task od))
           (abs_release (nat (tot_slot (od_tot od) (ot_op_number task))) a)"
proof -
  have "tot_slot (od_tot (release_locked now w task od)) op = tot_slot (od_tot od) op" for op
    by (simp add: release_locked_def upd_defs tot_slot_def)
  then show ?thesis
    using release_signal_rel [OF release_locked_rel [OF assms, of now w task], of sg "ot_op_number task"]
    by (simp add: release_next_io_def abs_release_def)
qed

theorem release_next_io_refines_witness:
  "ordering_rel (snd (release_next_io 9 0 3 \<lparr>ot_op_number = 2, ot_byte_offset = 8, ot_xfer_size = 4\<rparr>
     ex_ordering)) (abs_release 0 ex_gate)"
  using release_next_io_refines [OF ex_ordering_rel, of 9 0 3
      "\<lparr>ot_op_number = 2, ot_byte_offset = 8, ot_xfer_size = 4\<rparr>"]
  by (simp add: ex_slots)

text \<open>C27: Starting from a table as \<^verbatim>\<open>tot_init\<close> leaves it (every entry available), serial ordering
  is not enforced: operation 1 can be inside its I/O while operation 0 still is.\<close>

theorem serial_order_not_enforced:
  assumes "tot_ok (od_tot od)" and "\<forall>e \<in> set (tot_tab (od_tot od)). tot_status e = TOT_ENTRY_AVAILABLE"
    and "wk 0 \<noteq> wk 1"
  shows "\<exists>s. rtranclp (serial_step wk) (serial_start od) s \<and> ss_phase s 0 = InIO \<and> ss_phase s 1 = InIO"
proof -
  let ?i = "nat (tot_prev_slot (od_tot od) 1)"
  have i: "?i < length (tot_tab (od_tot od))" using assms(1) by (simp add: slot_in_range)
  obtain od' where od': "wait_for_previous_io 0 (wk 1) 1 od = Some (Proceed, od')"
    using available_proceeds [of 1 od] i assms(2) by force
  let ?s1 = "(serial_start od)\<lparr>ss_ord := od, ss_phase := (ss_phase (serial_start od))(0 := InIO)\<rparr>"
  have "serial_step wk (serial_start od) ?s1"
    by (rule serial_step.start [where now = 0])
       (simp_all add: serial_start_def worker_free_def wait_for_previous_io_def)
  moreover have "serial_step wk ?s1 (?s1\<lparr>ss_ord := od', ss_phase := (ss_phase ?s1)(1 := InIO)\<rparr>)"
    using od' assms(3)
    by (intro serial_step.start [where now = 0]) (auto simp: serial_start_def worker_free_def)
  ultimately show ?thesis
    by (intro exI [of _ "?s1\<lparr>ss_ord := od', ss_phase := (ss_phase ?s1)(1 := InIO)\<rparr>"])
       (auto intro: converse_rtranclp_into_rtranclp)
qed

theorem serial_order_not_enforced_witness:
  "\<exists>s. rtranclp (serial_step unat)
         (serial_start (ex_ordering\<lparr>od_tot := \<lparr>tot_entries = 2, tot_tab = [ex_entry None 1, ex_entry None 1]\<rparr>\<rparr>)) s \<and>
       ss_phase s 0 = InIO \<and> ss_phase s 1 = InIO"
  by (rule serial_order_not_enforced) (simp_all add: tot_ok_def ex_entry_def)

end
