(* ===== verification/Bx_Queue.thy ===== *)
theory Bx_Queue
  imports Xdd_Prelude
begin

unbundle bit_operations_syntax

text \<open>
  The buffer queues and worker queues of the buffer-exchange program
  (\<^verbatim>\<open>src/bx/bx_buffer_queue.c\<close>, \<^verbatim>\<open>src/bx/bx_worker_queue.c\<close>): doubly linked lists with an
  anchor, a counter and a flag that says a consumer waits.  Headers and worker
  structures live in stores indexed by \<open>nat\<close>.  A dequeue on an empty queue blocks in
  \<^verbatim>\<open>pthread_cond_wait\<close>; that is the outcome \<open>Waiting\<close>.  Dereferencing a null anchor is the
  outcome \<open>Trap\<close>.

  The locale \<open>fifo_queue\<close> is the contract the target and worker threads rely on; both
  queues are interpretations of it.
\<close>

subsection \<open>The contract\<close>

datatype 'a deq_outcome = Waiting | Trap | Got 'a

fun deq_many :: "('s \<Rightarrow> 'a deq_outcome \<times> 's) \<Rightarrow> nat \<Rightarrow> 's \<Rightarrow> 'a deq_outcome list \<times> 's" where
  "deq_many deq 0 s = ([], s)"
| "deq_many deq (Suc n) s =
     (let (r, s1) = deq s; (rs, s2) = deq_many deq n s1 in (r # rs, s2))"

locale fifo_queue =
  fixes enq :: "'a \<Rightarrow> 's \<Rightarrow> 's"
    and deq :: "'s \<Rightarrow> 'a deq_outcome \<times> 's"
    and holds :: "'s \<Rightarrow> 'a list \<Rightarrow> bool"
  assumes enq_holds: "holds s xs \<Longrightarrow> x \<notin> set xs \<Longrightarrow> holds (enq x s) (xs @ [x])"
    and deq_empty: "holds s [] \<Longrightarrow> fst (deq s) = Waiting \<and> holds (snd (deq s)) []"
    and deq_front: "holds s (x # xs) \<Longrightarrow> fst (deq s) = Got x \<and> holds (snd (deq s)) xs"
begin

lemma enq_all_holds:
  "holds s xs \<Longrightarrow> distinct (xs @ ys) \<Longrightarrow> holds (fold enq ys s) (xs @ ys)"
proof (induction ys arbitrary: s xs)
  case Nil
  then show ?case by simp
next
  case (Cons y ys)
  then have "holds (enq y s) (xs @ [y])" by (intro enq_holds) auto
  with Cons.IH [of "enq y s" "xs @ [y]"] Cons.prems show ?case by simp
qed

lemma drain_prefix:
  "holds s (xs @ ys) \<Longrightarrow>
     fst (deq_many deq (length xs) s) = map Got xs \<and> holds (snd (deq_many deq (length xs) s)) ys"
proof (induction xs arbitrary: s)
  case Nil
  then show ?case by simp
next
  case (Cons x xs)
  then have "fst (deq s) = Got x" and "holds (snd (deq s)) (xs @ ys)"
    using deq_front by auto
  with Cons.IH [of "snd (deq s)"] show ?case by (simp add: split_beta Let_def)
qed

lemma fifo_order:
  assumes "holds s []" and "distinct xs"
  shows "fst (deq_many deq (length xs) (fold enq xs s)) = map Got xs"
    and "fst (deq (snd (deq_many deq (length xs) (fold enq xs s)))) = Waiting"
proof -
  have "holds (fold enq xs s) (xs @ [])" using enq_all_holds [OF assms(1), of xs] assms(2) by simp
  then show "fst (deq_many deq (length xs) (fold enq xs s)) = map Got xs"
    and "fst (deq (snd (deq_many deq (length xs) (fold enq xs s)))) = Waiting"
    using drain_prefix [of _ xs "[]"] deq_empty by blast+
qed

end

subsection \<open>Buffer headers and their queue\<close>

abbreviation (input) BX_BUFHDR_INITIALIZED :: u64 where "BX_BUFHDR_INITIALIZED \<equiv> 1"
abbreviation (input) BX_BUFHDR_END_OF_FILE :: u64 where "BX_BUFHDR_END_OF_FILE \<equiv> 2"
abbreviation (input) BX_DEQUEUE_WAITING :: u32 where "BX_DEQUEUE_WAITING \<equiv> 1"
abbreviation (input) BX_WD_WAITING :: u32 where "BX_WD_WAITING \<equiv> 8"
abbreviation (input) BX_WD_TERMINATE :: u32 where "BX_WD_TERMINATE \<equiv> 0x10"

record bx_buffer_header =
  bh_next :: "nat ptr"
  bh_prev :: "nat ptr"
  bh_startp :: "u8 list"
  bh_size :: int
  bh_valid_size :: int
  bh_file_offset :: int
  bh_transfer_size :: int
  bh_sequence :: int
  bh_target :: int
  bh_time :: int
  bh_flags :: u64

record bx_buffer_queue =
  bq_name :: string
  bq_counter :: int
  bq_flags :: u32
  bq_first :: "nat ptr"
  bq_last :: "nat ptr"

text \<open>
  A queue operation works on the anchor and on the store of headers.  \<open>bufqueue_init\<close> and
  \<open>bufhdr_init\<close> return the C status; the return codes of the pthread calls and the result
  of \<^verbatim>\<open>valloc\<close> are parameters.  \<open>bufhdr_init\<close> leaves the header partly written when it
  fails.
\<close>

type_synonym bq_state = "bx_buffer_queue \<times> (nat \<Rightarrow> bx_buffer_header)"

definition bufqueue_init :: "int \<Rightarrow> int \<Rightarrow> bx_buffer_queue \<Rightarrow> string \<Rightarrow> int \<times> bx_buffer_queue" where
  "bufqueue_init mutex_rc cond_rc bq name =
     (if mutex_rc \<noteq> 0 \<or> cond_rc \<noteq> 0 then -1 else 0,
      bq\<lparr>bq_name := name, bq_counter := 0, bq_flags := 0, bq_first := None, bq_last := None\<rparr>)"

definition bufhdr_init ::
  "int \<Rightarrow> u8 list option \<Rightarrow> bx_buffer_header \<Rightarrow> int \<Rightarrow> int \<times> bx_buffer_header" where
  "bufhdr_init mutex_rc mem bp sz =
     (let bp1 = bp\<lparr>bh_next := None, bh_prev := None\<rparr> in
      if mutex_rc \<noteq> 0 then (-1, bp1)
      else case mem of
             None \<Rightarrow> (-1, bp1)
           | Some bytes \<Rightarrow> (0, bp1\<lparr>bh_startp := bytes, bh_size := sz, bh_valid_size := 0,
                bh_file_offset := 0, bh_sequence := 0, bh_target := 0, bh_time := 0,
                bh_flags := BX_BUFHDR_INITIALIZED\<rparr>))"

definition upd_hdr :: "nat \<Rightarrow> (bx_buffer_header \<Rightarrow> bx_buffer_header) \<Rightarrow> (nat \<Rightarrow> bx_buffer_header)
    \<Rightarrow> nat \<Rightarrow> bx_buffer_header" where
  "upd_hdr p f hs = hs(p := f (hs p))"

text \<open>
  The last branch of \<open>bh_enqueue\<close> writes through \<open>bq_last\<close>; the anchor of a queue with a
  first element always has one, see \<open>bq_holds\<close>.
\<close>

definition bh_enqueue :: "nat \<Rightarrow> bq_state \<Rightarrow> bq_state" where
  "bh_enqueue bp = (\<lambda>(bq, hs).
     let (bq1, hs1) =
       (if bq_first bq = None
        then (bq\<lparr>bq_first := Some bp, bq_last := Some bp, bq_counter := bq_counter bq + 1\<rparr>,
              upd_hdr bp (\<lambda>h. h\<lparr>bh_prev := None, bh_next := None\<rparr>) hs)
        else (bq\<lparr>bq_counter := bq_counter bq + 1, bq_last := Some bp\<rparr>,
              upd_hdr bp (\<lambda>h. h\<lparr>bh_prev := bq_last bq, bh_next := None\<rparr>)
                (case bq_last bq of None \<Rightarrow> hs
                 | Some tmp \<Rightarrow> upd_hdr tmp (\<lambda>h. h\<lparr>bh_next := Some bp\<rparr>) hs)))
     in (bq1, upd_hdr bp (\<lambda>h. h\<lparr>bh_time := 0xDEAD0000\<rparr>) hs1))"

text \<open>Whether the enqueue broadcasts the queue's condition variable.\<close>

definition bh_enqueue_wakes :: "bq_state \<Rightarrow> bool" where
  "bh_enqueue_wakes = (\<lambda>(bq, hs). flag_on (bq_flags bq) BX_DEQUEUE_WAITING)"

definition bh_dequeue :: "bq_state \<Rightarrow> nat deq_outcome \<times> bq_state" where
  "bh_dequeue = (\<lambda>(bq, hs).
     let bq1 = bq\<lparr>bq_flags := set_flag (bq_flags bq) BX_DEQUEUE_WAITING\<rparr> in
     if bq_counter bq1 = 0 then (Waiting, (bq1, hs))
     else let bq2 = bq1\<lparr>bq_flags := clear_flag (bq_flags bq1) BX_DEQUEUE_WAITING\<rparr> in
          case bq_first bq2 of
            None \<Rightarrow> (Trap, (bq2, hs))
          | Some bp \<Rightarrow>
              (case bh_next (hs bp) of
                 None \<Rightarrow> (Got bp, (bq2\<lparr>bq_first := None, bq_last := None,
                                      bq_counter := bq_counter bq2 - 1\<rparr>, hs))
               | Some q \<Rightarrow> (Got bp, (bq2\<lparr>bq_first := Some q, bq_counter := bq_counter bq2 - 1\<rparr>,
                                    upd_hdr q (\<lambda>h. h\<lparr>bh_prev := None\<rparr>) hs))))"

definition bq_holds :: "bq_state \<Rightarrow> nat list \<Rightarrow> bool" where
  "bq_holds = (\<lambda>(bq, hs) xs.
     dll (\<lambda>p. bh_next (hs p)) (\<lambda>p. bh_prev (hs p)) (bq_first bq) (bq_last bq) xs \<and>
     bq_counter bq = int (length xs))"

subsection \<open>Worker structures and their queue\<close>

record bx_wd =
  bx_wd_next :: "nat ptr"
  bx_wd_prev :: "nat ptr"
  bx_wd_released :: int
  bx_wd_my_worker_thread_number :: int
  bx_wd_my_bx_tdp :: nat
  bx_wd_fd :: int
  bx_wd_flags :: u32
  bx_wd_bufhdrp :: "nat ptr"
  bx_wd_next_buffer_queue :: nat
  bx_wd_my_queue :: nat

record bx_wd_queue =
  q_name :: string
  q_counter :: int
  q_flags :: u32
  q_first :: "nat ptr"
  q_last :: "nat ptr"

type_synonym wq_state = "bx_wd_queue \<times> (nat \<Rightarrow> bx_wd)"

definition bx_wd_queue_init :: "int \<Rightarrow> int \<Rightarrow> bx_wd_queue \<Rightarrow> string \<Rightarrow> int \<times> bx_wd_queue" where
  "bx_wd_queue_init mutex_rc cond_rc qp name =
     (if mutex_rc \<noteq> 0 \<or> cond_rc \<noteq> 0 then -1 else 0,
      qp\<lparr>q_name := name, q_counter := 0, q_flags := 0, q_first := None, q_last := None\<rparr>)"

definition upd_wd :: "nat \<Rightarrow> (bx_wd \<Rightarrow> bx_wd) \<Rightarrow> (nat \<Rightarrow> bx_wd) \<Rightarrow> nat \<Rightarrow> bx_wd" where
  "upd_wd p f ws = ws(p := f (ws p))"

definition bx_wd_enqueue :: "nat \<Rightarrow> wq_state \<Rightarrow> wq_state" where
  "bx_wd_enqueue wdp = (\<lambda>(qp, ws).
     if q_first qp = None
     then (qp\<lparr>q_first := Some wdp, q_last := Some wdp, q_counter := q_counter qp + 1\<rparr>,
           upd_wd wdp (\<lambda>w. w\<lparr>bx_wd_prev := None, bx_wd_next := None\<rparr>) ws)
     else (qp\<lparr>q_counter := q_counter qp + 1, q_last := Some wdp\<rparr>,
           upd_wd wdp (\<lambda>w. w\<lparr>bx_wd_prev := q_last qp, bx_wd_next := None\<rparr>)
             (case q_last qp of None \<Rightarrow> ws
              | Some tmp \<Rightarrow> upd_wd tmp (\<lambda>w. w\<lparr>bx_wd_next := Some wdp\<rparr>) ws)))"

definition bx_wd_enqueue_wakes :: "wq_state \<Rightarrow> bool" where
  "bx_wd_enqueue_wakes = (\<lambda>(qp, ws). flag_on (q_flags qp) BX_WD_WAITING)"

definition bx_wd_dequeue :: "wq_state \<Rightarrow> nat deq_outcome \<times> wq_state" where
  "bx_wd_dequeue = (\<lambda>(qp, ws).
     let q1 = qp\<lparr>q_flags := set_flag (q_flags qp) BX_WD_WAITING\<rparr> in
     if q_counter q1 = 0 then (Waiting, (q1, ws))
     else let q2 = q1\<lparr>q_flags := clear_flag (q_flags q1) BX_WD_WAITING\<rparr> in
          case q_first q2 of
            None \<Rightarrow> (Trap, (q2, ws))
          | Some wdp \<Rightarrow>
              (case bx_wd_next (ws wdp) of
                 None \<Rightarrow> (Got wdp, (q2\<lparr>q_first := None, q_last := None,
                                       q_counter := q_counter q2 - 1\<rparr>, ws))
               | Some q \<Rightarrow> (Got wdp, (q2\<lparr>q_first := Some q, q_counter := q_counter q2 - 1\<rparr>,
                                     upd_wd q (\<lambda>w. w\<lparr>bx_wd_prev := None\<rparr>) ws))))"

definition wq_holds :: "wq_state \<Rightarrow> nat list \<Rightarrow> bool" where
  "wq_holds = (\<lambda>(qp, ws) xs.
     dll (\<lambda>p. bx_wd_next (ws p)) (\<lambda>p. bx_wd_prev (ws p)) (q_first qp) (q_last qp) xs \<and>
     q_counter qp = int (length xs))"

subsection \<open>Both queues satisfy the contract\<close>

lemma hdr_links:
  "(\<lambda>p. bh_next (upd_hdr q f hs p)) = (\<lambda>p. bh_next (hs p))(q := bh_next (f (hs q)))"
  "(\<lambda>p. bh_prev (upd_hdr q f hs p)) = (\<lambda>p. bh_prev (hs p))(q := bh_prev (f (hs q)))"
  by (auto simp: upd_hdr_def)

lemma wd_links:
  "(\<lambda>p. bx_wd_next (upd_wd q f ws p)) = (\<lambda>p. bx_wd_next (ws p))(q := bx_wd_next (f (ws q)))"
  "(\<lambda>p. bx_wd_prev (upd_wd q f ws p)) = (\<lambda>p. bx_wd_prev (ws p))(q := bx_wd_prev (f (ws q)))"
  by (auto simp: upd_wd_def)

lemma upd_apply:
  "upd_hdr p f hs p = f (hs p)" "q \<noteq> p \<Longrightarrow> upd_hdr p f hs q = hs q"
  "upd_wd p g ws p = g (ws p)" "q \<noteq> p \<Longrightarrow> upd_wd p g ws q = ws q"
  by (simp_all add: upd_hdr_def upd_wd_def)

lemma bh_enqueue_holds:
  assumes "bq_holds (bq, hs) xs" and "x \<notin> set xs"
  shows "bq_holds (bh_enqueue x (bq, hs)) (xs @ [x])"
proof (cases "xs = []")
  case True
  with assms have "bq_first bq = None" by (simp add: bq_holds_def dll_empty)
  with True assms show ?thesis
    using dll_snoc_empty [of "\<lambda>p. bh_next (hs p)" x "\<lambda>p. bh_prev (hs p)"]
    by (simp add: bq_holds_def bh_enqueue_def hdr_links upd_apply)
next
  case False
  let ?nx = "\<lambda>p. bh_next (hs p)" and ?pv = "\<lambda>p. bh_prev (hs p)"
  have d: "dll ?nx ?pv (bq_first bq) (bq_last bq) xs" using assms by (simp add: bq_holds_def)
  obtain f where "bq_first bq = Some f" and l: "bq_last bq = Some (last xs)"
    using dll_first [OF d] dll_last [OF d False] False by (cases "bq_first bq") auto
  moreover have "x \<noteq> last xs" using False assms(2) by auto
  moreover have "(?pv)(last xs := ?pv (last xs)) = ?pv" by auto
  ultimately show ?thesis
    using dll_snoc [OF d False assms(2)] assms(1)
    by (simp add: bq_holds_def bh_enqueue_def hdr_links upd_apply)
qed

lemma bx_wd_enqueue_holds:
  assumes "wq_holds (qp, ws) xs" and "x \<notin> set xs"
  shows "wq_holds (bx_wd_enqueue x (qp, ws)) (xs @ [x])"
proof (cases "xs = []")
  case True
  with assms have "q_first qp = None" by (simp add: wq_holds_def dll_empty)
  with True assms show ?thesis
    using dll_snoc_empty [of "\<lambda>p. bx_wd_next (ws p)" x "\<lambda>p. bx_wd_prev (ws p)"]
    by (simp add: wq_holds_def bx_wd_enqueue_def wd_links upd_apply)
next
  case False
  let ?nx = "\<lambda>p. bx_wd_next (ws p)" and ?pv = "\<lambda>p. bx_wd_prev (ws p)"
  have d: "dll ?nx ?pv (q_first qp) (q_last qp) xs" using assms by (simp add: wq_holds_def)
  obtain f where "q_first qp = Some f" and l: "q_last qp = Some (last xs)"
    using dll_first [OF d] dll_last [OF d False] False by (cases "q_first qp") auto
  moreover have "x \<noteq> last xs" using False assms(2) by auto
  moreover have "(?pv)(last xs := ?pv (last xs)) = ?pv" by auto
  ultimately show ?thesis
    using dll_snoc [OF d False assms(2)] assms(1)
    by (simp add: wq_holds_def bx_wd_enqueue_def wd_links upd_apply)
qed

lemma bh_dequeue_front:
  assumes "bq_holds (bq, hs) (x # xs)"
  shows "fst (bh_dequeue (bq, hs)) = Got x \<and> bq_holds (snd (bh_dequeue (bq, hs))) xs"
proof (cases xs)
  case Nil
  with assms show ?thesis by (simp add: bq_holds_def bh_dequeue_def dll_def)
next
  case (Cons y ys)
  have d: "dll (\<lambda>p. bh_next (hs p)) (\<lambda>p. bh_prev (hs p)) (bq_first bq) (bq_last bq) (x # y # ys)"
    using assms Cons by (simp add: bq_holds_def)
  have "bq_first bq = Some x" using d by (simp add: dll_def)
  moreover have "(\<lambda>p. bh_next (hs p))(y := bh_next (hs y)) = (\<lambda>p. bh_next (hs p))" by auto
  ultimately show ?thesis
    using dll_tl [OF d] assms Cons
    by (simp add: bq_holds_def bh_dequeue_def hdr_links)
qed

lemma bx_wd_dequeue_front:
  assumes "wq_holds (qp, ws) (x # xs)"
  shows "fst (bx_wd_dequeue (qp, ws)) = Got x \<and> wq_holds (snd (bx_wd_dequeue (qp, ws))) xs"
proof (cases xs)
  case Nil
  with assms show ?thesis by (simp add: wq_holds_def bx_wd_dequeue_def dll_def)
next
  case (Cons y ys)
  have d: "dll (\<lambda>p. bx_wd_next (ws p)) (\<lambda>p. bx_wd_prev (ws p)) (q_first qp) (q_last qp) (x # y # ys)"
    using assms Cons by (simp add: wq_holds_def)
  have "q_first qp = Some x" using d by (simp add: dll_def)
  moreover have "(\<lambda>p. bx_wd_next (ws p))(y := bx_wd_next (ws y)) = (\<lambda>p. bx_wd_next (ws p))" by auto
  ultimately show ?thesis
    using dll_tl [OF d] assms Cons
    by (simp add: wq_holds_def bx_wd_dequeue_def wd_links)
qed

interpretation bq: fifo_queue bh_enqueue bh_dequeue bq_holds
proof (unfold_locales, goal_cases)
  case (1 s xs x)
  then show ?case by (cases s) (simp add: bh_enqueue_holds)
next
  case (2 s)
  then show ?case by (cases s) (simp add: bq_holds_def bh_dequeue_def)
next
  case (3 s x xs)
  then show ?case by (cases s) (simp add: bh_dequeue_front)
qed

interpretation wq: fifo_queue bx_wd_enqueue bx_wd_dequeue wq_holds
proof (unfold_locales, goal_cases)
  case (1 s xs x)
  then show ?case by (cases s) (simp add: bx_wd_enqueue_holds)
next
  case (2 s)
  then show ?case by (cases s) (simp add: wq_holds_def bx_wd_dequeue_def)
next
  case (3 s x xs)
  then show ?case by (cases s) (simp add: bx_wd_dequeue_front)
qed

lemma bufqueue_init_holds: "bq_holds (snd (bufqueue_init m c bq nm), hs) []"
  by (simp add: bufqueue_init_def bq_holds_def dll_empty)

lemma bx_wd_queue_init_holds: "wq_holds (snd (bx_wd_queue_init m c qp nm), ws) []"
  by (simp add: bx_wd_queue_init_def wq_holds_def dll_empty)

subsection \<open>Properties\<close>

text \<open>C28: A buffer queue is first-in first-out: after an initialisation, enqueueing different
  headers and dequeueing as many returns them in order, and the next dequeue waits.\<close>

theorem bh_queue_fifo:
  fixes bq :: bx_buffer_queue and nm :: string and hs :: "nat \<Rightarrow> bx_buffer_header"
  assumes "distinct xs"
  defines "s \<equiv> fold bh_enqueue xs (snd (bufqueue_init 0 0 bq nm), hs)"
  shows "fst (deq_many bh_dequeue (length xs) s) = map Got xs \<and>
         fst (bh_dequeue (snd (deq_many bh_dequeue (length xs) s))) = Waiting"
  unfolding s_def using bq.fifo_order [OF bufqueue_init_holds assms(1)] by blast

theorem bh_queue_fifo_witness:
  "fst (deq_many bh_dequeue (length [4, 2, 7])
     (fold bh_enqueue [4, 2, 7] (snd (bufqueue_init 0 0 undefined ''BQ''), \<lambda>_. undefined)))
   = map Got [4, 2, 7]"
  using bh_queue_fifo [of "[4, 2, 7]" undefined "''BQ''" "\<lambda>_. undefined"] by simp

text \<open>Both queue operations of the worker queue keep the two link directions, the anchor
  and the counter consistent: enqueueing a worker that is not queued appends it, and
  dequeueing returns the worker that was enqueued first.\<close>

lemma bx_wd_queue_step:
  assumes "wq_holds s (x # xs)" and "y \<notin> set (x # xs)"
  shows "wq_holds (bx_wd_enqueue y s) (x # xs @ [y]) \<and>
         fst (bx_wd_dequeue s) = Got x \<and> wq_holds (snd (bx_wd_dequeue s)) xs"
  using wq.enq_holds [OF assms] wq.deq_front [OF assms(1)] by simp

lemma bx_wd_queue_step_witness:
  "wq_holds (bx_wd_enqueue 5 (bx_wd_enqueue 3 (snd (bx_wd_queue_init 0 0 undefined ''WQ''), \<lambda>_. undefined)))
     (3 # [] @ [5])"
  using bx_wd_queue_step [OF wq.enq_holds [OF bx_wd_queue_init_holds, of 3, simplified], of 5] by simp

end
