(* ===== verification/Chunking.thy ===== *)
theory Chunking
  imports Xdd_Prelude
begin

text \<open>
  The contract of the loops that cut a transfer into chunks: the target pass loop of
  \<^verbatim>\<open>src/base/target_pass.c\<close>, its end-to-end source variant in
  \<^verbatim>\<open>src/base/target_pass_e2e_specific.c\<close> and the input loop of the buffer exchange program
  (\<^verbatim>\<open>src/bx/bx_target_thread.c\<close>).  Each issues one chunk at a time from a number of
  remaining bytes and a current offset.  The client lemmas say once for all three that the
  loop ends and that the chunks it issues tile the byte range; the interpretations are in
  the theories of the loops.
\<close>

type_synonym chunk = "int \<times> int"

text \<open>
  The loop itself: issue until nothing remains.  A loop that does not end has the value
  \<open>None\<close>.
\<close>

partial_function (option) issue_all :: "('s \<Rightarrow> (chunk \<times> 's) option) \<Rightarrow> 's \<Rightarrow> chunk list option" where
  "issue_all issue s =
     (case issue s of
        None \<Rightarrow> Some []
      | Some p \<Rightarrow> Option.bind (issue_all issue (snd p)) (\<lambda>cs. Some (fst p # cs)))"

text \<open>\<open>tiles b n cs\<close>: the chunks are consecutive, not empty, and cover \<open>b, \<dots>, b + n - 1\<close>.\<close>

fun tiles :: "int \<Rightarrow> int \<Rightarrow> chunk list \<Rightarrow> bool" where
  "tiles b n [] \<longleftrightarrow> n = 0"
| "tiles b n ((a, k) # cs) \<longleftrightarrow> a = b \<and> 0 < k \<and> k \<le> n \<and> tiles (b + k) (n - k) cs"

definition in_chunk :: "int \<Rightarrow> chunk \<Rightarrow> bool" where
  "in_chunk i = (\<lambda>(a, k). a \<le> i \<and> i < a + k)"

lemma tiles_within: "tiles b n cs \<Longrightarrow> (a, k) \<in> set cs \<Longrightarrow> b \<le> a \<and> 0 < k \<and> a + k \<le> b + n"
  by (induction b n cs rule: tiles.induct) fastforce+

lemma tiles_nonneg: "tiles b n cs \<Longrightarrow> 0 \<le> n"
  by (induction b n cs rule: tiles.induct) auto

lemma tiles_sum: "tiles b n cs \<Longrightarrow> sum_list (map snd cs) = n"
  by (induction b n cs rule: tiles.induct) auto

lemma tiles_covers:
  "tiles b n cs \<Longrightarrow> (\<exists>c\<in>set cs. in_chunk i c) \<longleftrightarrow> b \<le> i \<and> i < b + n"
proof (induction b n cs rule: tiles.induct)
  case (1 b n)
  then show ?case by simp
next
  case (2 b n a k cs)
  then have "0 \<le> n - k" using tiles_nonneg by auto
  with 2 show ?case by (auto simp: in_chunk_def)
qed

lemma tiles_once:
  "tiles b n cs \<Longrightarrow> b \<le> i \<Longrightarrow> i < b + n \<Longrightarrow> length (filter (in_chunk i) cs) = 1"
proof (induction b n cs rule: tiles.induct)
  case (1 b n)
  then show ?case by simp
next
  case (2 b n a k cs)
  show ?case
  proof (cases "i < b + k")
    case True
    then have "filter (in_chunk i) cs = []"
      using 2 tiles_within [of "b + k" "n - k" cs] by (fastforce simp: filter_empty_conv in_chunk_def)
    with True 2 show ?thesis by (simp add: in_chunk_def)
  next
    case False
    with 2 show ?thesis by (simp add: in_chunk_def)
  qed
qed

locale chunk_issuer =
  fixes issue :: "'s \<Rightarrow> (chunk \<times> 's) option"
    and remaining :: "'s \<Rightarrow> int"
    and offset :: "'s \<Rightarrow> int"
    and ok :: "'s \<Rightarrow> bool"
  assumes remaining_nonneg: "ok s \<Longrightarrow> 0 \<le> remaining s"
    and issue_done: "ok s \<Longrightarrow> remaining s = 0 \<Longrightarrow> issue s = None"
    and issue_next: "ok s \<Longrightarrow> 0 < remaining s \<Longrightarrow>
      \<exists>n s'. issue s = Some ((offset s, n), s') \<and> 0 < n \<and> n \<le> remaining s \<and>
             offset s' = offset s + n \<and> remaining s' = remaining s - n \<and> ok s'"
begin

lemma issue_all_tiles:
  "ok s \<Longrightarrow> \<exists>cs. issue_all issue s = Some cs \<and> tiles (offset s) (remaining s) cs"
proof (induction "nat (remaining s)" arbitrary: s rule: less_induct)
  case less
  show ?case
  proof (cases "remaining s = 0")
    case True
    with issue_done [OF less.prems True] show ?thesis by (simp add: issue_all.simps)
  next
    case False
    then have "0 < remaining s" using remaining_nonneg [OF less.prems] by simp
    from issue_next [OF less.prems this] obtain n s' where
      *: "issue s = Some ((offset s, n), s')" "0 < n" "n \<le> remaining s"
         "offset s' = offset s + n" "remaining s' = remaining s - n" "ok s'" by blast
    then have "nat (remaining s') < nat (remaining s)" by linarith
    from less.hyps [OF this] * obtain cs where
      "issue_all issue s' = Some cs" "tiles (offset s') (remaining s') cs" by blast
    with * show ?thesis by (simp add: issue_all.simps [of issue s])
  qed
qed

end

text \<open>
  Writes of tiled chunks of a file, applied in any order, rebuild the file.  A file is a
  map from byte positions to bytes.
\<close>

definition write_at :: "int \<times> u8 list \<Rightarrow> (int \<rightharpoonup> u8) \<Rightarrow> int \<rightharpoonup> u8" where
  "write_at = (\<lambda>(a, bs) f i. if a \<le> i \<and> i < a + int (length bs) then Some (bs ! nat (i - a)) else f i)"

definition file_map :: "u8 list \<Rightarrow> int \<rightharpoonup> u8" where
  "file_map F i = (if 0 \<le> i \<and> i < int (length F) then Some (F ! nat i) else None)"

definition slice :: "u8 list \<Rightarrow> chunk \<Rightarrow> int \<times> u8 list" where
  "slice F = (\<lambda>(a, k). (a, take (nat k) (drop (nat a) F)))"

lemma write_at_slice:
  assumes "0 \<le> a" "0 \<le> k" "a + k \<le> int (length F)"
  shows "write_at (slice F (a, k)) f i = (if in_chunk i (a, k) then file_map F i else f i)"
proof -
  have "nat k \<le> length F - nat a" using assms by linarith
  then have "int (length (take (nat k) (drop (nat a) F))) = k" using assms by simp
  moreover have "nat a + nat (i - a) = nat i" if "a \<le> i" using that assms by linarith
  ultimately show ?thesis
    using assms by (auto simp: write_at_def slice_def in_chunk_def file_map_def nth_take nat_less_iff)
qed

lemma fold_write_slices:
  assumes "\<And>a k. (a, k) \<in> set cs \<Longrightarrow> 0 \<le> a \<and> 0 \<le> k \<and> a + k \<le> int (length F)"
  shows "fold write_at (map (slice F) cs) f i =
           (if \<exists>c\<in>set cs. in_chunk i c then file_map F i else f i)"
  using assms
proof (induction cs arbitrary: f)
  case Nil
  then show ?case by simp
next
  case (Cons c cs)
  obtain a k where c: "c = (a, k)" by (cases c)
  have "write_at (slice F (a, k)) f i = (if in_chunk i (a, k) then file_map F i else f i)"
    using Cons.prems [of a k] c by (intro write_at_slice) auto
  moreover have "fold write_at (map (slice F) cs) g i =
      (if \<exists>c\<in>set cs. in_chunk i c then file_map F i else g i)" for g
    by (rule Cons.IH) (use Cons.prems in auto)
  ultimately show ?case using c by simp
qed

lemma tiles_rebuild:
  assumes "tiles 0 (int (length F)) cs" and "set ds = set cs"
  shows "fold write_at (map (slice F) ds) Map.empty = file_map F"
proof
  fix i
  have "0 \<le> a \<and> 0 \<le> k \<and> a + k \<le> int (length F)" if "(a, k) \<in> set ds" for a k
    using tiles_within [OF assms(1)] that assms(2) by fastforce
  from fold_write_slices [OF this, of ds Map.empty i]
  show "fold write_at (map (slice F) ds) Map.empty i = file_map F i"
    using tiles_covers [OF assms(1), of i] assms(2) by (simp add: file_map_def)
qed

end
