(* ===== verification/Bx_Target.thy ===== *)
theory Bx_Target
  imports Bx_Queue Chunking
begin

unbundle bit_operations_syntax

text \<open>
  The threads of the buffer exchange program: \<^verbatim>\<open>src/bx/bx_target_thread.c\<close> (one input and
  one output target thread) and \<^verbatim>\<open>src/bx/bx_worker_thread.c\<close> (their worker threads),
  with the buffer set-up \<open>qb_init\<close> of \<^verbatim>\<open>src/bx/bx_buffer_queue.c\<close>.

  All threads share one state \<open>bx_sys\<close>.  A thread is a program counter with its local
  variables and a step function that runs it to its next blocking point; a step that
  blocks (a dequeue on an empty queue, a wait for \<open>bx_wd_released\<close>) returns the thread
  where it was, and a null dereference is the program counter of a trap.  The system calls
  are the fields of \<open>bx_os\<close>.
\<close>

abbreviation (input) BX_TD_INPUT :: u32 where "BX_TD_INPUT \<equiv> 1"
abbreviation (input) BX_TD_TARGET_DEFINED :: u32 where "BX_TD_TARGET_DEFINED \<equiv> 0x80000000"
abbreviation (input) MAX_TARGETS :: nat where "MAX_TARGETS \<equiv> 128"

record bx_td =
  bx_td_my_target_number :: int
  bx_td_file_name :: string
  bx_td_fd :: int
  bx_td_number_of_worker_threads :: nat
  bx_td_file_size :: int
  bx_td_transfer_size :: int
  bx_td_bx_wd :: "nat \<Rightarrow> nat"
  bx_td_flags :: u32
  bx_td_buffer_queue :: bx_buffer_queue
  bx_td_next_buffer_queue :: nat
  bx_td_bx_wd_queue :: bx_wd_queue

text \<open>
  The global variables.  \<open>written\<close> records the effect of \<^verbatim>\<open>pwrite\<close>: descriptor, offset
  and bytes, in the order of the calls.
\<close>

record bx_sys =
  tds :: "nat \<Rightarrow> bx_td"
  hdrs :: "nat \<Rightarrow> bx_buffer_header"
  wds :: "nat \<Rightarrow> bx_wd"
  Number_Of_Buffers :: nat
  Buffer_Size :: int
  Sequence0 :: nat
  written :: "(int \<times> int \<times> u8 list) list"

record bx_os =
  os_open :: "string \<Rightarrow> int"
  os_creat :: "string \<Rightarrow> int"
  os_pthread_create :: "nat \<Rightarrow> int"
  os_mutex_init :: "nat \<Rightarrow> int"
  os_cond_init :: "nat \<Rightarrow> int"
  os_valloc :: "nat \<Rightarrow> u8 list option"
  os_pread :: "int \<Rightarrow> int \<Rightarrow> int \<Rightarrow> int \<times> u8 list"
  os_pwrite :: "int \<Rightarrow> u8 list \<Rightarrow> int \<Rightarrow> int"

definition upd_td :: "nat \<Rightarrow> (bx_td \<Rightarrow> bx_td) \<Rightarrow> bx_sys \<Rightarrow> bx_sys" where
  "upd_td t f s = s\<lparr>tds := (tds s)(t := f (tds s t))\<rparr>"

definition sys_wd :: "nat \<Rightarrow> (bx_wd \<Rightarrow> bx_wd) \<Rightarrow> bx_sys \<Rightarrow> bx_sys" where
  "sys_wd w f s = s\<lparr>wds := upd_wd w f (wds s)\<rparr>"

definition sys_hdr :: "nat \<Rightarrow> (bx_buffer_header \<Rightarrow> bx_buffer_header) \<Rightarrow> bx_sys \<Rightarrow> bx_sys" where
  "sys_hdr h f s = s\<lparr>hdrs := upd_hdr h f (hdrs s)\<rparr>"

text \<open>The queue operations on the queues of target \<open>t\<close>.\<close>

definition td_bh_enqueue :: "nat \<Rightarrow> nat \<Rightarrow> bx_sys \<Rightarrow> bx_sys" where
  "td_bh_enqueue h t s =
     (let (bq, hs) = bh_enqueue h (bx_td_buffer_queue (tds s t), hdrs s)
      in (upd_td t (\<lambda>td. td\<lparr>bx_td_buffer_queue := bq\<rparr>) s)\<lparr>hdrs := hs\<rparr>)"

definition td_bh_dequeue :: "nat \<Rightarrow> bx_sys \<Rightarrow> nat deq_outcome \<times> bx_sys" where
  "td_bh_dequeue t s =
     (let (r, bq, hs) = bh_dequeue (bx_td_buffer_queue (tds s t), hdrs s)
      in (r, (upd_td t (\<lambda>td. td\<lparr>bx_td_buffer_queue := bq\<rparr>) s)\<lparr>hdrs := hs\<rparr>))"

definition td_wd_enqueue :: "nat \<Rightarrow> nat \<Rightarrow> bx_sys \<Rightarrow> bx_sys" where
  "td_wd_enqueue w t s =
     (let (q, ws) = bx_wd_enqueue w (bx_td_bx_wd_queue (tds s t), wds s)
      in (upd_td t (\<lambda>td. td\<lparr>bx_td_bx_wd_queue := q\<rparr>) s)\<lparr>wds := ws\<rparr>)"

definition td_wd_dequeue :: "nat \<Rightarrow> bx_sys \<Rightarrow> nat deq_outcome \<times> bx_sys" where
  "td_wd_dequeue t s =
     (let (r, q, ws) = bx_wd_dequeue (bx_td_bx_wd_queue (tds s t), wds s)
      in (r, (upd_td t (\<lambda>td. td\<lparr>bx_td_bx_wd_queue := q\<rparr>) s)\<lparr>wds := ws\<rparr>))"

subsection \<open>Set-up\<close>

fun qb_init_queues :: "bx_os \<Rightarrow> nat list \<Rightarrow> bx_sys \<Rightarrow> int \<times> bx_sys" where
  "qb_init_queues os [] s = (0, s)"
| "qb_init_queues os (i # is) s =
     (if flag_on (bx_td_flags (tds s i)) BX_TD_TARGET_DEFINED
      then let (st, bq) = bufqueue_init (os_mutex_init os i) (os_cond_init os i)
                            (bx_td_buffer_queue (tds s i)) ''BQ'';
               s1 = upd_td i (\<lambda>td. td\<lparr>bx_td_buffer_queue := bq\<rparr>) s
           in if st \<noteq> 0 then (-1, s1) else qb_init_queues os is s1
      else qb_init_queues os is s)"

fun qb_init_buffers :: "bx_os \<Rightarrow> nat \<Rightarrow> nat list \<Rightarrow> bx_sys \<Rightarrow> int \<times> bx_sys" where
  "qb_init_buffers os t [] s = (0, s)"
| "qb_init_buffers os t (i # is) s =
     (let (st, h) = bufhdr_init (os_mutex_init os i) (os_valloc os i) (hdrs s i) (Buffer_Size s);
          s1 = sys_hdr i (\<lambda>_. h) s
      in if st < 0 then (-1, s1) else qb_init_buffers os t is (td_bh_enqueue i t s1))"

definition qb_init :: "bx_os \<Rightarrow> bx_sys \<Rightarrow> int \<times> bx_sys" where
  "qb_init os s =
     (let (st, s1) = qb_init_queues os [0..<MAX_TARGETS] s
      in if st \<noteq> 0 then (-1, s1)
         else qb_init_buffers os (Sequence0 s) [0..<Number_Of_Buffers s] s1)"

fun target_init_workers :: "bx_os \<Rightarrow> nat \<Rightarrow> nat list \<Rightarrow> bx_sys \<Rightarrow> int \<times> bx_sys" where
  "target_init_workers os p [] s = (0, s)"
| "target_init_workers os p (i # is) s =
     (let s1 = sys_wd (bx_td_bx_wd (tds s p) i)
                 (\<lambda>w. w\<lparr>bx_wd_my_worker_thread_number := int i, bx_wd_flags := 0,
                       bx_wd_fd := bx_td_fd (tds s p), bx_wd_my_queue := p,
                       bx_wd_my_bx_tdp := p\<rparr>) s
      in if os_pthread_create os i \<noteq> 0 then (-1, s1) else target_init_workers os p is s1)"

definition target_init :: "bx_os \<Rightarrow> nat \<Rightarrow> bx_sys \<Rightarrow> int \<times> bx_sys" where
  "target_init os p s =
     (let td = tds s p;
          fd = (if flag_on (bx_td_flags td) BX_TD_INPUT
                then os_open os (bx_td_file_name td) else os_creat os (bx_td_file_name td));
          s1 = upd_td p (\<lambda>td. td\<lparr>bx_td_fd := fd\<rparr>) s
      in if fd < 0 then (-1, s1)
         else target_init_workers os p [0..<bx_td_number_of_worker_threads td] s1)"

subsection \<open>The worker thread\<close>

text \<open>
  \<open>W_Top\<close>: the head of the outer loop.  \<open>W_Wait\<close>: in the loop around
  \<^verbatim>\<open>pthread_cond_wait\<close>.  \<open>W_Exit\<close>: the thread broke out of the loop.
\<close>

datatype worker_pc = W_Top | W_Wait | W_Exit | W_Trap

text \<open>
  \<^verbatim>\<open>pread\<close> stores the bytes it returns at the start of the buffer.
\<close>

definition worker_read :: "bx_os \<Rightarrow> int \<Rightarrow> bx_buffer_header \<Rightarrow> bx_buffer_header" where
  "worker_read os fd h =
     (let (status, bytes) = os_pread os fd (bh_transfer_size h) (bh_file_offset h) in
      if status < 0 then h\<lparr>bh_valid_size := 0\<rparr>
      else h\<lparr>bh_startp := bytes @ drop (length bytes) (bh_startp h), bh_valid_size := status\<rparr>)"

definition worker_write ::
  "bx_os \<Rightarrow> int \<Rightarrow> bx_buffer_header \<Rightarrow> bx_buffer_header \<times> (int \<times> int \<times> u8 list)" where
  "worker_write os fd h =
     (let bytes = take (nat (bh_transfer_size h)) (bh_startp h);
          status = os_pwrite os fd bytes (bh_file_offset h) in
      if status < 0 then (h\<lparr>bh_valid_size := 0\<rparr>, (fd, bh_file_offset h, []))
      else (h\<lparr>bh_valid_size := status\<rparr>, (fd, bh_file_offset h, take (nat status) bytes)))"

definition worker_io :: "bx_os \<Rightarrow> nat \<Rightarrow> nat \<Rightarrow> bx_sys \<Rightarrow> bx_sys" where
  "worker_io os w b s =
     (let wd = wds s w; h = hdrs s b in
      if flag_on (bx_td_flags (tds s (bx_wd_my_bx_tdp wd))) BX_TD_INPUT
      then td_bh_enqueue b (bx_wd_next_buffer_queue wd)
             (sys_hdr b (\<lambda>_. worker_read os (bx_wd_fd wd) h) s)
      else let (h', wr) = worker_write os (bx_wd_fd wd) h
           in td_bh_enqueue b (bx_wd_next_buffer_queue wd)
                ((sys_hdr b (\<lambda>_. h') s)\<lparr>written := written s @ [wr]\<rparr>))"

fun worker_step :: "bx_os \<Rightarrow> nat \<Rightarrow> worker_pc \<Rightarrow> bx_sys \<Rightarrow> worker_pc \<times> bx_sys" where
  "worker_step os w W_Top s =
     (let s1 = sys_wd w (\<lambda>wd. wd\<lparr>bx_wd_flags := set_flag (bx_wd_flags wd) BX_WD_WAITING\<rparr>) s;
          s2 = td_wd_enqueue w (bx_wd_my_queue (wds s1 w)) s1
      in (W_Wait, sys_wd w (\<lambda>wd. wd\<lparr>bx_wd_flags := set_flag (bx_wd_flags wd) BX_WD_WAITING\<rparr>) s2))"
| "worker_step os w W_Wait s =
     (if bx_wd_released (wds s w) \<noteq> 1 then (W_Wait, s)
      else let s1 = sys_wd w (\<lambda>wd. wd\<lparr>bx_wd_flags := clear_flag (bx_wd_flags wd) BX_WD_WAITING,
                                     bx_wd_released := 0\<rparr>) s
           in if flag_on (bx_wd_flags (wds s1 w)) BX_WD_TERMINATE then (W_Exit, s1)
              else case bx_wd_bufhdrp (wds s1 w) of
                     None \<Rightarrow> (W_Trap, s1)
                   | Some b \<Rightarrow> (W_Top, worker_io os w b s1))"
| "worker_step os w W_Exit s = (W_Exit, s)"
| "worker_step os w W_Trap s = (W_Trap, s)"

subsection \<open>The target threads\<close>

text \<open>
  One turn of the arithmetic of the input loop, on the target's transfer size,
  \<open>bytes_remaining\<close> and \<open>current_file_offset\<close>: the chunk it issues and the new values.
\<close>

definition input_issue :: "int \<times> int \<times> int \<Rightarrow> (chunk \<times> (int \<times> int \<times> int)) option" where
  "input_issue = (\<lambda>(xfer, rem, off).
     if 0 < rem
     then let transfer_size = (if rem < xfer then rem else xfer)
          in Some ((off, transfer_size), (xfer, rem - transfer_size, off + transfer_size))
     else None)"

text \<open>
  \<open>In_Loop\<close>: head of the copy loop; \<open>In_Buf w\<close>: holding worker \<open>w\<close>, waiting for a buffer;
  \<open>In_Term i\<close>: turn \<open>i\<close> of the termination loop; \<open>In_Drain i\<close>: turn \<open>i\<close> of the loop that
  collects the buffers; \<open>In_Eof\<close>: about to send the end of file.
\<close>

datatype input_pc = In_Loop | In_Buf nat | In_Term nat | In_Drain nat | In_Eof | In_Done | In_Trap

record input_thread =
  in_pc :: input_pc
  bytes_remaining :: int
  current_file_offset :: int
  in_wdp :: "nat ptr"
  in_bufhdrp :: "nat ptr"

definition target_input_enter :: "bx_td \<Rightarrow> input_thread" where
  "target_input_enter td = \<lparr>in_pc = In_Loop, bytes_remaining = bx_td_file_size td,
     current_file_offset = 0, in_wdp = None, in_bufhdrp = None\<rparr>"

text \<open>Handing buffer \<open>b\<close> to worker \<open>w\<close> and releasing the worker.\<close>

definition release_worker :: "nat \<Rightarrow> nat \<Rightarrow> nat \<Rightarrow> bx_sys \<Rightarrow> bx_sys" where
  "release_worker p w b s =
     sys_wd w (\<lambda>wd. wd\<lparr>bx_wd_bufhdrp := Some b, bx_wd_released := 1,
                      bx_wd_next_buffer_queue := bx_td_next_buffer_queue (tds s p)\<rparr>) s"

definition assign_chunk :: "nat \<Rightarrow> chunk \<Rightarrow> bx_sys \<Rightarrow> bx_sys" where
  "assign_chunk b = (\<lambda>(off, n). sys_hdr b (\<lambda>h. h\<lparr>bh_transfer_size := n, bh_file_offset := off\<rparr>))"

definition terminate_worker :: "nat \<Rightarrow> bx_sys \<Rightarrow> bx_sys" where
  "terminate_worker w =
     sys_wd w (\<lambda>wd. wd\<lparr>bx_wd_flags := set_flag (bx_wd_flags wd) BX_WD_TERMINATE\<rparr>)"

definition target_input_step ::
  "nat \<Rightarrow> input_thread \<times> bx_sys \<Rightarrow> input_thread \<times> bx_sys" where
  "target_input_step p = (\<lambda>(t, s).
     (case in_pc t of
        In_Loop \<Rightarrow>
          if 0 < bytes_remaining t
          then (case td_wd_dequeue p s of
                  (Got w, s1) \<Rightarrow> (t\<lparr>in_pc := In_Buf w, in_wdp := Some w\<rparr>, s1)
                | (Waiting, s1) \<Rightarrow> (t, s1)
                | (Trap, s1) \<Rightarrow> (t\<lparr>in_pc := In_Trap\<rparr>, s1))
          else (t\<lparr>in_pc := In_Term 0\<rparr>, s)
      | In_Buf w \<Rightarrow>
          (case td_bh_dequeue p s of
             (Got b, s1) \<Rightarrow>
               (case input_issue (bx_td_transfer_size (tds s1 p),
                       bytes_remaining t, current_file_offset t) of
                  Some (c, (_, rem, off)) \<Rightarrow>
                    (t\<lparr>in_pc := In_Loop, bytes_remaining := rem, current_file_offset := off,
                       in_bufhdrp := Some b\<rparr>,
                     release_worker p w b (assign_chunk b c s1))
                | None \<Rightarrow> (t\<lparr>in_pc := In_Trap\<rparr>, s1))
           | (Waiting, s1) \<Rightarrow> (t, s1)
           | (Trap, s1) \<Rightarrow> (t\<lparr>in_pc := In_Trap\<rparr>, s1))
      | In_Term i \<Rightarrow>
          if i < bx_td_number_of_worker_threads (tds s p)
          then (case td_wd_dequeue p s of
                  (Got w, s1) \<Rightarrow> (t\<lparr>in_pc := In_Term (Suc i), in_wdp := Some w\<rparr>,
                                 terminate_worker w s1)
                | (Waiting, s1) \<Rightarrow> (t, s1)
                | (Trap, s1) \<Rightarrow> (t\<lparr>in_pc := In_Trap\<rparr>, s1))
          else (t\<lparr>in_pc := In_Drain 0\<rparr>, s)
      | In_Drain i \<Rightarrow>
          if i < Number_Of_Buffers s
          then (case td_bh_dequeue p s of
                  (Got b, s1) \<Rightarrow> (t\<lparr>in_pc := In_Drain (Suc i), in_bufhdrp := Some b\<rparr>, s1)
                | (Waiting, s1) \<Rightarrow> (t, s1)
                | (Trap, s1) \<Rightarrow> (t\<lparr>in_pc := In_Trap\<rparr>, s1))
          else (t\<lparr>in_pc := In_Eof\<rparr>, s)
      | In_Eof \<Rightarrow>
          (case (in_bufhdrp t, in_wdp t) of
             (Some b, Some w) \<Rightarrow>
               let s1 = sys_hdr b (\<lambda>h. h\<lparr>bh_flags := set_flag (bh_flags h) BX_BUFHDR_END_OF_FILE\<rparr>) s
               in (case bx_wd_bufhdrp (wds s1 w) of
                     Some e \<Rightarrow> (t\<lparr>in_pc := In_Done\<rparr>,
                               td_bh_enqueue e (bx_wd_next_buffer_queue (wds s1 w)) s1)
                   | None \<Rightarrow> (t\<lparr>in_pc := In_Trap\<rparr>, s1))
           | _ \<Rightarrow> (t\<lparr>in_pc := In_Trap\<rparr>, s))
      | In_Done \<Rightarrow> (t, s)
      | In_Trap \<Rightarrow> (t, s)))"

datatype output_pc = Out_Loop | Out_Worker nat | Out_Term nat | Out_Done | Out_Trap

record output_thread =
  out_pc :: output_pc
  buffers_written :: nat

definition target_output_enter :: output_thread where
  "target_output_enter = \<lparr>out_pc = Out_Loop, buffers_written = 0\<rparr>"

definition target_output_step ::
  "nat \<Rightarrow> output_thread \<times> bx_sys \<Rightarrow> output_thread \<times> bx_sys" where
  "target_output_step p = (\<lambda>(t, s).
     (case out_pc t of
        Out_Loop \<Rightarrow>
          (case td_bh_dequeue p s of
             (Got b, s1) \<Rightarrow>
               if flag_on (bh_flags (hdrs s1 b)) BX_BUFHDR_END_OF_FILE
               then (t\<lparr>out_pc := Out_Term 0\<rparr>, s1)
               else (t\<lparr>out_pc := Out_Worker b\<rparr>, s1)
           | (Waiting, s1) \<Rightarrow> (t, s1)
           | (Trap, s1) \<Rightarrow> (t\<lparr>out_pc := Out_Trap\<rparr>, s1))
      | Out_Worker b \<Rightarrow>
          (case td_wd_dequeue p s of
             (Got w, s1) \<Rightarrow> (t\<lparr>out_pc := Out_Loop, buffers_written := Suc (buffers_written t)\<rparr>,
                            release_worker p w b s1)
           | (Waiting, s1) \<Rightarrow> (t, s1)
           | (Trap, s1) \<Rightarrow> (t\<lparr>out_pc := Out_Trap\<rparr>, s1))
      | Out_Term i \<Rightarrow>
          if i < bx_td_number_of_worker_threads (tds s p)
          then (case td_wd_dequeue p s of
                  (Got w, s1) \<Rightarrow> (t\<lparr>out_pc := Out_Term (Suc i)\<rparr>, terminate_worker w s1)
                | (Waiting, s1) \<Rightarrow> (t, s1)
                | (Trap, s1) \<Rightarrow> (t\<lparr>out_pc := Out_Trap\<rparr>, s1))
          else (t\<lparr>out_pc := Out_Done\<rparr>, s)
      | Out_Done \<Rightarrow> (t, s)
      | Out_Trap \<Rightarrow> (t, s)))"

text \<open>
  \<open>target_main\<close>: initialisation, then the input or the output loop.  The two barriers it
  passes are rendezvous of \<^verbatim>\<open>pthread_barrier_wait\<close>; a target that fails to initialise
  returns before the first one.
\<close>

datatype target_role = Runs_Input input_thread | Runs_Output output_thread | Returned

definition target_main :: "bx_os \<Rightarrow> nat \<Rightarrow> bx_sys \<Rightarrow> target_role \<times> bx_sys" where
  "target_main os p s =
     (let (status, s1) = target_init os p s in
      if status \<noteq> 0 then (Returned, s1)
      else if flag_on (bx_td_flags (tds s1 p)) BX_TD_INPUT
           then (Runs_Input (target_input_enter (tds s1 p)), s1)
           else (Runs_Output target_output_enter, s1))"

subsection \<open>The queues of a target in the shared state\<close>

abbreviation td_buffers :: "bx_sys \<Rightarrow> nat \<Rightarrow> nat list \<Rightarrow> bool" where
  "td_buffers s t xs \<equiv> bq_holds (bx_td_buffer_queue (tds s t), hdrs s) xs"

abbreviation td_workers :: "bx_sys \<Rightarrow> nat \<Rightarrow> nat list \<Rightarrow> bool" where
  "td_workers s t xs \<equiv> wq_holds (bx_td_bx_wd_queue (tds s t), wds s) xs"

lemmas sys_simps = upd_td_def sys_wd_def sys_hdr_def

lemma td_bh_enqueue_holds:
  "td_buffers s t xs \<Longrightarrow> b \<notin> set xs \<Longrightarrow> td_buffers (td_bh_enqueue b t s) t (xs @ [b])"
  using bq.enq_holds [of "(bx_td_buffer_queue (tds s t), hdrs s)" xs b]
  by (simp add: td_bh_enqueue_def sys_simps split_beta)

lemma td_bh_dequeue_front:
  assumes "td_buffers s t (b # xs)"
  shows "fst (td_bh_dequeue t s) = Got b"
  using bq.deq_front [OF assms] by (simp add: td_bh_dequeue_def split_beta)

lemma td_wd_dequeue_front:
  assumes "td_workers s t (w # xs)"
  shows "fst (td_wd_dequeue t s) = Got w"
    and "td_workers (snd (td_wd_dequeue t s)) t xs"
  using wq.deq_front [OF assms] by (simp_all add: td_wd_dequeue_def sys_simps split_beta)

lemma bq_holds_cong:
  assumes "\<And>p. p \<in> set xs \<Longrightarrow> bh_next (hs' p) = bh_next (hs p) \<and> bh_prev (hs' p) = bh_prev (hs p)"
  shows "bq_holds (bq, hs') xs = bq_holds (bq, hs) xs"
proof -
  have "chain (\<lambda>p. bh_next (hs' p)) p xs q = chain (\<lambda>p. bh_next (hs p)) p xs q" for p q
    using assms by (intro chain_cong) simp
  moreover have "chain (\<lambda>p. bh_prev (hs' p)) p (rev xs) q = chain (\<lambda>p. bh_prev (hs p)) p (rev xs) q" for p q
    using assms by (intro chain_cong) simp
  ultimately show ?thesis by (simp add: bq_holds_def dll_def)
qed

text \<open>A header field other than the links is the same after an enqueue, and the queue
  operations leave the fields of the worker structures other than the links alone.\<close>

lemma bh_enqueue_flags: "bh_flags (snd (bh_enqueue b (bq, hs)) p) = bh_flags (hs p)"
  by (simp add: bh_enqueue_def upd_hdr_def Let_def split: option.split)

lemma bh_dequeue_flags: "bh_flags (snd (snd (bh_dequeue (bq, hs))) p) = bh_flags (hs p)"
  by (simp add: bh_dequeue_def upd_hdr_def Let_def split: option.split)

lemma bx_wd_dequeue_released:
  "bx_wd_released (snd (snd (bx_wd_dequeue (q, ws))) p) = bx_wd_released (ws p)"
  by (simp add: bx_wd_dequeue_def upd_wd_def Let_def split: option.split)

lemma td_bh_enqueue_flags: "bh_flags (hdrs (td_bh_enqueue b t s) p) = bh_flags (hdrs s p)"
  using bh_enqueue_flags [of b "bx_td_buffer_queue (tds s t)" "hdrs s" p]
  by (simp add: td_bh_enqueue_def split_beta)

lemma td_bh_dequeue_flags: "bh_flags (hdrs (snd (td_bh_dequeue t s)) p) = bh_flags (hdrs s p)"
  using bh_dequeue_flags [of "bx_td_buffer_queue (tds s t)" "hdrs s" p]
  by (simp add: td_bh_dequeue_def split_beta)

lemma td_wd_dequeue_released:
  "bx_wd_released (wds (snd (td_wd_dequeue t s)) p) = bx_wd_released (wds s p)"
  using bx_wd_dequeue_released [of "bx_td_bx_wd_queue (tds s t)" "wds s" p]
  by (simp add: td_wd_dequeue_def split_beta)

subsection \<open>Set-up fills the queue of the first target\<close>

lemma qb_init_queues_ok:
  assumes "\<And>i. os_mutex_init os i = 0 \<and> os_cond_init os i = 0"
  shows "fst (qb_init_queues os is s) = 0 \<and> hdrs (snd (qb_init_queues os is s)) = hdrs s \<and>
         Buffer_Size (snd (qb_init_queues os is s)) = Buffer_Size s \<and>
         ((td_buffers s t [] \<or> t \<in> set is) \<and> flag_on (bx_td_flags (tds s t)) BX_TD_TARGET_DEFINED \<longrightarrow>
          td_buffers (snd (qb_init_queues os is s)) t [])"
proof (induction "is" arbitrary: s)
  case Nil
  then show ?case by simp
next
  case (Cons i "is")
  show ?case
  proof (cases "flag_on (bx_td_flags (tds s i)) BX_TD_TARGET_DEFINED")
    case True
    let ?s1 = "upd_td i (\<lambda>td. td\<lparr>bx_td_buffer_queue :=
      snd (bufqueue_init 0 0 (bx_td_buffer_queue (tds s i)) ''BQ'')\<rparr>) s"
    have "qb_init_queues os (i # is) s = qb_init_queues os is ?s1"
      using assms True by (simp add: split_beta bufqueue_init_def)
    moreover have "hdrs ?s1 = hdrs s" "Buffer_Size ?s1 = Buffer_Size s"
      "bx_td_flags (tds ?s1 t) = bx_td_flags (tds s t)"
      "td_buffers s t [] \<or> t = i \<Longrightarrow> td_buffers ?s1 t []"
      using bufqueue_init_holds [of 0 0 "bx_td_buffer_queue (tds s i)" "''BQ''" "hdrs s"]
      by (auto simp: upd_td_def)
    ultimately show ?thesis using Cons.IH [of ?s1] by auto
  next
    case False
    then show ?thesis using Cons.IH [of s] by auto
  qed
qed

lemma qb_init_buffers_ok:
  assumes "\<And>i. os_mutex_init os i = 0 \<and> os_valloc os i \<noteq> None"
  shows "td_buffers s t xs \<Longrightarrow> distinct (xs @ is) \<Longrightarrow>
         fst (qb_init_buffers os t is s) = 0 \<and> td_buffers (snd (qb_init_buffers os t is s)) t (xs @ is)"
proof (induction "is" arbitrary: s xs)
  case Nil
  then show ?case by simp
next
  case (Cons i "is")
  obtain bytes where m: "os_valloc os i = Some bytes" "os_mutex_init os i = 0"
    using assms by (metis option.exhaust)
  define h where "h = snd (bufhdr_init 0 (Some bytes) (hdrs s i) (Buffer_Size s))"
  let ?s1 = "sys_hdr i (\<lambda>_. h) s"
  have "qb_init_buffers os t (i # is) s = qb_init_buffers os t is (td_bh_enqueue i t ?s1)"
    using m by (simp add: bufhdr_init_def h_def Let_def)
  moreover have "td_buffers ?s1 t xs"
  proof -
    have "bq_holds (bx_td_buffer_queue (tds s t), hdrs ?s1) xs"
      using Cons.prems by (subst bq_holds_cong [of xs _ "hdrs s"]) (auto simp: sys_hdr_def upd_hdr_def)
    then show ?thesis by (simp add: sys_hdr_def)
  qed
  then have "td_buffers (td_bh_enqueue i t ?s1) t (xs @ [i])"
    using Cons.prems by (intro td_bh_enqueue_holds) auto
  then have "fst (qb_init_buffers os t is (td_bh_enqueue i t ?s1)) = 0 \<and>
     td_buffers (snd (qb_init_buffers os t is (td_bh_enqueue i t ?s1))) t ((xs @ [i]) @ is)"
    using Cons.prems by (intro Cons.IH) auto
  ultimately show ?case by simp
qed

subsection \<open>The input loop issues a tiling\<close>

interpretation input: chunk_issuer input_issue "\<lambda>(xfer, rem, off). rem" "\<lambda>(xfer, rem, off). off"
  "\<lambda>(xfer, rem, off). 0 < xfer \<and> 0 \<le> rem"
  by unfold_locales (auto simp: input_issue_def Let_def)

text \<open>What the write of a chunk leaves in the output file, after the read of the same
  chunk into the same buffer.\<close>

definition copied_chunk :: "bx_os \<Rightarrow> int \<Rightarrow> int \<Rightarrow> bx_buffer_header \<Rightarrow> chunk \<Rightarrow> int \<times> u8 list" where
  "copied_chunk os ifd ofd h = (\<lambda>(off, n).
     snd (snd (worker_write os ofd (worker_read os ifd (h\<lparr>bh_transfer_size := n, bh_file_offset := off\<rparr>)))))"

lemma copied_chunk_slice:
  assumes "\<And>a n. 0 \<le> a \<Longrightarrow> 0 \<le> n \<Longrightarrow> a + n \<le> int (length F) \<Longrightarrow>
             os_pread os ifd n a = (n, take (nat n) (drop (nat a) F))"
    and "\<And>bs a. os_pwrite os ofd bs a = int (length bs)"
    and "0 \<le> a" "0 \<le> n" "a + n \<le> int (length F)"
  shows "copied_chunk os ifd ofd h (a, n) = slice F (a, n)"
proof -
  have "length (take (nat n) (drop (nat a) F)) = nat n" using assms(3-5) by simp
  then show ?thesis
    using assms by (simp add: copied_chunk_def worker_read_def worker_write_def slice_def)
qed


text \<open>A concrete system for the witnesses: two targets, three buffers, operations that all
  succeed.\<close>

definition demo_file :: "u8 list" where
  "demo_file = [1, 2, 3, 4, 5]"

definition demo_os :: bx_os where
  "demo_os = \<lparr>os_open = (\<lambda>_. 3), os_creat = (\<lambda>_. 4), os_pthread_create = (\<lambda>_. 0),
     os_mutex_init = (\<lambda>_. 0), os_cond_init = (\<lambda>_. 0), os_valloc = (\<lambda>_. Some (replicate 8 0)),
     os_pread = (\<lambda>fd n a. (n, take (nat n) (drop (nat a) demo_file))),
     os_pwrite = (\<lambda>fd bs a. int (length bs))\<rparr>"

definition demo_hdr :: bx_buffer_header where
  "demo_hdr = \<lparr>bh_next = None, bh_prev = None, bh_startp = [], bh_size = 0, bh_valid_size = 0,
     bh_file_offset = 0, bh_transfer_size = 0, bh_sequence = 0, bh_target = 0, bh_time = 0,
     bh_flags = 0\<rparr>"

definition demo_wd :: bx_wd where
  "demo_wd = \<lparr>bx_wd_next = None, bx_wd_prev = None, bx_wd_released = 0,
     bx_wd_my_worker_thread_number = 0, bx_wd_my_bx_tdp = 0, bx_wd_fd = 3, bx_wd_flags = 8,
     bx_wd_bufhdrp = Some 1, bx_wd_next_buffer_queue = 1, bx_wd_my_queue = 0\<rparr>"

definition demo_td :: "nat \<Rightarrow> bx_td" where
  "demo_td i = \<lparr>bx_td_my_target_number = int i, bx_td_file_name = ''f'', bx_td_fd = 3,
     bx_td_number_of_worker_threads = 1, bx_td_file_size = 5, bx_td_transfer_size = 2,
     bx_td_bx_wd = (\<lambda>j. j), bx_td_flags = (if i = 0 then 0x80000001 else 0x80000002),
     bx_td_buffer_queue = \<lparr>bq_name = ''BQ'', bq_counter = 0, bq_flags = 0, bq_first = None, bq_last = None\<rparr>,
     bx_td_next_buffer_queue = 1 - i,
     bx_td_bx_wd_queue = \<lparr>q_name = ''WQ'', q_counter = 1, q_flags = 0, q_first = Some 0, q_last = Some 0\<rparr>\<rparr>"

definition demo_sys :: bx_sys where
  "demo_sys = \<lparr>tds = demo_td, hdrs = (\<lambda>_. demo_hdr), wds = (\<lambda>_. demo_wd), Number_Of_Buffers = 3,
     Buffer_Size = 8, Sequence0 = 0, written = []\<rparr>"

definition demo_input :: "input_pc \<Rightarrow> input_thread" where
  "demo_input pc = \<lparr>in_pc = pc, bytes_remaining = 0, current_file_offset = 5, in_wdp = Some 0,
     in_bufhdrp = Some 2\<rparr>"

lemmas demo_simps = demo_os_def demo_hdr_def demo_wd_def demo_td_def demo_sys_def demo_input_def

subsection \<open>Properties\<close>

text \<open>C12: The buffer exchange copies the file: the input loop ends, and whatever order the
  output workers write the chunks in (each chunk once or more, from any buffers), the output file
  has exactly the bytes of the input file.  The hypotheses on \<open>pread\<close> and \<open>pwrite\<close> say that
  they transfer what they are asked to.\<close>

theorem bx_copy_exact:
  assumes "0 < xfer"
    and "\<And>a n. 0 \<le> a \<Longrightarrow> 0 \<le> n \<Longrightarrow> a + n \<le> int (length F) \<Longrightarrow>
           os_pread os ifd n a = (n, take (nat n) (drop (nat a) F))"
    and "\<And>bs a. os_pwrite os ofd bs a = int (length bs)"
  shows "\<exists>cs. issue_all input_issue (xfer, int (length F), 0) = Some cs \<and>
           (\<forall>ds. set ds = set cs \<longrightarrow>
              fold write_at (map (\<lambda>c. copied_chunk os ifd ofd (h c) c) ds) Map.empty = file_map F)"
proof -
  obtain cs where cs: "issue_all input_issue (xfer, int (length F), 0) = Some cs"
    and t: "tiles 0 (int (length F)) cs"
    using input.issue_all_tiles [of "(xfer, int (length F), 0)"] assms(1) by auto
  have "fold write_at (map (\<lambda>c. copied_chunk os ifd ofd (h c) c) ds) Map.empty = file_map F"
    if ds: "set ds = set cs" for ds
  proof -
    have "copied_chunk os ifd ofd (h c) c = slice F c" if "c \<in> set ds" for c
      using tiles_within [OF t] that ds
      by (cases c) (force intro!: copied_chunk_slice [OF assms(2,3)])
    then have "map (\<lambda>c. copied_chunk os ifd ofd (h c) c) ds = map (slice F) ds" by simp
    then show ?thesis using tiles_rebuild [OF t ds] by (simp only:)
  qed
  with cs show ?thesis by blast
qed

theorem bx_copy_exact_witness:
  "\<exists>cs. issue_all input_issue (2, 5, 0) = Some cs \<and>
     fold write_at (map (\<lambda>c. copied_chunk demo_os 3 4 demo_hdr c) (rev cs)) Map.empty = file_map demo_file"
  using bx_copy_exact [of 2 demo_file demo_os 3 4 "\<lambda>_. demo_hdr"]
  by (auto simp: demo_os_def demo_file_def)

text \<open>After a successful \<open>qb_init\<close> the buffer queue of the first target of the sequence
  holds all the buffers, in order; the set-up succeeds when the pthread initialisations and
  the allocations do.\<close>

lemma qb_init_fills:
  assumes "\<And>i. os_mutex_init os i = 0" "\<And>i. os_cond_init os i = 0" "\<And>i. os_valloc os i \<noteq> None"
    and "Sequence0 s < MAX_TARGETS"
    and "flag_on (bx_td_flags (tds s (Sequence0 s))) BX_TD_TARGET_DEFINED"
  shows "fst (qb_init os s) = 0 \<and>
         td_buffers (snd (qb_init os s)) (Sequence0 s) [0..<Number_Of_Buffers s]"
proof -
  let ?q = "qb_init_queues os [0..<MAX_TARGETS] s"
  have q: "fst ?q = 0" "td_buffers (snd ?q) (Sequence0 s) []"
    using qb_init_queues_ok [of os "[0..<MAX_TARGETS]" s "Sequence0 s"] assms by auto
  show ?thesis
    using qb_init_buffers_ok [of os "snd ?q" "Sequence0 s" "[]" "[0..<Number_Of_Buffers s]"] assms q
    by (simp add: qb_init_def split_beta)
qed

lemma qb_init_fills_witness:
  "fst (qb_init demo_os demo_sys) = 0 \<and> td_buffers (snd (qb_init demo_os demo_sys)) 0 [0..<3]"
  using qb_init_fills [of demo_os demo_sys] by (simp add: demo_simps flag_on_def)

text \<open>The termination loop of a target does not terminate its workers: it marks the worker
  it takes from the queue, but the worker goes on waiting, because \<open>bx_wd_released\<close> is not
  set.\<close>

lemma terminated_worker_blocked:
  assumes "in_pc t = In_Term i" and "i < bx_td_number_of_worker_threads (tds s p)"
    and "td_workers s p (w # ws)" and "bx_wd_released (wds s w) = 0"
  shows "let (t', s') = target_input_step p (t, s) in
           in_pc t' = In_Term (Suc i) \<and> td_workers s' p ws \<and>
           flag_on (bx_wd_flags (wds s' w)) BX_WD_TERMINATE \<and>
           worker_step os w W_Wait s' = (W_Wait, s')"
proof -
  obtain s1 where d: "td_wd_dequeue p s = (Got w, s1)" and q: "td_workers s1 p ws"
    using td_wd_dequeue_front [OF assms(3)] by (metis prod.collapse snd_conv)
  have "bx_wd_released (wds s1 w) = 0"
    using d assms(4) td_wd_dequeue_released [of p s w] by simp
  moreover have "td_workers (terminate_worker w s1) p ws"
  proof -
    have "bx_wd_next (upd_wd w (\<lambda>wd. wd\<lparr>bx_wd_flags := set_flag (bx_wd_flags wd) BX_WD_TERMINATE\<rparr>) (wds s1) k)
            = bx_wd_next (wds s1 k)"
      and "bx_wd_prev (upd_wd w (\<lambda>wd. wd\<lparr>bx_wd_flags := set_flag (bx_wd_flags wd) BX_WD_TERMINATE\<rparr>) (wds s1) k)
            = bx_wd_prev (wds s1 k)" for k
      by (simp_all add: upd_wd_def)
    with q show ?thesis by (simp add: wq_holds_def terminate_worker_def sys_wd_def)
  qed
  ultimately show ?thesis
    using assms d
    by (simp add: target_input_step_def terminate_worker_def sys_wd_def upd_apply flag_simps
        flag_on_def [of BX_WD_TERMINATE])
qed

lemma terminated_worker_blocked_witness:
  "worker_step demo_os 0 W_Wait (snd (target_input_step 0 (demo_input (In_Term 0), demo_sys)))
     = (W_Wait, snd (target_input_step 0 (demo_input (In_Term 0), demo_sys)))"
proof -
  have "td_workers demo_sys 0 [0]" by (simp add: demo_simps wq_holds_def dll_def)
  from terminated_worker_blocked [OF _ _ this, of "demo_input (In_Term 0)" 0 demo_os]
  show ?thesis by (simp add: demo_input_def demo_sys_def demo_td_def demo_wd_def split_beta del: worker_step.simps)
qed

text \<open>The end of file does not reach the output target: the input target sets the flag in
  the buffer header it collected last and enqueues the header its last worker used; when these differ,
  the output target takes the header as one more buffer to write.\<close>

lemma eof_header_not_sent:
  assumes "in_pc t = In_Eof" and "in_bufhdrp t = Some b" and "in_wdp t = Some w"
    and "bx_wd_bufhdrp (wds s w) = Some e" and "e \<noteq> b"
    and "\<not> flag_on (bh_flags (hdrs s e)) BX_BUFHDR_END_OF_FILE"
    and "td_buffers s (bx_wd_next_buffer_queue (wds s w)) []"
  shows "let (t', s') = target_input_step p (t, s);
             out = bx_wd_next_buffer_queue (wds s w)
         in in_pc t' = In_Done \<and>
            out_pc (fst (target_output_step out (target_output_enter, s'))) = Out_Worker e"
proof -
  define out where "out = bx_wd_next_buffer_queue (wds s w)"
  define s1 where "s1 = sys_hdr b (\<lambda>h. h\<lparr>bh_flags := set_flag (bh_flags h) BX_BUFHDR_END_OF_FILE\<rparr>) s"
  define s' where "s' = td_bh_enqueue e out s1"
  have s1: "wds s1 = wds s" "tds s1 = tds s" "bh_flags (hdrs s1 e) = bh_flags (hdrs s e)"
    using assms(5) by (simp_all add: s1_def sys_hdr_def upd_apply)
  have step: "target_input_step p (t, s) = (t\<lparr>in_pc := In_Done\<rparr>, s')"
    unfolding target_input_step_def using assms(1-4) s1(1)
    by (simp add: s1_def [symmetric] s'_def out_def)
  have "td_buffers s1 out []" using assms(7) s1(2) by (simp add: bq_holds_def dll_empty out_def)
  then have q: "td_buffers s' out [e]"
    using td_bh_enqueue_holds [of s1 out "[]" e] by (simp add: s'_def)
  obtain s2 where d: "td_bh_dequeue out s' = (Got e, s2)"
    using td_bh_dequeue_front [OF q] by (metis prod.collapse)
  have "bh_flags (hdrs s2 e) = bh_flags (hdrs s e)"
    using td_bh_dequeue_flags [of out s' e] td_bh_enqueue_flags [of e out s1 e] s1(3)
    by (simp add: d s'_def [symmetric])
  then have nf: "\<not> flag_on (bh_flags (hdrs s2 e)) BX_BUFHDR_END_OF_FILE" using assms(6) by simp
  have "out_pc (fst (target_output_step out (target_output_enter, s'))) = Out_Worker e"
    unfolding target_output_step_def target_output_enter_def using nf by (simp add: d)
  then show ?thesis using step by (simp add: out_def)
qed

lemma eof_header_not_sent_witness:
  "out_pc (fst (target_output_step 1 (target_output_enter,
     snd (target_input_step 0 (demo_input In_Eof, demo_sys))))) = Out_Worker 1"
proof -
  have "td_buffers demo_sys 1 []" by (simp add: demo_simps bq_holds_def dll_def)
  moreover have "in_pc (demo_input In_Eof) = In_Eof" "in_bufhdrp (demo_input In_Eof) = Some 2"
    "in_wdp (demo_input In_Eof) = Some 0" "bx_wd_bufhdrp (wds demo_sys 0) = Some 1"
    "bx_wd_next_buffer_queue (wds demo_sys 0) = 1"
    "\<not> flag_on (bh_flags (hdrs demo_sys 1)) BX_BUFHDR_END_OF_FILE"
    by (simp_all add: demo_simps flag_on_def)
  ultimately show ?thesis
    using eof_header_not_sent [of "demo_input In_Eof" 2 0 demo_sys 1 0]
    by (simp add: split_beta Let_def)
qed
end
