(* ===== verification/Xdd_Types.thy ===== *)
theory Xdd_Types
  imports Complex_Main Xdd_Prelude
begin

unbundle bit_operations_syntax

text \<open>
  The data structures of a target and its worker threads: \<^verbatim>\<open>src/common/xint_td.h\<close>,
  \<^verbatim>\<open>xint_wd.h\<close>, \<^verbatim>\<open>xint_task.h\<close>, \<^verbatim>\<open>xint_target_counters.h\<close>, \<^verbatim>\<open>xint_timestamp.h\<close>,
  \<^verbatim>\<open>access_pattern.h\<close>, \<^verbatim>\<open>end_to_end.h\<close>, with the members that the modelled operations
  read or write.  Unsigned 64-bit members are words; signed members whose arithmetic cannot
  leave their range in the modelled code are \<open>int\<close>.  A pointer to an optional structure is
  an \<open>option\<close>.

  The record \<open>xdd\<close> is the state one target works on: its target data, the store of its worker
  data, the members of the plan and of the global data, and the trace of the effects the
  code has on other threads and on the outside (barriers entered, tasks released, messages
  sent, time slept), in order.
\<close>

subsection \<open>Constants\<close>

abbreviation (input) TASK_REQ_IO :: int where "TASK_REQ_IO \<equiv> 1"
abbreviation (input) TASK_REQ_REOPEN :: int where "TASK_REQ_REOPEN \<equiv> 2"
abbreviation (input) TASK_REQ_STOP :: int where "TASK_REQ_STOP \<equiv> 3"
abbreviation (input) TASK_REQ_EOF :: int where "TASK_REQ_EOF \<equiv> 4"
abbreviation (input) TASK_OP_TYPE_READ :: int where "TASK_OP_TYPE_READ \<equiv> 1"
abbreviation (input) TASK_OP_TYPE_WRITE :: int where "TASK_OP_TYPE_WRITE \<equiv> 2"
abbreviation (input) TASK_OP_TYPE_NOOP :: int where "TASK_OP_TYPE_NOOP \<equiv> 3"
abbreviation (input) TASK_OP_TYPE_EOF :: int where "TASK_OP_TYPE_EOF \<equiv> 4"

abbreviation (input) TO_READAFTERWRITE :: u64 where "TO_READAFTERWRITE \<equiv> 0x1"
abbreviation (input) TO_RAW_READER :: u64 where "TO_RAW_READER \<equiv> 0x2"
abbreviation (input) TO_RAW_WRITER :: u64 where "TO_RAW_WRITER \<equiv> 0x4"
abbreviation (input) TO_ENDTOEND :: u64 where "TO_ENDTOEND \<equiv> 0x8"
abbreviation (input) TO_E2E_SOURCE :: u64 where "TO_E2E_SOURCE \<equiv> 0x10"
abbreviation (input) TO_E2E_DESTINATION :: u64 where "TO_E2E_DESTINATION \<equiv> 0x20"
abbreviation (input) TO_SGIO :: u64 where "TO_SGIO \<equiv> 0x40"
abbreviation (input) TO_DIO :: u64 where "TO_DIO \<equiv> 0x80"
abbreviation (input) TO_WAITFORSTART :: u64 where "TO_WAITFORSTART \<equiv> 0x2000"
abbreviation (input) TO_NULL_TARGET :: u64 where "TO_NULL_TARGET \<equiv> 0x20000000000"
abbreviation (input) TO_E2E_SOURCE_MONITOR :: u64 where "TO_E2E_SOURCE_MONITOR \<equiv> 0x40000000000"
abbreviation (input) TO_ORDERING_STORAGE_SERIAL :: u64 where "TO_ORDERING_STORAGE_SERIAL \<equiv> 0x80000000000"
abbreviation (input) TO_ORDERING_STORAGE_LOOSE :: u64 where "TO_ORDERING_STORAGE_LOOSE \<equiv> 0x200000000000"

abbreviation (input) TS_ON :: u64 where "TS_ON \<equiv> 0x2"
abbreviation (input) TS_WRAP :: u64 where "TS_WRAP \<equiv> 0x40"
abbreviation (input) TS_ONESHOT :: u64 where "TS_ONESHOT \<equiv> 0x80"
abbreviation (input) TS_TRIGGERED :: u64 where "TS_TRIGGERED \<equiv> 0x1000"

abbreviation (input) WTSYNC_BUSY :: u32 where "WTSYNC_BUSY \<equiv> 0x2"
abbreviation (input) WTSYNC_TARGET_WAITING :: u32 where "WTSYNC_TARGET_WAITING \<equiv> 0x4"
abbreviation (input) WTSYNC_EOF_RECEIVED :: u32 where "WTSYNC_EOF_RECEIVED \<equiv> 0x8"

abbreviation (input) TARGET_CURRENT_STATE_WAITING_ANY :: u32 where "TARGET_CURRENT_STATE_WAITING_ANY \<equiv> 0x8"
abbreviation (input) TARGET_CURRENT_STATE_WAITING_THIS :: u32 where "TARGET_CURRENT_STATE_WAITING_THIS \<equiv> 0x10"
abbreviation (input) TARGET_CURRENT_STATE_PASS_COMPLETE :: u32 where "TARGET_CURRENT_STATE_PASS_COMPLETE \<equiv> 0x20"
abbreviation (input) WORKER_CURRENT_STATE_IO :: u32 where "WORKER_CURRENT_STATE_IO \<equiv> 0x2"
abbreviation (input) WORKER_CURRENT_STATE_DEST_RECEIVE :: u32 where "WORKER_CURRENT_STATE_DEST_RECEIVE \<equiv> 0x4"
abbreviation (input) WORKER_CURRENT_STATE_SRC_SEND :: u32 where "WORKER_CURRENT_STATE_SRC_SEND \<equiv> 0x8"

abbreviation (input) GO_STOP_ON_ERROR :: u64 where "GO_STOP_ON_ERROR \<equiv> 0x1000"
abbreviation (input) GO_EXTENDED_STATS :: u64 where "GO_EXTENDED_STATS \<equiv> 0x10000"
abbreviation (input) GO_INTERACTIVE :: u64 where "GO_INTERACTIVE \<equiv> 0x400000000"
abbreviation (input) PLAN_INTERACTIVE :: u64 where "PLAN_INTERACTIVE \<equiv> 0x400000000"
abbreviation (input) PLAN_ENABLE_XNI :: u64 where "PLAN_ENABLE_XNI \<equiv> 0x2000000000"

abbreviation (input) SO_SEEK_NONE :: u64 where "SO_SEEK_NONE \<equiv> 0x10"
abbreviation (input) XDD_E2E_DATA_READY :: u32 where "XDD_E2E_DATA_READY \<equiv> 0xDADADADA"
abbreviation (input) XDD_E2E_EOF :: u32 where "XDD_E2E_EOF \<equiv> 0xE0F0E0F0"
abbreviation (input) XDD_RC_GOOD :: int where "XDD_RC_GOOD \<equiv> 0"
abbreviation (input) XDD_RC_BAD :: int where "XDD_RC_BAD \<equiv> 1"
abbreviation (input) XDD_RETURN_VALUE_IOERROR :: int where "XDD_RETURN_VALUE_IOERROR \<equiv> 6"

subsection \<open>Structures\<close>

record xint_task =
  task_request :: int
  task_file_desc :: int
  task_op_type :: int
  task_op_string :: string
  task_op_number :: u64
  task_xfer_size :: u64
  task_byte_offset :: u64
  task_io_status :: int
  task_errno :: int

record xint_target_counters =
  tc_pass_number :: int
  tc_pass_start_time :: nclk
  tc_current_byte_offset :: u64
  tc_current_op_number :: u64
  tc_current_io_status :: int
  tc_current_io_errno :: int
  tc_current_bytes_xfered_this_op :: int
  tc_current_error_count :: u64
  tc_current_op_start_time :: nclk
  tc_current_op_end_time :: nclk
  tc_current_op_elapsed_time :: nclk
  tc_current_net_start_time :: nclk
  tc_current_net_end_time :: nclk
  tc_accumulated_op_count :: u64
  tc_accumulated_read_op_count :: u64
  tc_accumulated_write_op_count :: u64
  tc_accumulated_noop_op_count :: u64
  tc_accumulated_bytes_xfered :: u64
  tc_accumulated_bytes_read :: u64
  tc_accumulated_bytes_written :: u64
  tc_accumulated_bytes_noop :: u64
  tc_accumulated_op_time :: nclk
  tc_accumulated_read_op_time :: nclk
  tc_accumulated_write_op_time :: nclk
  tc_accumulated_noop_op_time :: nclk

text \<open>The operations of a seek entry (\<^verbatim>\<open>SO_OP_WRITE\<close>, \<^verbatim>\<open>SO_OP_READ\<close> and the others; \<open>SO_OP_UNSET\<close> is the 0 of a new entry).\<close>

datatype seek_op = SO_OP_UNSET | SO_OP_WRITE | SO_OP_READ | SO_OP_WRITE_VERIFY | SO_OP_NOOP | SO_OP_EOF

record seek_t =
  operation :: seek_op
  reqsize :: int
  block_location :: u64
  time1 :: nclk
  time2 :: nclk

record xdd_ts_tte =
  tte_op_type :: int
  tte_pass_number :: int
  tte_worker_thread_number :: int
  tte_thread_id :: int
  tte_disk_xfer_size :: int
  tte_net_xfer_size :: int
  tte_op_number :: int
  tte_byte_offset :: int
  tte_disk_start :: nclk
  tte_disk_end :: nclk
  tte_net_start :: nclk
  tte_net_end :: nclk
  tte_net_xfer_calls :: int

record xint_timestamp =
  ts_options :: u64
  ts_current_entry :: nat
  ts_size :: nat
  tsh_tte :: "xdd_ts_tte list"

record xdd_e2e_header =
  e2eh_magic :: u32
  e2eh_cookie :: "u8 list"
  e2eh_worker_thread_number :: int
  e2eh_sequence_number :: int
  e2eh_send_time :: nclk
  e2eh_recv_time :: nclk
  e2eh_byte_offset :: int
  e2eh_data_length :: int

text \<open>The pointers \<open>e2e_hdrp\<close> and \<open>e2e_datap\<close> are the contents they point to.\<close>

record xint_e2e =
  e2e_sd :: int
  e2e_csd :: "int list"
  e2e_active :: "int set"
  e2e_readset :: "int set"
  e2e_current_csd :: nat
  e2e_next_csd :: nat
  e2e_hdrp :: xdd_e2e_header
  e2e_datap :: "u8 list"
  e2e_header_size :: int
  e2e_data_size :: int
  e2e_xfer_size :: int
  e2e_recv_status :: int
  e2e_wait_1st_msg :: nclk
  e2e_msg_sequence_number :: int
  e2e_data_recvd :: int
  e2e_sr_time :: nclk

record xint_throttle =
  throttle :: rat
  throttle_variance :: rat
  throttle_type :: u32

record xint_extended_stats =
  my_longest_op_time :: nclk
  my_longest_read_op_time :: nclk
  my_longest_write_op_time :: nclk
  my_longest_noop_op_time :: nclk
  my_shortest_op_time :: nclk
  my_shortest_read_op_time :: nclk
  my_shortest_write_op_time :: nclk
  my_shortest_noop_op_time :: nclk
  my_longest_op_number :: int
  my_longest_read_op_number :: int
  my_longest_write_op_number :: int
  my_longest_noop_op_number :: int
  my_shortest_op_number :: int
  my_shortest_read_op_number :: int
  my_shortest_write_op_number :: int
  my_shortest_noop_op_number :: int

record xint_triggers =
  start_trigger_time :: nclk
  start_trigger_op :: u64
  start_trigger_bytes :: u64
  trigger_types :: u32
  start_trigger_target :: nat
  run_status :: bool

record raw_msg =
  rm_magic :: u32
  rm_length :: int
  rm_location :: int
  rm_sequence :: int

record xint_raw =
  raw_trigger :: u32
  raw_data_ready :: u64
  raw_data_length :: u64
  raw_prev_loc :: int
  raw_prev_len :: int
  raw_msg_last_sequence :: int
  raw_msg :: raw_msg

record xint_target_data =
  td_next_wdp :: "nat ptr"
  td_target_number :: int
  td_target_options :: u64
  td_file_desc :: int
  td_xfer_size :: int
  td_seek_options :: u64
  td_seeks :: "seek_t list"
  td_ts_table :: xint_timestamp
  td_current_bytes_issued :: u64
  td_current_bytes_completed :: u64
  td_current_bytes_remaining :: u64
  td_abort :: bool
  td_time_limit_expired :: bool
  td_current_state :: u32
  td_any_worker_thread_available :: int
  td_block_size :: int
  td_queue_depth :: nat
  td_time_limit_ticks :: nclk
  td_report_threshold :: nclk
  td_counters :: xint_target_counters
  td_throtp :: "xint_throttle option"
  td_e2ep :: "xint_e2e option"
  td_esp :: "xint_extended_stats option"
  td_trigp :: "xint_triggers option"
  td_rawp :: "xint_raw option"
  td_lockstep :: bool
  td_magic_cookie :: "u8 list"

record xint_worker_data =
  wd_next_wdp :: "nat ptr"
  wd_worker_number :: int
  wd_thread_id :: int
  wd_ts_entry :: nat
  wd_task :: xint_task
  wd_counters :: xint_target_counters
  wd_worker_thread_target_sync :: u32
  wd_e2ep :: "xint_e2e option"
  wd_current_state :: u32

text \<open>Effects on other threads and on the outside.\<close>

datatype event =
    Enter_Syncio_Barrier | Enter_Interactive_Barrier
  | Enter_Startpass_Barrier | Enter_Endpass_Barrier | Enter_Display_Barrier
  | Enter_Starttrigger_Barrier nat | Wait_For_Start_Trigger
  | Release_Task nat xint_task
  | Wait_Previous_Io nat | Release_Next_Io nat
  | Reopen_Buffered | Reopen_Shallow nat
  | Slept_Usec int
  | Closed_Fd int
  | Sent_Bytes nat "u8 list" | Sent_Xni nat xdd_e2e_header
  | Sent_Raw_Msg raw_msg
  | Threshold_Report nat
  | Ran_Lockstep

record xdd =
  td :: xint_target_data
  wd :: "nat \<Rightarrow> xint_worker_data"
  other_trigp :: "nat \<Rightarrow> xint_triggers"
  syncio :: int
  number_of_targets :: int
  target_offset :: u64
  plan_options :: u64
  run_time_ticks :: nclk
  run_start_time :: nclk
  target_errno :: int
  global_options :: u64
  max_errors :: u64
  run_time_expired :: bool
  run_complete :: bool
  xgp_abort :: bool
  canceled :: bool
  errno :: int
  trace :: "event list"

subsection \<open>Access to the parts\<close>

definition emit :: "event \<Rightarrow> xdd \<Rightarrow> xdd" where
  "emit e s = s\<lparr>trace := trace s @ [e]\<rparr>"

definition on_td :: "(xint_target_data \<Rightarrow> xint_target_data) \<Rightarrow> xdd \<Rightarrow> xdd" where
  "on_td f s = s\<lparr>td := f (td s)\<rparr>"

definition on_tc :: "(xint_target_counters \<Rightarrow> xint_target_counters) \<Rightarrow> xdd \<Rightarrow> xdd" where
  "on_tc f = on_td (\<lambda>t. t\<lparr>td_counters := f (td_counters t)\<rparr>)"

definition on_wd :: "nat \<Rightarrow> (xint_worker_data \<Rightarrow> xint_worker_data) \<Rightarrow> xdd \<Rightarrow> xdd" where
  "on_wd w f s = s\<lparr>wd := (wd s)(w := f (wd s w))\<rparr>"

definition on_task :: "nat \<Rightarrow> (xint_task \<Rightarrow> xint_task) \<Rightarrow> xdd \<Rightarrow> xdd" where
  "on_task w f = on_wd w (\<lambda>d. d\<lparr>wd_task := f (wd_task d)\<rparr>)"

definition on_sync :: "nat \<Rightarrow> (u32 \<Rightarrow> u32) \<Rightarrow> xdd \<Rightarrow> xdd" where
  "on_sync w f = on_wd w (\<lambda>d. d\<lparr>wd_worker_thread_target_sync := f (wd_worker_thread_target_sync d)\<rparr>)"

abbreviation busy :: "xdd \<Rightarrow> nat \<Rightarrow> bool" where
  "busy s w \<equiv> flag_on (wd_worker_thread_target_sync (wd s w)) WTSYNC_BUSY"

abbreviation opt :: "xdd \<Rightarrow> u64 \<Rightarrow> bool" where
  "opt s m \<equiv> flag_on (td_target_options (td s)) m"

lemmas state_simps = emit_def on_td_def on_tc_def on_wd_def on_task_def on_sync_def

text \<open>A signed 64-bit or 32-bit reading of a machine word.\<close>

definition as_int32 :: "u64 \<Rightarrow> int" where
  "as_int32 w = sint (ucast w :: 32 word)"

text \<open>
  The worker list of a target: following \<open>wd_next_wdp\<close> from \<open>td_next_wdp\<close> visits the
  workers \<open>ws\<close>, one for each unit of queue depth.
\<close>

definition workers :: "xdd \<Rightarrow> nat list \<Rightarrow> bool" where
  "workers s ws \<longleftrightarrow> chain (\<lambda>w. wd_next_wdp (wd s w)) (td_next_wdp (td s)) ws None \<and>
     length ws = td_queue_depth (td s)"

lemma workers_distinct: "workers s ws \<Longrightarrow> distinct ws"
  by (auto simp: workers_def chain_to_null_distinct)

text \<open>An entry of the time stamp table; outside the table the access is \<open>None\<close>.\<close>

abbreviation ts_active :: "xdd \<Rightarrow> bool" where
  "ts_active s \<equiv> flag_on (ts_options (td_ts_table (td s))) (TS_ON OR TS_TRIGGERED)"

definition on_tte :: "nat \<Rightarrow> (xdd_ts_tte \<Rightarrow> xdd_ts_tte) \<Rightarrow> xdd \<Rightarrow> xdd option" where
  "on_tte i f s =
     (let tt = tsh_tte (td_ts_table (td s)) in
      if i < length tt
      then Some (on_td (\<lambda>t. t\<lparr>td_ts_table := (td_ts_table t)\<lparr>tsh_tte := tt[i := f (tt ! i)]\<rparr>\<rparr>) s)
      else None)"

text \<open>The stamp of worker \<open>w\<close>, when stamping is on.\<close>

definition stamp :: "nat \<Rightarrow> (xdd_ts_tte \<Rightarrow> xdd_ts_tte) \<Rightarrow> xdd \<Rightarrow> xdd option" where
  "stamp w f s = (if ts_active s then on_tte (wd_ts_entry (wd s w)) f s else Some s)"

subsection \<open>A sample state\<close>

text \<open>
  \<open>sample n avail opts\<close>: a target with \<open>n\<close> idle workers, the given count of available workers
  and the given target options, 10 bytes to transfer in requests of 4, and a seek list of
  four writes.
\<close>

definition zero_counters :: xint_target_counters where
  "zero_counters = \<lparr>tc_pass_number = 1, tc_pass_start_time = 0, tc_current_byte_offset = 0,
     tc_current_op_number = 0, tc_current_io_status = 0, tc_current_io_errno = 0,
     tc_current_bytes_xfered_this_op = 0, tc_current_error_count = 0, tc_current_op_start_time = 0,
     tc_current_op_end_time = 0, tc_current_op_elapsed_time = 0,
     tc_current_net_start_time = 0, tc_current_net_end_time = 0, tc_accumulated_op_count = 0,
     tc_accumulated_read_op_count = 0, tc_accumulated_write_op_count = 0,
     tc_accumulated_noop_op_count = 0, tc_accumulated_bytes_xfered = 0,
     tc_accumulated_bytes_read = 0, tc_accumulated_bytes_written = 0, tc_accumulated_bytes_noop = 0,
     tc_accumulated_op_time = 0, tc_accumulated_read_op_time = 0, tc_accumulated_write_op_time = 0,
     tc_accumulated_noop_op_time = 0\<rparr>"

definition zero_task :: xint_task where
  "zero_task = \<lparr>task_request = 0, task_file_desc = 0, task_op_type = 0, task_op_string = [],
     task_op_number = 0, task_xfer_size = 0, task_byte_offset = 0, task_io_status = 0, task_errno = 0\<rparr>"

definition zero_tte :: xdd_ts_tte where
  "zero_tte = \<lparr>tte_op_type = 0, tte_pass_number = 0, tte_worker_thread_number = 0, tte_thread_id = 0,
     tte_disk_xfer_size = 0, tte_net_xfer_size = 0, tte_op_number = 0, tte_byte_offset = 0,
     tte_disk_start = 0, tte_disk_end = 0, tte_net_start = 0, tte_net_end = 0, tte_net_xfer_calls = 0\<rparr>"

definition sample_td :: "nat \<Rightarrow> int \<Rightarrow> u64 \<Rightarrow> xint_target_data" where
  "sample_td n avail opts = \<lparr>td_next_wdp = (if n = 0 then None else Some 0), td_target_number = 0,
     td_target_options = opts, td_file_desc = 7, td_xfer_size = 4, td_seek_options = 0,
     td_seeks = map (\<lambda>i. \<lparr>operation = SO_OP_WRITE, reqsize = 4, block_location = of_nat (4 * i),
                         time1 = 0, time2 = 0\<rparr>) [0..<4],
     td_ts_table = \<lparr>ts_options = 0, ts_current_entry = 0, ts_size = 0, tsh_tte = []\<rparr>,
     td_current_bytes_issued = 0, td_current_bytes_completed = 0, td_current_bytes_remaining = 10,
     td_abort = False, td_time_limit_expired = False, td_current_state = 0,
     td_any_worker_thread_available = avail, td_block_size = 1, td_queue_depth = n,
     td_time_limit_ticks = 0, td_report_threshold = 0, td_counters = zero_counters,
     td_throtp = None, td_e2ep = None, td_esp = None, td_trigp = None, td_rawp = None,
     td_lockstep = False, td_magic_cookie = replicate 16 7\<rparr>"

definition sample_wd :: "nat \<Rightarrow> nat \<Rightarrow> xint_worker_data" where
  "sample_wd n w = \<lparr>wd_next_wdp = (if Suc w < n then Some (Suc w) else None),
     wd_worker_number = int w, wd_thread_id = 0, wd_ts_entry = 0, wd_task = zero_task,
     wd_counters = zero_counters, wd_worker_thread_target_sync = 0, wd_e2ep = None,
     wd_current_state = 0\<rparr>"

definition sample :: "nat \<Rightarrow> int \<Rightarrow> u64 \<Rightarrow> xdd" where
  "sample n avail opts = \<lparr>td = sample_td n avail opts, wd = sample_wd n,
     other_trigp = (\<lambda>_. \<lparr>start_trigger_time = 0, start_trigger_op = 0, start_trigger_bytes = 0,
                        trigger_types = 0, start_trigger_target = 0, run_status = False\<rparr>),
     syncio = 0, number_of_targets = 1, target_offset = 0, plan_options = 0, run_time_ticks = 0,
     run_start_time = 0, target_errno = 0, global_options = 0, max_errors = 0,
     run_time_expired = False, run_complete = False, xgp_abort = False, canceled = False,
     errno = 0, trace = []\<rparr>"

end
