(* ===== verification/E2e.thy ===== *)
theory E2e
  imports Xdd_Types
begin

unbundle bit_operations_syntax

text \<open>
  The network side of an end-to-end operation: \<^verbatim>\<open>src/net/end_to_end.c\<close> (header, send and
  receive loops over TCP, connection set-up on the destination, end-of-file packet) and the two
  transfer routines over XNI of \<^verbatim>\<open>src/xnet/xnet_end_to_end.c\<close>.

  The system calls are parameters, collected in \<open>net_env\<close>: how many bytes each call of
  \<^verbatim>\<open>sendto\<close> or \<^verbatim>\<open>recvfrom\<close> is ready to take or give (at most what is asked for, a number
  \<open>\<le> 0\<close> being an error or a closed connection), the bytes that arrive on each socket, the
  result of \<^verbatim>\<open>select\<close> and \<^verbatim>\<open>accept\<close>, and the clock.  \<open>None\<close> is a call that blocks for
  ever, a failed assertion or an access outside an array.  The processor numbers recorded in
  time stamps are not modelled.
\<close>

record net_env =
  net_wait_start :: nclk
  net_start :: nclk
  net_end :: nclk
  net_select :: int
  net_ready :: "int set"
  net_accept :: int
  net_in :: "int \<Rightarrow> u8 list"
  net_recv_cuts :: "int list"
  net_send_cuts :: "int list"
  xni_recv :: "int \<times> xdd_e2e_header \<times> u8 list"
  xni_fresh :: "xdd_e2e_header \<times> u8 list"
  net_pagesize :: int

abbreviation (input) FD_SETSIZE :: nat where "FD_SETSIZE \<equiv> 256"
abbreviation (input) SIZEOF_HEADER :: int where "SIZEOF_HEADER \<equiv> 64"
abbreviation (input) NCLK_MAX :: nclk where "NCLK_MAX \<equiv> 0xFFFFFFFFFFFFFFFF"
abbreviation (input) XNI_OK :: int where "XNI_OK \<equiv> 0"
abbreviation (input) XNI_EOF :: int where "XNI_EOF \<equiv> -1"

definition MAXMIT_TCP :: nat where
  "MAXMIT_TCP = 2 ^ 28"

lemma MAXMIT_TCP_pos [simp]: "0 < MAXMIT_TCP"
  by (simp add: MAXMIT_TCP_def)

text \<open>Conversion to a 32-bit signed integer.\<close>

definition int32 :: "int \<Rightarrow> int" where
  "int32 v = signed_take_bit 31 v"

lemma int32_id: "- (2 ^ 31) \<le> v \<Longrightarrow> v < 2 ^ 31 \<Longrightarrow> int32 v = v"
  unfolding int32_def by (rule signed_take_bit_int_eq_self) simp_all

subsection \<open>The header in memory\<close>

text \<open>The members of the header need no padding.\<close>

definition encode_header :: "xdd_e2e_header \<Rightarrow> u8 list" where
  "encode_header h = le_bytes 4 (uint (e2eh_magic h)) @ e2eh_cookie h @
     le_bytes 4 (e2eh_worker_thread_number h) @ le_bytes 8 (e2eh_sequence_number h) @
     le_bytes 8 (uint (e2eh_send_time h)) @ le_bytes 8 (uint (e2eh_recv_time h)) @
     le_bytes 8 (e2eh_byte_offset h) @ le_bytes 8 (e2eh_data_length h)"

definition field :: "nat \<Rightarrow> nat \<Rightarrow> u8 list \<Rightarrow> u8 list" where
  "field a n bs = take n (drop a bs)"

definition decode_header :: "u8 list \<Rightarrow> xdd_e2e_header" where
  "decode_header bs = \<lparr>e2eh_magic = word_of_int (le_value (field 0 4 bs)), e2eh_cookie = field 4 16 bs,
     e2eh_worker_thread_number = signed_take_bit 31 (le_value (field 20 4 bs)),
     e2eh_sequence_number = signed_take_bit 63 (le_value (field 24 8 bs)),
     e2eh_send_time = word_of_int (le_value (field 32 8 bs)),
     e2eh_recv_time = word_of_int (le_value (field 40 8 bs)),
     e2eh_byte_offset = signed_take_bit 63 (le_value (field 48 8 bs)),
     e2eh_data_length = signed_take_bit 63 (le_value (field 56 8 bs))\<rparr>"

definition header_ok :: "xdd_e2e_header \<Rightarrow> bool" where
  "header_ok h \<longleftrightarrow> length (e2eh_cookie h) = 16 \<and>
     - (2 ^ 31) \<le> e2eh_worker_thread_number h \<and> e2eh_worker_thread_number h < 2 ^ 31 \<and>
     - (2 ^ 63) \<le> e2eh_sequence_number h \<and> e2eh_sequence_number h < 2 ^ 63 \<and>
     - (2 ^ 63) \<le> e2eh_byte_offset h \<and> e2eh_byte_offset h < 2 ^ 63 \<and>
     - (2 ^ 63) \<le> e2eh_data_length h \<and> e2eh_data_length h < 2 ^ 63"

subsection \<open>Sending\<close>

text \<open>
  The send loop over the memory that starts with the header and goes on with the data:
  \<open>off\<close> is the pointer into it, and \<open>nxt\<close> how the code moves the pointer from the number of
  bytes of the last call and of all calls so far.
\<close>

datatype send_result = Sent nat nat "u8 list" | Send_Failed int "u8 list"

primrec send_loop :: "(nat \<Rightarrow> nat \<Rightarrow> nat \<Rightarrow> nat) \<Rightarrow> u8 list \<Rightarrow> int \<Rightarrow> int list \<Rightarrow> nat \<Rightarrow> nat \<Rightarrow> u8 list \<Rightarrow> nat
    \<Rightarrow> send_result option" where
  "send_loop nxt mem need [] off sent wire calls =
     (if need \<le> int sent then Some (Sent sent calls wire) else None)"
| "send_loop nxt mem need (c # cuts) off sent wire calls =
     (if need \<le> int sent then Some (Sent sent calls wire)
      else if c \<le> 0 then Some (Send_Failed c wire)
      else let k = min (nat c) (min (nat (need - int sent)) MAXMIT_TCP)
           in if length mem < off + k then None
              else send_loop nxt mem need cuts (nxt off k (sent + k)) (sent + k)
                     (wire @ take k (drop off mem)) (Suc calls))"

text \<open>\<^verbatim>\<open>xdd_e2e_src_send\<close> advances by the bytes of the call; \<^verbatim>\<open>xdd_e2e_eof_source_side\<close> by all bytes so far.\<close>

definition next_by_call :: "nat \<Rightarrow> nat \<Rightarrow> nat \<Rightarrow> nat" where
  "next_by_call off k sent = off + k"

definition next_by_total :: "nat \<Rightarrow> nat \<Rightarrow> nat \<Rightarrow> nat" where
  "next_by_total off k sent = off + sent"

definition e2e_send_header :: "xint_target_data \<Rightarrow> xint_worker_data \<Rightarrow> xdd_e2e_header \<Rightarrow> xdd_e2e_header" where
  "e2e_send_header t d h = h\<lparr>e2eh_cookie := td_magic_cookie t,
     e2eh_worker_thread_number := wd_worker_number d,
     e2eh_sequence_number := sint (task_op_number (wd_task d)),
     e2eh_byte_offset := sint (task_byte_offset (wd_task d)),
     e2eh_data_length := sint (task_xfer_size (wd_task d))\<rparr>"

text \<open>What both senders write to the worker before and after the loop.\<close>

definition send_enter :: "net_env \<Rightarrow> nat \<Rightarrow> xint_e2e \<Rightarrow> xdd \<Rightarrow> xdd" where
  "send_enter n w p = on_wd w (\<lambda>d. d\<lparr>wd_e2ep := Some p,
     wd_counters := (wd_counters d)\<lparr>tc_current_net_start_time := net_start n\<rparr>\<rparr>)"

definition send_leave :: "net_env \<Rightarrow> nat \<Rightarrow> xint_e2e \<Rightarrow> xdd \<Rightarrow> xdd" where
  "send_leave n w p = on_wd w (\<lambda>d. d\<lparr>wd_e2ep := Some (p\<lparr>e2e_sr_time := net_end n - net_start n\<rparr>),
     wd_counters := (wd_counters d)\<lparr>tc_current_net_end_time := net_end n\<rparr>\<rparr>)"

definition xdd_e2e_src_send :: "net_env \<Rightarrow> nat \<Rightarrow> xdd \<Rightarrow> (int \<times> xdd) option" where
  "xdd_e2e_src_send n w s =
     (case wd_e2ep (wd s w) of
        None \<Rightarrow> None
      | Some p \<Rightarrow>
          let h = e2e_send_header (td s) (wd s w) (e2e_hdrp p);
              total = int32 (SIZEOF_HEADER + e2eh_data_length h);
              p1 = p\<lparr>e2e_hdrp := h, e2e_xfer_size := total\<rparr>;
              s1 = send_enter n w p1 s
          in case send_loop next_by_call (encode_header h @ e2e_datap p) total (net_send_cuts n) 0 0 [] 0 of
               None \<Rightarrow> None
             | Some (Send_Failed c wire) \<Rightarrow> Some (-1, emit (Sent_Bytes w wire) s1)
             | Some (Sent bytes calls wire) \<Rightarrow>
                 map_option (\<lambda>s2. (if int bytes \<noteq> total then -1 else 0, send_leave n w p1 s2))
                   (stamp w (\<lambda>e. e\<lparr>tte_net_xfer_size := total, tte_net_start := net_start n,
                      tte_net_end := net_end n, tte_net_xfer_calls := int calls\<rparr>)
                     (emit (Sent_Bytes w wire) s1)))"

definition eof_header :: "xint_target_data \<Rightarrow> xint_worker_data \<Rightarrow> xdd_e2e_header \<Rightarrow> xdd_e2e_header" where
  "eof_header t d h = h\<lparr>e2eh_worker_thread_number := wd_worker_number d,
     e2eh_sequence_number := sint (task_op_number (wd_task d) + word_of_int (wd_worker_number d)),
     e2eh_byte_offset := -1, e2eh_data_length := 0, e2eh_magic := XDD_E2E_EOF,
     e2eh_cookie := td_magic_cookie t\<rparr>"

definition xdd_e2e_eof_source_side :: "net_env \<Rightarrow> nat \<Rightarrow> xdd \<Rightarrow> (int \<times> xdd) option" where
  "xdd_e2e_eof_source_side n w s =
     (case wd_e2ep (wd s w) of
        None \<Rightarrow> None
      | Some p \<Rightarrow>
          let p1 = p\<lparr>e2e_header_size := SIZEOF_HEADER, e2e_xfer_size := SIZEOF_HEADER\<rparr> in
          if flag_on (plan_options s) PLAN_ENABLE_XNI
          then Some (0, on_wd w (\<lambda>d. d\<lparr>wd_e2ep := Some (p1\<lparr>e2e_sr_time := 0\<rparr>)\<rparr>) s)
          else let h = eof_header (td s) (wd s w) (e2e_hdrp p); p2 = p1\<lparr>e2e_hdrp := h\<rparr>;
                   s1 = send_enter n w p2 s
               in case send_loop next_by_total (encode_header h @ e2e_datap p) SIZEOF_HEADER (net_send_cuts n) 0 0 [] 0 of
                    None \<Rightarrow> None
                  | Some (Send_Failed c wire) \<Rightarrow> Some (-1, emit (Sent_Bytes w wire) s1)
                  | Some (Sent bytes calls wire) \<Rightarrow>
                      map_option (\<lambda>s2. (if int bytes \<noteq> SIZEOF_HEADER then -1 else 0, s2))
                        (stamp w (\<lambda>e. e\<lparr>tte_net_start := net_start n, tte_net_end := net_end n,
                           tte_net_xfer_size := int bytes, tte_net_xfer_calls := int calls,
                           tte_byte_offset := -1, tte_disk_xfer_size := 0,
                           tte_op_number := e2eh_sequence_number h, tte_op_type := TASK_OP_TYPE_EOF\<rparr>)
                          (send_leave n w p2 (emit (Sent_Bytes w wire) s1))))"

subsection \<open>Receiving\<close>

datatype recv_result = Received "u8 list" "int list" "u8 list" | Recv_Failed int "u8 list"

text \<open>The receive loop of one socket: the bytes so far, then the calls and the bytes left.\<close>

primrec recv_loop :: "int list \<Rightarrow> u8 list \<Rightarrow> int \<Rightarrow> u8 list \<Rightarrow> recv_result option" where
  "recv_loop [] stream need got =
     (if need \<le> int (length got) then Some (Received got [] stream) else None)"
| "recv_loop (c # cuts) stream need got =
     (if need \<le> int (length got) then Some (Received got (c # cuts) stream)
      else if c \<le> 0 then Some (Recv_Failed c got)
      else let k = min (nat c) (min (min (nat (need - int (length got))) MAXMIT_TCP) (length stream))
           in if k = 0 then None
              else recv_loop cuts (drop k stream) need (got @ take k stream))"

definition overlay :: "u8 list \<Rightarrow> u8 list \<Rightarrow> u8 list" where
  "overlay got buf = got @ drop (length got) buf"

text \<open>
  The loop over all client sockets: every one that is ready is read into the same buffer.
  The result has the index the loop stopped at, the buffer, the bytes of the last socket
  and what is left of the calls and streams.
\<close>

datatype csds_result =
    Csds_Done nat "u8 list" int "int list" "int \<Rightarrow> u8 list"
  | Csds_Failed nat int "u8 list"

primrec receive_csds :: "int list \<Rightarrow> int set \<Rightarrow> int \<Rightarrow> nat \<Rightarrow> int list \<Rightarrow> (int \<Rightarrow> u8 list) \<Rightarrow> u8 list \<Rightarrow> int
    \<Rightarrow> csds_result option" where
  "receive_csds [] rs need i cuts ins buf bytes = Some (Csds_Done i buf bytes cuts ins)"
| "receive_csds (c # csds) rs need i cuts ins buf bytes =
     (if c \<in> rs
      then case recv_loop cuts (ins c) need [] of
             None \<Rightarrow> None
           | Some (Recv_Failed st got) \<Rightarrow> Some (Csds_Failed i st (overlay got buf))
           | Some (Received got cuts' rest) \<Rightarrow>
               receive_csds csds rs need (Suc i) cuts' (ins(c := rest)) (overlay got buf) (int (length got))
      else receive_csds csds rs need (Suc i) cuts ins buf bytes)"

definition first_free :: "int list \<Rightarrow> nat option" where
  "first_free csd = find (\<lambda>i. csd ! i = 0) [0..<length csd]"

definition xdd_e2e_dest_connection :: "net_env \<Rightarrow> xint_e2e \<Rightarrow> (int \<times> xint_e2e) option" where
  "xdd_e2e_dest_connection n p =
     (if net_select n = -1 then None
      else let p1 = p\<lparr>e2e_readset := e2e_readset p \<inter> net_ready n\<rparr> in
           if e2e_sd p1 \<in> e2e_readset p1
           then if length (e2e_csd p1) \<le> e2e_next_csd p1 \<or> net_accept n < 0 then None
                else let csd = (e2e_csd p1)[e2e_next_csd p1 := net_accept n];
                         p2 = p1\<lparr>e2e_current_csd := e2e_next_csd p1, e2e_csd := csd,
                                e2e_active := insert (net_accept n) (e2e_active p1),
                                e2e_readset := insert (net_accept n) (e2e_readset p1)\<rparr>
                     in case first_free csd of
                          Some i \<Rightarrow> Some (0, p2\<lparr>e2e_next_csd := i\<rparr>)
                        | None \<Rightarrow> Some (-1, p2\<lparr>e2e_next_csd := 0\<rparr>)
           else Some (0, p1))"

definition xdd_e2e_dest_receive_header ::
    "net_env \<Rightarrow> u8 list \<Rightarrow> xint_e2e \<Rightarrow> (int \<times> xint_e2e \<times> int list \<times> (int \<Rightarrow> u8 list)) option" where
  "xdd_e2e_dest_receive_header n cookie p =
     (let p1 = p\<lparr>e2e_header_size := SIZEOF_HEADER, e2e_xfer_size := SIZEOF_HEADER\<rparr> in
      case receive_csds (e2e_csd p) (e2e_readset p) SIZEOF_HEADER 0 (net_recv_cuts n) (net_in n)
             (encode_header (e2e_hdrp p)) 0 of
        None \<Rightarrow> None
      | Some (Csds_Failed i st buf) \<Rightarrow>
          Some (st, p1\<lparr>e2e_current_csd := i, e2e_hdrp := decode_header buf, e2e_recv_status := st\<rparr>, [], net_in n)
      | Some (Csds_Done i buf bytes cuts ins) \<Rightarrow>
          let h = decode_header buf; p2 = p1\<lparr>e2e_current_csd := i, e2e_hdrp := h\<rparr>
          in Some (if bytes \<noteq> SIZEOF_HEADER \<or> e2eh_cookie h \<noteq> cookie \<or>
                      (e2eh_magic h \<noteq> XDD_E2E_DATA_READY \<and> e2eh_magic h \<noteq> XDD_E2E_EOF)
                   then -1 else bytes, p2, cuts, ins))"

text \<open>A data length beyond the data buffer writes outside it.\<close>

definition xdd_e2e_dest_receive_data ::
    "int list \<Rightarrow> (int \<Rightarrow> u8 list) \<Rightarrow> xint_e2e \<Rightarrow> (int \<times> xint_e2e) option" where
  "xdd_e2e_dest_receive_data cuts ins p =
     (let size = int32 (e2eh_data_length (e2e_hdrp p)); p1 = p\<lparr>e2e_data_size := size, e2e_xfer_size := size\<rparr> in
      if int (length (e2e_datap p)) < size then None
      else case receive_csds (e2e_csd p) (e2e_readset p) size 0 cuts ins (e2e_datap p) 0 of
             None \<Rightarrow> None
           | Some (Csds_Failed i st buf) \<Rightarrow>
               Some (st, p1\<lparr>e2e_current_csd := i, e2e_datap := buf, e2e_recv_status := st\<rparr>)
           | Some (Csds_Done i buf bytes _ _) \<Rightarrow> Some (bytes, p1\<lparr>e2e_current_csd := i, e2e_datap := buf\<rparr>))"

definition xdd_e2e_dest_receive_error :: "nat \<Rightarrow> xint_e2e \<Rightarrow> xdd \<Rightarrow> (int \<times> xdd) option" where
  "xdd_e2e_dest_receive_error w p s =
     (if length (e2e_csd p) \<le> e2e_current_csd p then None
      else let fd = e2e_csd p ! e2e_current_csd p
           in Some (-1, emit (Closed_Fd fd) (on_wd w (\<lambda>d. d\<lparr>wd_e2ep := Some (p\<lparr>
                e2e_active := e2e_active p - {fd}, e2e_csd := (e2e_csd p)[e2e_current_csd p := 0]\<rparr>)\<rparr>) s)))"

text \<open>The end of a successful receive: times, stamp, and the set for the next \<^verbatim>\<open>select\<close>.\<close>

definition receive_done :: "net_env \<Rightarrow> nat \<Rightarrow> int \<Rightarrow> xint_e2e \<Rightarrow> xdd \<Rightarrow> xdd option" where
  "receive_done n w bytes p s =
     (let first = (tc_pass_start_time (td_counters (td s)) = NCLK_MAX);
          h = (e2e_hdrp p)\<lparr>e2eh_recv_time := net_end n\<rparr>;
          p1 = p\<lparr>e2e_recv_status := bytes,
                 e2e_wait_1st_msg := (if e2e_wait_1st_msg p = 0 then net_end n - net_wait_start n else e2e_wait_1st_msg p),
                 e2e_sr_time := (if first then 0 else net_end n - net_start n),
                 e2e_hdrp := h, e2e_readset := e2e_active p\<rparr>;
          s1 = (if first then on_tc (\<lambda>c. c\<lparr>tc_pass_start_time := net_end n\<rparr>) s else s);
          s2 = on_wd w (\<lambda>d. d\<lparr>wd_e2ep := Some p1,
                 wd_counters := (wd_counters d)\<lparr>tc_current_net_end_time := net_end n\<rparr>\<rparr>) s1
      in stamp w (\<lambda>e. e\<lparr>tte_net_start := net_start n, tte_net_end := net_end n, tte_net_xfer_size := bytes,
           tte_byte_offset := e2eh_byte_offset h, tte_disk_xfer_size := e2eh_data_length h,
           tte_op_number := e2eh_sequence_number h,
           tte_op_type := (if e2eh_magic h = XDD_E2E_EOF then 101 else 119)\<rparr>) s2)"

text \<open>
  The receive reads the clock when it starts to wait (\<open>net_wait_start\<close>); the header routine reads it again for
  every socket that is ready (\<open>net_start\<close> is the last of these).
\<close>

definition net_started :: "net_env \<Rightarrow> xint_e2e \<Rightarrow> nclk" where
  "net_started n p = (if list_ex (\<lambda>c. c \<in> e2e_readset p) (e2e_csd p) then net_start n else net_wait_start n)"

definition xdd_e2e_dest_receive :: "net_env \<Rightarrow> nat \<Rightarrow> xdd \<Rightarrow> (int \<times> xdd) option" where
  "xdd_e2e_dest_receive n w s =
     Option.bind (wd_e2ep (wd s w)) (\<lambda>p.
     Option.bind (xdd_e2e_dest_connection n p) (\<lambda>(rc, p1).
       let s1 = on_wd w (\<lambda>d. d\<lparr>wd_e2ep := Some p1,
                  wd_counters := (wd_counters d)\<lparr>tc_current_net_start_time := net_wait_start n\<rparr>\<rparr>) s;
           s2 = on_wd w (\<lambda>d. d\<lparr>wd_counters := (wd_counters d)\<lparr>tc_current_net_start_time := net_started n p1\<rparr>\<rparr>) s1
       in
       if rc \<noteq> 0 then Some (-1, s1)
       else Option.bind (xdd_e2e_dest_receive_header n (td_magic_cookie (td s)) p1) (\<lambda>(hb, p2, cuts, ins).
         if hb \<le> 0 then xdd_e2e_dest_receive_error w p2 s2
         else if e2eh_magic (e2e_hdrp p2) = XDD_E2E_DATA_READY
         then Option.bind (xdd_e2e_dest_receive_data cuts ins p2) (\<lambda>(db, p3).
                if db \<le> 0 then xdd_e2e_dest_receive_error w p3 s2
                else map_option (Pair 0) (receive_done n w (hb + db) p3 s2))
         else map_option (Pair 0) (receive_done n w hb p2 s2))))"

subsection \<open>Transfers over XNI\<close>

text \<open>
  The XNI library is a parameter: the status, header and data of a received buffer, and the contents
  of the fresh buffer a sender gets in exchange.  At the end of the file the received header has
  only its magic number set.
\<close>

definition xint_e2e_xni_send :: "net_env \<Rightarrow> nat \<Rightarrow> xdd \<Rightarrow> (int \<times> xdd) option" where
  "xint_e2e_xni_send n w s =
     (case wd_e2ep (wd s w) of
        None \<Rightarrow> None
      | Some p \<Rightarrow>
          let d = wd s w;
              h = (e2e_hdrp p)\<lparr>e2eh_worker_thread_number := wd_worker_number d,
                    e2eh_sequence_number := sint (task_op_number (wd_task d)),
                    e2eh_byte_offset := sint (task_byte_offset (wd_task d)),
                    e2eh_data_length := sint (task_xfer_size (wd_task d))\<rparr>;
              total = int32 (net_pagesize n + e2eh_data_length h);
              p1 = p\<lparr>e2e_hdrp := h, e2e_xfer_size := total\<rparr>;
              s1 = send_enter n w p1 s;
              sends = (e2eh_magic h \<noteq> XDD_E2E_EOF);
              p2 = (if sends then p1\<lparr>e2e_hdrp := fst (xni_fresh n), e2e_datap := snd (xni_fresh n)\<rparr> else p1);
              s2 = (if sends then emit (Sent_Xni w h) s1 else s1)
          in map_option (\<lambda>s3. (0, send_leave n w p2 s3))
               (stamp w (\<lambda>e. e\<lparr>tte_net_xfer_size := total, tte_net_start := net_start n,
                  tte_net_end := net_end n, tte_net_xfer_calls := 1\<rparr>) s2))"

definition xint_e2e_xni_recv :: "net_env \<Rightarrow> nat \<Rightarrow> xdd \<Rightarrow> (int \<times> xdd) option" where
  "xint_e2e_xni_recv n w s =
     (case wd_e2ep (wd s w) of
        None \<Rightarrow> None
      | Some p \<Rightarrow>
          let (status, hdr, data) = xni_recv n;
              h = (if status = XNI_OK then hdr else hdr\<lparr>e2eh_magic := XDD_E2E_EOF\<rparr>);
              p1 = p\<lparr>e2e_hdrp := h, e2e_datap := (if status = XNI_OK then data else [])\<rparr>;
              s1 = on_wd w (\<lambda>d. d\<lparr>wd_counters := (wd_counters d)\<lparr>tc_current_net_start_time := net_start n\<rparr>\<rparr>) s
          in if status \<noteq> XNI_OK \<and> status \<noteq> XNI_EOF then Some (-1, s1)
             else map_option (Pair 0)
               (stamp w (\<lambda>e. e\<lparr>tte_net_start := net_start n, tte_net_end := net_end n,
                  tte_net_xfer_size := e2e_recv_status p, tte_byte_offset := e2eh_byte_offset h,
                  tte_disk_xfer_size := e2eh_data_length h, tte_op_number := e2eh_sequence_number h,
                  tte_op_type := (if e2eh_magic h = XDD_E2E_EOF then 101 else 119)\<rparr>)
                 (send_leave n w p1 s1)))"

subsection \<open>The header round trip\<close>

lemma le_signed:
  "- (2 ^ 31) \<le> v \<Longrightarrow> v < 2 ^ 31 \<Longrightarrow> signed_take_bit 31 (le_value (le_bytes 4 v)) = v"
  "- (2 ^ 63) \<le> v \<Longrightarrow> v < 2 ^ 63 \<Longrightarrow> signed_take_bit 63 (le_value (le_bytes 8 v)) = v"
proof -
  have "signed_take_bit 31 (take_bit 32 v) = signed_take_bit 31 v" "signed_take_bit 63 (take_bit 64 v) = signed_take_bit 63 v"
    by (simp_all add: signed_take_bit_take_bit)
  moreover have "le_value (le_bytes 4 v) = take_bit 32 v" "le_value (le_bytes 8 v) = take_bit 64 v"
    by (simp_all add: le_value_le_bytes take_bit_eq_mod)
  ultimately show "- (2 ^ 31) \<le> v \<Longrightarrow> v < 2 ^ 31 \<Longrightarrow> signed_take_bit 31 (le_value (le_bytes 4 v)) = v"
    "- (2 ^ 63) \<le> v \<Longrightarrow> v < 2 ^ 63 \<Longrightarrow> signed_take_bit 63 (le_value (le_bytes 8 v)) = v"
    by (simp_all add: signed_take_bit_int_eq_self)
qed

lemma field_append:
  "length xs = a \<Longrightarrow> field (a + b) n (xs @ ys) = field b n ys"
  "n \<le> length xs \<Longrightarrow> field 0 n (xs @ ys) = take n xs"
  by (simp_all add: field_def)

lemma encode_length: "length (e2eh_cookie h) = 16 \<Longrightarrow> length (encode_header h) = 64"
  by (simp add: encode_header_def)

lemma decode_encode:
  assumes "header_ok h"
  shows "decode_header (encode_header h @ rest) = h"
proof -
  have c: "length (e2eh_cookie h) = 16" using assms by (simp add: header_ok_def)
  have "field 0 4 (encode_header h @ rest) = le_bytes 4 (uint (e2eh_magic h))"
    "field 4 16 (encode_header h @ rest) = e2eh_cookie h"
    "field 20 4 (encode_header h @ rest) = le_bytes 4 (e2eh_worker_thread_number h)"
    "field 24 8 (encode_header h @ rest) = le_bytes 8 (e2eh_sequence_number h)"
    "field 32 8 (encode_header h @ rest) = le_bytes 8 (uint (e2eh_send_time h))"
    "field 40 8 (encode_header h @ rest) = le_bytes 8 (uint (e2eh_recv_time h))"
    "field 48 8 (encode_header h @ rest) = le_bytes 8 (e2eh_byte_offset h)"
    "field 56 8 (encode_header h @ rest) = le_bytes 8 (e2eh_data_length h)"
    by (simp_all only: encode_header_def field_def append_assoc) (simp_all add: c)
  then show ?thesis
    using assms by (simp add: decode_header_def header_ok_def le_unsigned le_signed)
qed

subsection \<open>Fragmentation\<close>

lemma send_by_call:
  assumes "\<forall>c\<in>set cuts. 0 < c" and "need \<le> length mem" and "sent \<le> need" and "need - sent \<le> length cuts"
  shows "\<exists>calls'. send_loop next_by_call mem (int need) cuts sent sent (take sent mem) calls =
           Some (Sent need calls' (take need mem))"
  using assms
proof (induction cuts arbitrary: sent calls)
  case Nil
  then show ?case by simp
next
  case (Cons c cuts)
  show ?case
  proof (cases "sent = need")
    case True
    then show ?thesis by simp
  next
    case False
    define k where "k = min (nat c) (min (nat (int need - int sent)) MAXMIT_TCP)"
    have k: "0 < k" "sent + k \<le> need" using Cons.prems False by (auto simp: k_def)
    have "take sent mem @ take k (drop sent mem) = take (sent + k) mem" by (simp add: take_add)
    moreover have "\<exists>calls'. send_loop next_by_call mem (int need) cuts (sent + k) (sent + k) (take (sent + k) mem) (Suc calls) =
        Some (Sent need calls' (take need mem))"
      using Cons.prems k by (intro Cons.IH) auto
    moreover have "next_by_call sent k (sent + k) = sent + k" by (simp add: next_by_call_def)
    ultimately show ?thesis using Cons.prems False k by (simp add: k_def [symmetric] Let_def)
  qed
qed

lemma recv_whole:
  assumes "\<forall>c\<in>set cuts. 0 < c" and "length got \<le> need"
    and "need - length got \<le> length stream" and "need - length got \<le> length cuts"
  shows "\<exists>cuts'. recv_loop cuts stream (int need) got =
           Some (Received (got @ take (need - length got) stream) cuts' (drop (need - length got) stream)) \<and>
         set cuts' \<subseteq> set cuts \<and> length cuts \<le> length cuts' + (need - length got)"
  using assms
proof (induction cuts arbitrary: got stream)
  case Nil
  then show ?case by simp
next
  case (Cons c cuts)
  show ?case
  proof (cases "length got = need")
    case True
    then show ?thesis by simp
  next
    case False
    define k where "k = min (nat c) (min (min (nat (int need - int (length got))) MAXMIT_TCP) (length stream))"
    have k: "0 < k" "length got + k \<le> need" "k \<le> length stream" using Cons.prems False by (auto simp: k_def)
    let ?g = "got @ take k stream"
    have len: "length ?g = length got + k" using k by simp
    have pos: "\<forall>c\<in>set cuts. 0 < c" using Cons.prems by simp
    have "\<exists>cuts'. recv_loop cuts (drop k stream) (int need) ?g =
           Some (Received (?g @ take (need - length ?g) (drop k stream)) cuts' (drop (need - length ?g) (drop k stream))) \<and>
         set cuts' \<subseteq> set cuts \<and> length cuts \<le> length cuts' + (need - length ?g)"
      by (rule Cons.IH [OF pos]) (use Cons.prems k len in simp_all)
    then obtain cuts' where c: "recv_loop cuts (drop k stream) (int need) ?g =
           Some (Received (?g @ take (need - length ?g) (drop k stream)) cuts' (drop (need - length ?g) (drop k stream)))"
      "set cuts' \<subseteq> set cuts" "length cuts \<le> length cuts' + (need - length ?g)" by blast
    have n: "need - length got = (need - length ?g) + k" using k len by simp
    have "?g @ take (need - length ?g) (drop k stream) = got @ take (need - length got) stream"
      unfolding n by (simp add: take_add add.commute)
    moreover have "drop (need - length ?g) (drop k stream) = drop (need - length got) stream"
      unfolding n by (simp add: add.commute)
    moreover have "recv_loop (c # cuts) stream (int need) got = recv_loop cuts (drop k stream) (int need) ?g"
      using Cons.prems(1,2) False k(1) by (simp add: k_def [symmetric] Let_def)
    moreover have "length (c # cuts) \<le> length cuts' + (need - length got)" using c(3) k len by simp
    ultimately show ?thesis using c(1,2) by (intro exI [of _ cuts']) auto
  qed
qed

text \<open>One client socket is ready.\<close>

lemma receive_none_ready:
  "set csds \<inter> rs = {} \<Longrightarrow>
   receive_csds csds rs need i cuts ins buf bytes = Some (Csds_Done (i + length csds) buf bytes cuts ins)"
  by (induction csds arbitrary: i) auto

lemma receive_one_ready:
  assumes "csds = as @ c # bs" and "set as \<inter> rs = {}" and "set bs \<inter> rs = {}" and "c \<in> rs"
    and "recv_loop cuts (ins c) need [] = Some (Received got cuts' rest)"
  shows "receive_csds csds rs need i cuts ins buf bytes =
    Some (Csds_Done (i + length csds) (overlay got buf) (int (length got)) cuts' (ins(c := rest)))"
proof -
  have "receive_csds (as @ xs) rs need i cuts ins buf bytes = receive_csds xs rs need (i + length as) cuts ins buf bytes" for xs
    using assms(2) by (induction as arbitrary: i) auto
  then show ?thesis using assms by (simp add: receive_none_ready)
qed

text \<open>\<open>sole_ready n p c\<close>: \<^verbatim>\<open>select\<close> returns with just the client socket \<open>c\<close> ready.\<close>

definition sole_ready :: "net_env \<Rightarrow> xint_e2e \<Rightarrow> int \<Rightarrow> bool" where
  "sole_ready n p c \<longleftrightarrow> net_select n \<noteq> -1 \<and> e2e_sd p \<notin> e2e_readset p \<inter> net_ready n \<and>
     filter (\<lambda>x. x \<in> e2e_readset p \<inter> net_ready n) (e2e_csd p) = [c]"

lemma receive_sole:
  assumes "filter (\<lambda>x. x \<in> rs) csds = [c]" and "\<forall>x\<in>set cuts. 0 < x" and "need \<le> length cuts"
    and "ins c = bs @ rest" and "length bs = need"
  shows "\<exists>cuts'. receive_csds csds rs (int need) 0 cuts ins buf b =
      Some (Csds_Done (length csds) (overlay bs buf) (int need) cuts' (ins(c := rest))) \<and>
    (\<forall>x\<in>set cuts'. 0 < x) \<and> length cuts \<le> length cuts' + need"
proof -
  obtain as ds where csds: "csds = as @ c # ds" and e: "\<forall>x\<in>set as. x \<notin> rs" "c \<in> rs"
      "filter (\<lambda>x. x \<in> rs) ds = []"
    using assms(1) unfolding filter_eq_Cons_iff by auto
  have d: "set as \<inter> rs = {}" "set ds \<inter> rs = {}" using e by (auto simp: filter_empty_conv)
  have l: "length bs \<le> length (ins c)" using assms(4) by simp
  obtain cuts' where r: "recv_loop cuts (ins c) (int need) [] = Some (Received (take need (ins c)) cuts' (drop need (ins c)))"
    "set cuts' \<subseteq> set cuts" "length cuts \<le> length cuts' + need"
    using recv_whole [OF assms(2), of "[]" need "ins c"] assms(3,5) l by auto
  have t: "take need (ins c) = bs" "drop need (ins c) = rest" using assms(4,5) by simp_all
  have "receive_csds csds rs (int need) 0 cuts ins buf b =
      Some (Csds_Done (0 + length csds) (overlay bs buf) (int (length bs)) cuts' (ins(c := rest)))"
    using receive_one_ready [where ins = ins, OF csds d e(2) r(1)] t by simp
  then show ?thesis using r assms(2,5) by auto
qed

lemma dest_receive_packet:
  assumes p: "wd_e2ep (wd s w) = Some p" and ts: "\<not> ts_active s" and so: "sole_ready n p c"
    and h: "header_ok h" "e2eh_cookie h = td_magic_cookie (td s)" "e2eh_magic h = XDD_E2E_DATA_READY"
    and len: "e2eh_data_length h = int (length data)" "data \<noteq> []" "length data < 2 ^ 31"
      "length data \<le> length (e2e_datap p)"
    and cuts: "\<forall>x\<in>set (net_recv_cuts n). 0 < x" "64 + length data \<le> length (net_recv_cuts n)"
    and ins: "net_in n c = encode_header h @ data @ rest"
  shows "\<exists>s' q. xdd_e2e_dest_receive n w s = Some (0, s') \<and> wd_e2ep (wd s' w) = Some q \<and>
    e2e_hdrp q = h\<lparr>e2eh_recv_time := net_end n\<rparr> \<and>
    e2e_datap q = data @ drop (length data) (e2e_datap p) \<and> e2e_recv_status q = 64 + int (length data)"
proof -
  let ?rs = "e2e_readset p \<inter> net_ready n"
  let ?p1 = "p\<lparr>e2e_readset := ?rs\<rparr>"
  have conn: "xdd_e2e_dest_connection n p = Some (0, ?p1)"
    using so by (auto simp: xdd_e2e_dest_connection_def sole_ready_def Let_def)
  have f: "filter (\<lambda>x. x \<in> ?rs) (e2e_csd p) = [c]" using so by (simp add: sole_ready_def)
  have c16: "length (e2eh_cookie h) = 16" using h(1) by (simp add: header_ok_def)
  have hl: "length (encode_header h) = 64" using encode_length [OF c16] .
  obtain cuts' where r1: "receive_csds (e2e_csd p) ?rs (int 64) 0 (net_recv_cuts n) (net_in n) (encode_header (e2e_hdrp p)) 0 =
      Some (Csds_Done (length (e2e_csd p)) (overlay (encode_header h) (encode_header (e2e_hdrp p))) (int 64) cuts'
        ((net_in n)(c := data @ rest)))"
    and c1: "\<forall>x\<in>set cuts'. 0 < x" "length (net_recv_cuts n) \<le> length cuts' + 64"
    using receive_sole [where ins = "net_in n" and bs = "encode_header h", OF f cuts(1) _ ins hl] cuts(2)
    by (meson add_leD1)
  have dh: "decode_header (overlay (encode_header h) (encode_header (e2e_hdrp p))) = h"
    unfolding overlay_def by (rule decode_encode [OF h(1)])
  let ?p2 = "?p1\<lparr>e2e_header_size := 64, e2e_xfer_size := 64, e2e_current_csd := length (e2e_csd p), e2e_hdrp := h\<rparr>"
  have hd: "xdd_e2e_dest_receive_header n (td_magic_cookie (td s)) ?p1 =
      Some (64, ?p2, cuts', (net_in n)(c := data @ rest))"
    using r1 dh h(2,3) by (simp add: xdd_e2e_dest_receive_header_def)
  have i32: "int32 (int (length data)) = int (length data)" by (rule int32_id) (use len(3) in simp_all)
  have f2: "filter (\<lambda>x. x \<in> e2e_readset ?p2) (e2e_csd ?p2) = [c]" using f by simp
  have l2: "length data \<le> length cuts'" using c1(2) cuts(2) by linarith
  have i2: "((net_in n)(c := data @ rest)) c = data @ rest" by simp
  obtain cuts'' ins'' where r2: "receive_csds (e2e_csd ?p2) (e2e_readset ?p2) (int (length data)) 0 cuts' ((net_in n)(c := data @ rest))
      (e2e_datap ?p2) 0 = Some (Csds_Done (length (e2e_csd ?p2)) (overlay data (e2e_datap ?p2)) (int (length data)) cuts'' ins'')"
    using receive_sole [where ins = "(net_in n)(c := data @ rest)", OF f2 c1(1) l2 i2 refl] by meson
  let ?p3 = "?p2\<lparr>e2e_data_size := int (length data), e2e_xfer_size := int (length data),
      e2e_current_csd := length (e2e_csd p), e2e_datap := overlay data (e2e_datap p)\<rparr>"
  have dd: "xdd_e2e_dest_receive_data cuts' ((net_in n)(c := data @ rest)) ?p2 = Some (int (length data), ?p3)"
    using r2 len(1,4) i32 by (simp add: xdd_e2e_dest_receive_data_def Let_def)
  have "\<exists>s' q. receive_done n w (64 + int (length data)) ?p3 t = Some s' \<and> wd_e2ep (wd s' w) = Some q \<and>
      e2e_hdrp q = h\<lparr>e2eh_recv_time := net_end n\<rparr> \<and> e2e_datap q = overlay data (e2e_datap p) \<and>
      e2e_recv_status q = 64 + int (length data)" if "\<not> ts_active t" for t
    using that by (simp add: receive_done_def stamp_def Let_def on_wd_def on_tc_def on_td_def)
  moreover have "\<not> ts_active (on_wd w f (on_wd w g s))" for f g using ts by (simp add: on_wd_def)
  ultimately show ?thesis
    using p conn hd dd h(3) len(2) by (simp add: xdd_e2e_dest_receive_def overlay_def)
qed

lemma src_send_packet:
  assumes p: "wd_e2ep (wd s w) = Some p" and ts: "\<not> ts_active s"
    and h: "h = e2e_send_header (td s) (wd s w) (e2e_hdrp p)" "length (e2eh_cookie h) = 16"
    and len: "e2eh_data_length h = int n" "n \<le> length (e2e_datap p)" "64 + int n < 2 ^ 31"
    and cuts: "\<forall>c\<in>set (net_send_cuts e). 0 < c" "64 + n \<le> length (net_send_cuts e)"
  shows "\<exists>s'. xdd_e2e_src_send e w s = Some (0, s') \<and>
    trace s' = trace s @ [Sent_Bytes w (encode_header h @ take n (e2e_datap p))]"
proof -
  let ?mem = "encode_header h @ e2e_datap p"
  have hl: "length (encode_header h) = 64" by (rule encode_length) (rule h(2))
  have tot: "int32 (64 + e2eh_data_length h) = int (64 + n)"
    using int32_id [of "64 + int n"] len(1,3) by simp
  obtain calls where "send_loop next_by_call ?mem (int (64 + n)) (net_send_cuts e) 0 0 [] 0 =
      Some (Sent (64 + n) calls (take (64 + n) ?mem))"
    using send_by_call [OF cuts(1), of "64 + n" ?mem 0 0] cuts(2) len(2) hl by auto
  moreover have "take (64 + n) ?mem = encode_header h @ take n (e2e_datap p)" using hl by simp
  ultimately have l: "send_loop next_by_call ?mem (int32 (64 + e2eh_data_length h)) (net_send_cuts e) 0 0 [] 0 =
      Some (Sent (64 + n) calls (encode_header h @ take n (e2e_datap p)))"
    using tot by simp
  show ?thesis
    using p ts l tot
    by (simp add: xdd_e2e_src_send_def h(1) [symmetric] Let_def stamp_def send_enter_def send_leave_def emit_def on_wd_def)
qed

subsection \<open>Properties\<close>

text \<open>C6: However the system cuts the transfer into pieces, what a source worker sends for a task arrives
  whole: the source returns 0 having sent the header and the data, and a destination worker that
  gets these bytes on its only ready socket, in pieces of any size, returns 0 with the same header (but for
  the time of receipt) and the same data at the start of its buffer.\<close>

theorem e2e_roundtrip:
  assumes "wd_e2ep (wd s w) = Some p" and "\<not> ts_active s"
    and "h = e2e_send_header (td s) (wd s w) (e2e_hdrp p)" and "header_ok h"
    and "e2eh_magic h = XDD_E2E_DATA_READY" and "e2eh_data_length h = int n" and "0 < n"
    and "n \<le> length (e2e_datap p)" and "64 + int n < 2 ^ 31"
    and "\<forall>c\<in>set (net_send_cuts e). 0 < c" and "64 + n \<le> length (net_send_cuts e)"
    and "wd_e2ep (wd r v) = Some q" and "\<not> ts_active r" and "sole_ready f q c"
    and "td_magic_cookie (td r) = td_magic_cookie (td s)" and "n \<le> length (e2e_datap q)"
    and "\<forall>c\<in>set (net_recv_cuts f). 0 < c" and "64 + n \<le> length (net_recv_cuts f)"
  shows "\<exists>s' wire. xdd_e2e_src_send e w s = Some (0, s') \<and> trace s' = trace s @ [Sent_Bytes w wire] \<and>
    (\<forall>rest. net_in f c = wire @ rest \<longrightarrow>
      (\<exists>r' q'. xdd_e2e_dest_receive f v r = Some (0, r') \<and> wd_e2ep (wd r' v) = Some q' \<and>
         e2e_hdrp q' = h\<lparr>e2eh_recv_time := net_end f\<rparr> \<and> take n (e2e_datap q') = take n (e2e_datap p)))"
proof -
  let ?data = "take n (e2e_datap p)"
  have l: "length ?data = n" using assms(8) by simp
  have c16: "length (e2eh_cookie h) = 16" using assms(4) by (simp add: header_ok_def)
  have ck: "e2eh_cookie h = td_magic_cookie (td r)" using assms(3,15) by (simp add: e2e_send_header_def)
  obtain s' where s': "xdd_e2e_src_send e w s = Some (0, s')"
    "trace s' = trace s @ [Sent_Bytes w (encode_header h @ ?data)]"
    using src_send_packet [OF assms(1-3) c16 assms(6,8-11)] by blast
  have "\<exists>r' q'. xdd_e2e_dest_receive f v r = Some (0, r') \<and> wd_e2ep (wd r' v) = Some q' \<and>
         e2e_hdrp q' = h\<lparr>e2eh_recv_time := net_end f\<rparr> \<and> take n (e2e_datap q') = ?data"
    if "net_in f c = (encode_header h @ ?data) @ rest" for rest
  proof -
    have i: "net_in f c = encode_header h @ ?data @ rest" using that by simp
    have d: "e2eh_data_length h = int (length ?data)" "?data \<noteq> []" "length ?data < 2 ^ 31"
      "length ?data \<le> length (e2e_datap q)" "64 + length ?data \<le> length (net_recv_cuts f)"
      using l assms(6,7,9,16,18) by auto
    from dest_receive_packet [OF assms(12-14) assms(4) ck assms(5) d(1-4) assms(17) d(5) i]
    show ?thesis using l by auto
  qed
  with s' show ?thesis by blast
qed

lemma send_step:
  assumes "0 < c" and "int sent < need" and "k = min (nat c) (min (nat (need - int sent)) MAXMIT_TCP)"
    and "off + k \<le> length mem"
  shows "send_loop nxt mem need (c # cuts) off sent wire calls =
    send_loop nxt mem need cuts (nxt off k (sent + k)) (sent + k) (wire @ take k (drop off mem)) (Suc calls)"
  using assms by (simp add: Let_def)

lemma send_end: "need = int sent \<Longrightarrow> send_loop nxt mem need cuts off sent wire calls = Some (Sent sent calls wire)"
  by (cases cuts) simp_all

text \<open>
  A sample: a source worker with six bytes of data and a destination worker with one connected socket, with the
  system taking and giving one byte at a time.
\<close>

definition sample_e2e :: "u32 \<Rightarrow> u8 list \<Rightarrow> xint_e2e" where
  "sample_e2e magic data = \<lparr>e2e_sd = 4, e2e_csd = 5 # replicate 255 0, e2e_active = {4, 5}, e2e_readset = {4, 5},
     e2e_current_csd = 0, e2e_next_csd = 1,
     e2e_hdrp = \<lparr>e2eh_magic = magic, e2eh_cookie = replicate 16 0, e2eh_worker_thread_number = 0,
       e2eh_sequence_number = 0, e2eh_send_time = 0, e2eh_recv_time = 0, e2eh_byte_offset = 0, e2eh_data_length = 0\<rparr>,
     e2e_datap = data, e2e_header_size = 0, e2e_data_size = 0, e2e_xfer_size = 0, e2e_recv_status = 0,
     e2e_wait_1st_msg = 0, e2e_msg_sequence_number = 0, e2e_data_recvd = 0, e2e_sr_time = 0\<rparr>"

definition sample_peer :: "u32 \<Rightarrow> u8 list \<Rightarrow> xdd" where
  "sample_peer magic data = on_wd 0 (\<lambda>d. d\<lparr>wd_e2ep := Some (sample_e2e magic data),
     wd_task := (wd_task d)\<lparr>task_xfer_size := 6\<rparr>\<rparr>) (sample 1 0 0)"

definition sample_net :: "u8 list \<Rightarrow> net_env" where
  "sample_net bytes = \<lparr>net_wait_start = 5, net_start = 10, net_end = 30, net_select = 1, net_ready = {5}, net_accept = -1,
     net_in = (\<lambda>_. bytes), net_recv_cuts = replicate 80 1, net_send_cuts = replicate 80 1,
     xni_recv = (XNI_EOF, e2e_hdrp (sample_e2e 0 []), []), xni_fresh = (e2e_hdrp (sample_e2e 0 []), []),
     net_pagesize = 4096\<rparr>"

lemmas peer_simps = sample_peer_def sample_e2e_def sample_net_def on_wd_def sample_def sample_td_def sample_wd_def
  zero_task_def zero_counters_def

lemma sample_ready: "sole_ready (sample_net bytes) (sample_e2e m d) 5"
  by (simp add: sole_ready_def sample_net_def sample_e2e_def)

definition sample_header :: xdd_e2e_header where
  "sample_header = e2e_send_header (td (sample_peer XDD_E2E_DATA_READY [1, 2, 3, 4, 5, 6]))
     (wd (sample_peer XDD_E2E_DATA_READY [1, 2, 3, 4, 5, 6]) 0) (e2e_hdrp (sample_e2e XDD_E2E_DATA_READY [1, 2, 3, 4, 5, 6]))"

lemma sample_header_ok: "header_ok sample_header" "e2eh_magic sample_header = XDD_E2E_DATA_READY"
  "e2eh_data_length sample_header = int 6"
  by (simp_all add: sample_header_def e2e_send_header_def header_ok_def peer_simps)

theorem e2e_roundtrip_witness:
  "\<exists>s' wire. xdd_e2e_src_send (sample_net []) 0 (sample_peer XDD_E2E_DATA_READY [1, 2, 3, 4, 5, 6]) = Some (0, s') \<and>
     trace s' = trace (sample_peer XDD_E2E_DATA_READY [1, 2, 3, 4, 5, 6]) @ [Sent_Bytes 0 wire] \<and>
     (\<exists>r' q'. xdd_e2e_dest_receive (sample_net wire) 0 (sample_peer 0 [0, 0, 0, 0, 0, 0, 0, 0]) = Some (0, r') \<and>
        wd_e2ep (wd r' 0) = Some q' \<and> e2e_hdrp q' = sample_header\<lparr>e2eh_recv_time := 30\<rparr> \<and>
        take 6 (e2e_datap q') = [1, 2, 3, 4, 5, 6])"
proof -
  let ?d = "[1, 2, 3, 4, 5, 6] :: u8 list" and ?z = "[0, 0, 0, 0, 0, 0, 0, 0] :: u8 list"
  let ?s = "sample_peer XDD_E2E_DATA_READY ?d" and ?r = "sample_peer 0 ?z"
  have s: "wd_e2ep (wd ?s 0) = Some (sample_e2e XDD_E2E_DATA_READY ?d)" "\<not> ts_active ?s"
    "wd_e2ep (wd ?r 0) = Some (sample_e2e 0 ?z)" "\<not> ts_active ?r" "td_magic_cookie (td ?r) = td_magic_cookie (td ?s)"
    by (simp_all add: peer_simps flag_on_def)
  have d: "e2e_datap (sample_e2e m x) = x" for m x by (simp add: sample_e2e_def)
  have c: "net_send_cuts (sample_net b) = replicate 80 1" "net_recv_cuts (sample_net b) = replicate 80 1"
    "net_end (sample_net b) = 30" "net_in (sample_net b) 5 = b" for b by (simp_all add: sample_net_def)
  have r: "\<exists>s' wire. xdd_e2e_src_send (sample_net []) 0 ?s = Some (0, s') \<and> trace s' = trace ?s @ [Sent_Bytes 0 wire] \<and>
    (\<forall>rest. net_in (sample_net b) 5 = wire @ rest \<longrightarrow>
      (\<exists>r' q'. xdd_e2e_dest_receive (sample_net b) 0 ?r = Some (0, r') \<and> wd_e2ep (wd r' 0) = Some q' \<and>
         e2e_hdrp q' = sample_header\<lparr>e2eh_recv_time := net_end (sample_net b)\<rparr> \<and>
         take 6 (e2e_datap q') = take 6 (e2e_datap (sample_e2e XDD_E2E_DATA_READY ?d))))" for b
    by (rule e2e_roundtrip [OF s(1,2) sample_header_def sample_header_ok(1,2,3) _ _ _ _ _ s(3,4) sample_ready s(5)])
       (simp_all add: d c)
  obtain s' wire where s': "xdd_e2e_src_send (sample_net []) 0 ?s = Some (0, s')" "trace s' = trace ?s @ [Sent_Bytes 0 wire]"
    using r [of "[]"] by blast
  obtain s'' wire' where "xdd_e2e_src_send (sample_net []) 0 ?s = Some (0, s'')" "trace s'' = trace ?s @ [Sent_Bytes 0 wire']"
    and q: "\<forall>rest. net_in (sample_net wire) 5 = wire' @ rest \<longrightarrow>
      (\<exists>r' q'. xdd_e2e_dest_receive (sample_net wire) 0 ?r = Some (0, r') \<and> wd_e2ep (wd r' 0) = Some q' \<and>
         e2e_hdrp q' = sample_header\<lparr>e2eh_recv_time := net_end (sample_net wire)\<rparr> \<and>
         take 6 (e2e_datap q') = take 6 (e2e_datap (sample_e2e XDD_E2E_DATA_READY ?d)))"
    using r [of wire] by blast
  with s' have "wire' = wire" by simp
  with q have "\<exists>r' q'. xdd_e2e_dest_receive (sample_net wire) 0 ?r = Some (0, r') \<and> wd_e2ep (wd r' 0) = Some q' \<and>
         e2e_hdrp q' = sample_header\<lparr>e2eh_recv_time := 30\<rparr> \<and> take 6 (e2e_datap q') = ?d"
    by (simp add: d c)
  with s' show ?thesis by blast
qed

text \<open>The end-of-file packet of the source is right only while \<^verbatim>\<open>sendto\<close> takes it in at most two pieces. If three
  calls are needed, taking \<open>a\<close>, \<open>b\<close> and the rest, the third sends the bytes from
  \<open>2 * a + b\<close> on instead of those from \<open>a + b\<close> on.\<close>

lemma e2e_eof_third_piece_misplaced:
  assumes "wd_e2ep (wd s w) = Some p" and "\<not> ts_active s" and "\<not> flag_on (plan_options s) PLAN_ENABLE_XNI"
    and "h = eof_header (td s) (wd s w) (e2e_hdrp p)" and "length (e2eh_cookie h) = 16"
    and "net_send_cuts e = [int a, int b, 64]" and "0 < a" and "0 < b" and "a + b < 64" and "64 \<le> length (e2e_datap p)"
  shows "\<exists>s' wire. xdd_e2e_eof_source_side e w s = Some (0, s') \<and> trace s' = trace s @ [Sent_Bytes w wire] \<and>
    wire = take (a + b) (encode_header h) @ take (64 - (a + b)) (drop (2 * a + b) (encode_header h @ e2e_datap p))"
proof -
  define mem where "mem = encode_header h @ e2e_datap p"
  have hl: "length (encode_header h) = 64" by (rule encode_length) (rule assms(5))
  have ml: "128 \<le> length mem" using hl assms(10) by (simp add: mem_def)
  have m28: "64 \<le> MAXMIT_TCP" by (simp add: MAXMIT_TCP_def)
  have "send_loop next_by_total mem 64 [int a, int b, 64] 0 0 [] 0 =
      send_loop next_by_total mem 64 [int b, 64] (next_by_total 0 a (0 + a)) (0 + a) ([] @ take a (drop 0 mem)) (Suc 0)"
    by (rule send_step) (use assms(7,9) m28 ml in auto)
  also have "\<dots> = send_loop next_by_total mem 64 [int b, 64] a a (take a mem) (Suc 0)"
    by (simp only: next_by_total_def) simp
  also have "\<dots> = send_loop next_by_total mem 64 [64] (next_by_total a b (a + b)) (a + b) (take a mem @ take b (drop a mem)) (Suc (Suc 0))"
    by (rule send_step) (use assms(8,9) m28 ml in auto)
  also have "\<dots> = send_loop next_by_total mem 64 [64] (2 * a + b) (a + b) (take (a + b) mem) (Suc (Suc 0))"
    by (simp only: next_by_total_def take_add mult_2 add.assoc)
  also have "\<dots> = send_loop next_by_total mem 64 [] (next_by_total (2 * a + b) (64 - (a + b)) (a + b + (64 - (a + b))))
      (a + b + (64 - (a + b))) (take (a + b) mem @ take (64 - (a + b)) (drop (2 * a + b) mem)) (Suc (Suc (Suc 0)))"
    by (rule send_step) (use assms(9) m28 ml in auto)
  also have "\<dots> = Some (Sent (a + b + (64 - (a + b))) (Suc (Suc (Suc 0)))
      (take (a + b) mem @ take (64 - (a + b)) (drop (2 * a + b) mem)))"
    by (rule send_end) (use assms(9) in simp)
  finally have l: "send_loop next_by_total (encode_header h @ e2e_datap p) 64 (net_send_cuts e) 0 0 [] 0 =
      Some (Sent 64 3 (take (a + b) (encode_header h) @ take (64 - (a + b)) (drop (2 * a + b) mem)))"
    using assms(6,9) hl by (simp add: mem_def numeral_3_eq_3)
  have "\<exists>s'. xdd_e2e_eof_source_side e w s = Some (0, s') \<and>
      trace s' = trace s @ [Sent_Bytes w (take (a + b) (encode_header h) @ take (64 - (a + b)) (drop (2 * a + b) mem))]"
    using assms(1-3) l
    by (simp only: xdd_e2e_eof_source_side_def assms(4) [symmetric] Let_def option.case send_result.case if_False)
       (simp add: stamp_def send_enter_def send_leave_def emit_def on_wd_def)
  then show ?thesis by (simp add: mem_def)
qed

definition sample_pieces :: net_env where
  "sample_pieces = (sample_net [])\<lparr>net_send_cuts := [int 10, int 20, 64]\<rparr>"

lemma e2e_eof_third_piece_misplaced_witness:
  "let s = sample_peer 0 (replicate 64 0); h = eof_header (td s) (wd s 0) (e2e_hdrp (sample_e2e 0 (replicate 64 0))) in
   \<exists>s' wire. xdd_e2e_eof_source_side sample_pieces 0 s = Some (0, s') \<and> trace s' = trace s @ [Sent_Bytes 0 wire] \<and>
     wire = take (10 + 20) (encode_header h) @
       take (64 - (10 + 20)) (drop (2 * 10 + 20) (encode_header h @ e2e_datap (sample_e2e 0 (replicate 64 0))))"
proof -
  let ?s = "sample_peer 0 (replicate 64 0)"
  have s: "wd_e2ep (wd ?s 0) = Some (sample_e2e 0 (replicate 64 0))" "\<not> ts_active ?s"
    "\<not> flag_on (plan_options ?s) PLAN_ENABLE_XNI"
    by (simp_all add: peer_simps flag_on_def)
  have h: "length (e2eh_cookie (eof_header (td ?s) (wd ?s 0) (e2e_hdrp (sample_e2e 0 (replicate 64 0))))) = 16"
    by (simp add: eof_header_def peer_simps)
  show ?thesis
    unfolding Let_def
    by (rule e2e_eof_third_piece_misplaced [OF s refl h, of sample_pieces 10 20])
       (simp_all add: sample_pieces_def sample_e2e_def)
qed

text \<open>A destination worker that receives a whole header with a wrong cookie or magic number does not reach its error
  return: the error routine then indexes the table of client sockets past its end, because the
  scan of the sockets has left the current index there.\<close>

lemma bad_header_outside_csd_table:
  assumes "wd_e2ep (wd s w) = Some p" and "sole_ready n p c"
    and "header_ok h" and "e2eh_cookie h \<noteq> td_magic_cookie (td s) \<or>
      (e2eh_magic h \<noteq> XDD_E2E_DATA_READY \<and> e2eh_magic h \<noteq> XDD_E2E_EOF)"
    and "\<forall>x\<in>set (net_recv_cuts n). 0 < x" and "64 \<le> length (net_recv_cuts n)"
    and "net_in n c = encode_header h @ rest"
  shows "xdd_e2e_dest_receive n w s = None"
proof -
  let ?rs = "e2e_readset p \<inter> net_ready n"
  have conn: "xdd_e2e_dest_connection n p = Some (0, p\<lparr>e2e_readset := ?rs\<rparr>)"
    using assms(2) by (auto simp: xdd_e2e_dest_connection_def sole_ready_def Let_def)
  have f: "filter (\<lambda>x. x \<in> ?rs) (e2e_csd p) = [c]" using assms(2) by (simp add: sole_ready_def)
  have hl: "length (encode_header h) = 64"
    using assms(3) by (intro encode_length) (simp add: header_ok_def)
  obtain cuts' where r1: "receive_csds (e2e_csd p) ?rs (int 64) 0 (net_recv_cuts n) (net_in n) (encode_header (e2e_hdrp p)) 0 =
      Some (Csds_Done (length (e2e_csd p)) (overlay (encode_header h) (encode_header (e2e_hdrp p))) (int 64) cuts'
        ((net_in n)(c := rest)))"
    using receive_sole [where ins = "net_in n" and bs = "encode_header h", OF f assms(5,6,7) hl] by meson
  have dh: "decode_header (overlay (encode_header h) (encode_header (e2e_hdrp p))) = h"
    unfolding overlay_def by (rule decode_encode [OF assms(3)])
  show ?thesis
    using assms(1,4) conn r1 dh
    by (auto simp: xdd_e2e_dest_receive_def xdd_e2e_dest_receive_header_def xdd_e2e_dest_receive_error_def Let_def)
qed

lemma bad_header_outside_csd_table_witness:
  "xdd_e2e_dest_receive (sample_net (encode_header (sample_header\<lparr>e2eh_magic := 1\<rparr>) @ [])) 0
     (sample_peer 0 [0, 0, 0, 0, 0, 0, 0, 0]) = None"
proof -
  let ?h = "sample_header\<lparr>e2eh_magic := 1\<rparr>"
  have p: "wd_e2ep (wd (sample_peer 0 [0, 0, 0, 0, 0, 0, 0, 0]) 0) = Some (sample_e2e 0 [0, 0, 0, 0, 0, 0, 0, 0])"
    by (simp add: peer_simps)
  have h: "header_ok ?h" using sample_header_ok(1) by (simp add: header_ok_def)
  show ?thesis
    by (rule bad_header_outside_csd_table [OF p sample_ready h]) (simp_all add: sample_net_def)
qed

end
