(* ===== verification/Worker_Io.thy ===== *)
theory Worker_Io
  imports E2e "HOL-Library.Monad_Syntax"
begin

unbundle bit_operations_syntax

text \<open>
  One I/O task of a worker thread: \<^verbatim>\<open>src/base/worker_thread_io.c\<close>, with what it does before
  (\<^verbatim>\<open>worker_thread_ttd_before_io_op.c\<close>) and after (\<^verbatim>\<open>worker_thread_ttd_after_io_op.c\<close>) the
  operation, and the Linux operation itself (\<^verbatim>\<open>worker_thread_io_for_os.c\<close>).

  The operating system, the clock and the network are the record \<open>io_env\<close>.  An operation
  returns \<open>None\<close> when it does not come back: it indexes an array out of bounds,
  dereferences a null pointer, or polls for read-after-write data that never arrives.  The
  waits and releases of the ordering options are events here; their effect on the target
  offset table is modelled in theory Tot.
\<close>

record io_env =
  env_now :: nclk
  env_op_start :: nclk
  env_op_end :: nclk
  env_io :: "xint_task \<Rightarrow> int \<times> int"
  env_sg_io :: "xint_task \<Rightarrow> int \<times> int"
  env_pagesize :: int
  env_open :: "int \<times> int"
  env_clk_tck :: int
  env_fstat :: "(int \<times> u64) list"
  env_raw_msgs :: "raw_msg list"
  env_net :: net_env

abbreviation (input) RAW_STAT :: u32 where "RAW_STAT \<equiv> 1"
abbreviation (input) RAW_MP :: u32 where "RAW_MP \<equiv> 2"
abbreviation (input) RAW_MAGIC :: u32 where "RAW_MAGIC \<equiv> 0x07201958"
abbreviation (input) XINT_THROTTLE_DELAY :: u32 where "XINT_THROTTLE_DELAY \<equiv> 8"

subsection \<open>Before the operation\<close>

text \<open>The condition for direct I/O: size and offset are multiples of the page size.\<close>

definition dio_aligned :: "io_env \<Rightarrow> xint_task \<Rightarrow> bool" where
  "dio_aligned e t \<longleftrightarrow> uint (task_xfer_size t) mod env_pagesize e = 0 \<and>
     sint (task_byte_offset t) mod env_pagesize e = 0"

definition xdd_dio_before_io_op :: "io_env \<Rightarrow> nat \<Rightarrow> xdd \<Rightarrow> xdd" where
  "xdd_dio_before_io_op e w s =
     (if \<not> opt s TO_DIO \<or> opt s TO_SGIO \<or> dio_aligned e (wd_task (wd s w)) then s
      else let (status, fd) = env_open e;
               s1 = emit Reopen_Buffered
                      (on_td (\<lambda>t. t\<lparr>td_target_options := clear_flag (td_target_options t) TO_DIO,
                                    td_file_desc := fd\<rparr>) s);
               s2 = (if status \<noteq> 0 then s1\<lparr>canceled := True\<rparr> else s1);
               s3 = on_task w (\<lambda>t. t\<lparr>task_file_desc := td_file_desc (td s2)\<rparr>) s2
           in on_td (\<lambda>t. t\<lparr>td_target_options := set_flag (td_target_options t) TO_DIO\<rparr>) s3)"

text \<open>
  The two polling loops of the reader in a read-after-write operation; the lists are the
  results of \<^verbatim>\<open>fstat\<close> and the messages received, in order.
\<close>

fun raw_stat_loop :: "(int \<times> u64) list \<Rightarrow> u64 \<Rightarrow> u64 \<Rightarrow> xint_raw \<Rightarrow> xint_raw option" where
  "raw_stat_loop rs xfer off r =
     (if \<not> raw_data_ready r < xfer then Some r
      else case rs of
             [] \<Rightarrow> None
           | (status, st_size) # rs' \<Rightarrow>
               raw_stat_loop rs' xfer off
                 (r\<lparr>raw_data_ready := (if status < 0 then xfer else st_size - off)\<rparr>))"

definition raw_accept :: "raw_msg \<Rightarrow> xint_raw \<Rightarrow> xint_raw" where
  "raw_accept m r =
     (let r1 = r\<lparr>raw_msg := m\<rparr>;
          r2 = (if raw_msg_last_sequence r1 = 0
                then r1\<lparr>raw_prev_loc := rm_location m, raw_prev_len := 0\<rparr> else r1)
      in if raw_msg_last_sequence r1 \<noteq> 0 \<and> rm_location m \<le> raw_prev_loc r1 then r1
         else let n = word_of_int ((rm_location m + rm_length m) - (raw_prev_loc r2 + raw_prev_len r2)) :: u64
              in r2\<lparr>raw_msg_last_sequence := raw_msg_last_sequence r2 + 1,
                    raw_data_length := n, raw_data_ready := raw_data_ready r2 + n,
                    raw_prev_loc := rm_location m, raw_prev_len := sint n\<rparr>)"

fun raw_msg_loop :: "raw_msg list \<Rightarrow> u64 \<Rightarrow> xint_raw \<Rightarrow> xint_raw option" where
  "raw_msg_loop ms xfer r =
     (if \<not> raw_data_ready r < xfer then Some r
      else case ms of [] \<Rightarrow> None | m # ms' \<Rightarrow> raw_msg_loop ms' xfer (raw_accept m r))"

definition xdd_raw_before_io_op :: "io_env \<Rightarrow> nat \<Rightarrow> xdd \<Rightarrow> xdd option" where
  "xdd_raw_before_io_op e w s =
     (if opt s TO_READAFTERWRITE \<and> opt s TO_RAW_READER
      then do {
        r \<leftarrow> td_rawp (td s);
        r' \<leftarrow> (if flag_on (raw_trigger r) RAW_STAT
               then raw_stat_loop (env_fstat e) (task_xfer_size (wd_task (wd s w)))
                      (tc_current_byte_offset (td_counters (td s))) r
               else raw_msg_loop (env_raw_msgs e) (task_xfer_size (wd_task (wd s w))) r);
        Some (on_td (\<lambda>t. t\<lparr>td_rawp := Some r'\<rparr>) s) }
      else Some s)"

text \<open>The receive call of \<open>xdd_e2e_before_io_op\<close>, and the members of the header the task takes over.\<close>

definition e2e_recv_call :: "io_env \<Rightarrow> nat \<Rightarrow> xdd \<Rightarrow> (int \<times> xdd) option" where
  "e2e_recv_call e w s =
     (if flag_on (plan_options s) PLAN_ENABLE_XNI then xint_e2e_xni_recv (env_net e) w s
      else xdd_e2e_dest_receive (env_net e) w s)"

definition task_from_header :: "xdd_e2e_header \<Rightarrow> xint_task \<Rightarrow> xint_task" where
  "task_from_header h k = k\<lparr>task_byte_offset := word_of_int (e2eh_byte_offset h),
     task_xfer_size := word_of_int (e2eh_data_length h), task_op_number := word_of_int (e2eh_sequence_number h)\<rparr>"

definition xdd_e2e_before_io_op :: "io_env \<Rightarrow> nat \<Rightarrow> xdd \<Rightarrow> (int \<times> xdd) option" where
  "xdd_e2e_before_io_op e w s =
     (if \<not> opt s TO_ENDTOEND \<or> opt s TO_E2E_SOURCE then Some (0, s)
      else if wd_e2ep (wd s w) = None then None
      else do {
        (status, s1) \<leftarrow> e2e_recv_call e w (on_wd w (\<lambda>d. d\<lparr>
           wd_e2ep := map_option (\<lambda>p. p\<lparr>e2e_data_recvd := 0\<rparr>) (wd_e2ep d),
           wd_current_state := set_flag (wd_current_state d) WORKER_CURRENT_STATE_DEST_RECEIVE\<rparr>) s);
        let s2 = on_wd w (\<lambda>d. d\<lparr>wd_current_state :=
           clear_flag (wd_current_state d) WORKER_CURRENT_STATE_DEST_RECEIVE\<rparr>) s1;
        if status = -1 then Some (-1, s2)
        else do {
          p \<leftarrow> wd_e2ep (wd s2 w);
          if e2eh_magic (e2e_hdrp p) = XDD_E2E_EOF then Some (0, s2)
          else Some (0, on_wd w (\<lambda>d. d\<lparr>wd_task := task_from_header (e2e_hdrp p) (wd_task d),
                 wd_e2ep := Some (p\<lparr>e2e_data_recvd := e2eh_data_length (e2e_hdrp p)\<rparr>)\<rparr>) s2) } })"

text \<open>
  The throttle.  The sleep time in nanoseconds is stored in a 32-bit signed variable before
  it is used.
\<close>

definition xdd_throttle_before_io_op :: "io_env \<Rightarrow> nat \<Rightarrow> xdd \<Rightarrow> xdd option" where
  "xdd_throttle_before_io_op e w s =
     (case td_throtp (td s) of
        None \<Rightarrow> Some s
      | Some th \<Rightarrow>
          if throttle th \<le> 0 then Some s
          else if flag_on (throttle_type th) XINT_THROTTLE_DELAY then Some s
          else let now = env_now e - tc_pass_start_time (wd_counters (wd s w));
                   n = unat (task_op_number (wd_task (wd s w)))
               in if length (td_seeks (td s)) \<le> n then None
                  else let due = time1 (td_seeks (td s) ! n) in
                       if now < due
                       then let sleep_time_dw = as_int32 (due - now) in
                            if 1000 < sleep_time_dw * env_clk_tck e
                            then Some (emit (Slept_Usec (sleep_time_dw div 1000)) s)
                            else Some s
                       else Some s)"

definition xdd_worker_thread_ttd_before_io_op :: "io_env \<Rightarrow> nat \<Rightarrow> xdd \<Rightarrow> (int \<times> xdd) option" where
  "xdd_worker_thread_ttd_before_io_op e w s =
     (if canceled s then Some (0, s)
      else do {
        s1 \<leftarrow> xdd_raw_before_io_op e w (s\<lparr>errno := 0\<rparr>);
        (status, s2) \<leftarrow> xdd_e2e_before_io_op e w s1;
        if status = -1 then Some (-1, s2)
        else do {
          s3 \<leftarrow> xdd_throttle_before_io_op e w (xdd_dio_before_io_op e w s2);
          Some (0, s3) } })"

subsection \<open>The operation\<close>

text \<open>Status, errno and the name of the operation, for each type of task.\<close>

definition io_result :: "io_env \<Rightarrow> u64 \<Rightarrow> xint_task \<Rightarrow> int \<Rightarrow> string \<times> int \<times> int" where
  "io_result e opts t err =
     (let done = (sint (task_xfer_size t), err);
          real = (if flag_on opts TO_NULL_TARGET then done
                  else if flag_on opts TO_SGIO then env_sg_io e t else env_io e t)
      in if task_op_type t = TASK_OP_TYPE_WRITE then (''WRITE'', real)
         else if task_op_type t = TASK_OP_TYPE_READ then (''READ'', real)
         else (''NOOP'', sint (task_xfer_size t), 0))"

text \<open>The three parts of \<open>xdd_io_for_os\<close>: the start time stamp, the operation, the end time stamp.\<close>

definition io_begin :: "io_env \<Rightarrow> nat \<Rightarrow> xdd \<Rightarrow> xdd option" where
  "io_begin e w s =
     (let s1 = on_wd w (\<lambda>d. d\<lparr>wd_counters := (wd_counters d)\<lparr>tc_current_op_start_time := env_op_start e\<rparr>\<rparr>) s
      in if ts_active s1
         then on_tte (wd_ts_entry (wd s1 w)) (\<lambda>t. t\<lparr>tte_disk_start := env_op_start e\<rparr>) s1
         else Some s1)"

definition io_perform :: "io_env \<Rightarrow> nat \<Rightarrow> xdd \<Rightarrow> xdd" where
  "io_perform e w s =
     (let (name, status, err) = io_result e (td_target_options (td s)) (wd_task (wd s w)) (errno s)
      in (on_wd w (\<lambda>d. d\<lparr>wd_task := (wd_task d)\<lparr>task_op_string := name, task_io_status := status\<rparr>,
            wd_counters := (wd_counters d)\<lparr>tc_current_op_end_time := env_op_end e\<rparr>\<rparr>) s)\<lparr>errno := err\<rparr>)"

definition io_end :: "io_env \<Rightarrow> nat \<Rightarrow> xdd \<Rightarrow> xdd option" where
  "io_end e w s =
     (if ts_active s
      then on_tte (wd_ts_entry (wd s w))
             (\<lambda>t. t\<lparr>tte_disk_end := env_op_end e,
                   tte_disk_xfer_size := as_int32 (word_of_int (task_io_status (wd_task (wd s w))))\<rparr>) s
      else Some s)"

definition xdd_io_for_os :: "io_env \<Rightarrow> nat \<Rightarrow> xdd \<Rightarrow> xdd option" where
  "xdd_io_for_os e w s = Option.bind (io_begin e w s) (\<lambda>s1. io_end e w (io_perform e w s1))"

subsection \<open>Counters\<close>

text \<open>
  The switch on the operation type that both counter updates have: elapsed time, bytes and
  number of operations of the type.
\<close>

definition count_op_type :: "int \<Rightarrow> nclk \<Rightarrow> u64 \<Rightarrow> xint_target_counters \<Rightarrow> xint_target_counters" where
  "count_op_type ty el n c =
     (if ty = TASK_OP_TYPE_READ
      then c\<lparr>tc_accumulated_read_op_time := tc_accumulated_read_op_time c + el,
             tc_accumulated_bytes_read := tc_accumulated_bytes_read c + n,
             tc_accumulated_read_op_count := tc_accumulated_read_op_count c + 1\<rparr>
      else if ty = TASK_OP_TYPE_WRITE
      then c\<lparr>tc_accumulated_write_op_time := tc_accumulated_write_op_time c + el,
             tc_accumulated_bytes_written := tc_accumulated_bytes_written c + n,
             tc_accumulated_write_op_count := tc_accumulated_write_op_count c + 1\<rparr>
      else if ty = TASK_OP_TYPE_NOOP
      then c\<lparr>tc_accumulated_noop_op_time := tc_accumulated_noop_op_time c + el,
             tc_accumulated_bytes_noop := tc_accumulated_bytes_noop c + n,
             tc_accumulated_noop_op_count := tc_accumulated_noop_op_count c + 1\<rparr>
      else c)"

definition io_good :: "xint_task \<Rightarrow> bool" where
  "io_good t \<longleftrightarrow> task_io_status t = sint (task_xfer_size t)"

definition local_counters :: "int \<Rightarrow> xint_task \<Rightarrow> xint_target_counters \<Rightarrow> xint_target_counters" where
  "local_counters err t c =
     (let el = tc_current_op_end_time c - tc_current_op_start_time c;
          c1 = c\<lparr>tc_current_op_elapsed_time := el,
                 tc_accumulated_op_time := tc_accumulated_op_time c + el,
                 tc_current_io_errno := err, tc_current_error_count := 0\<rparr>
      in if io_good t
         then let n = as_int32 (task_xfer_size t) in
              count_op_type (task_op_type t) el (word_of_int n)
                (c1\<lparr>tc_current_bytes_xfered_this_op := n,
                    tc_accumulated_bytes_xfered := tc_accumulated_bytes_xfered c1 + word_of_int n,
                    tc_accumulated_op_count := tc_accumulated_op_count c1 + 1\<rparr>)
         else c1\<lparr>tc_current_error_count := 1\<rparr>)"

definition xdd_worker_thread_update_local_counters :: "nat \<Rightarrow> xdd \<Rightarrow> xdd" where
  "xdd_worker_thread_update_local_counters w s =
     (let t = wd_task (wd s w);
          s1 = on_wd w (\<lambda>d. d\<lparr>wd_counters := local_counters (errno s) t (wd_counters d)\<rparr>) s
      in if \<not> io_good t \<and> flag_on (global_options s) GO_STOP_ON_ERROR
         then on_td (\<lambda>d. d\<lparr>td_abort := True\<rparr>) s1 else s1)"

definition target_counters :: "xint_task \<Rightarrow> xint_target_counters \<Rightarrow> xint_target_counters \<Rightarrow> xint_target_counters" where
  "target_counters t wc c =
     (let c1 = c\<lparr>tc_accumulated_op_time := tc_accumulated_op_time c + tc_current_op_elapsed_time c\<rparr>;
          c2 = (if io_good t
                then count_op_type (task_op_type t) (tc_current_op_elapsed_time wc) (task_xfer_size t)
                       (c1\<lparr>tc_accumulated_bytes_xfered := tc_accumulated_bytes_xfered c1 + task_xfer_size t,
                           tc_accumulated_op_count := tc_accumulated_op_count c1 + 1\<rparr>)
                else c1)
      in c2\<lparr>tc_current_error_count := tc_current_error_count c2 + tc_current_error_count wc\<rparr>)"

definition xdd_worker_thread_update_target_counters :: "nat \<Rightarrow> xdd \<Rightarrow> xdd" where
  "xdd_worker_thread_update_target_counters w s =
     on_td (\<lambda>d. d\<lparr>td_counters := target_counters (wd_task (wd s w)) (wd_counters (wd s w)) (td_counters d),
       td_current_bytes_completed := td_current_bytes_completed d +
         (if io_good (wd_task (wd s w)) then task_xfer_size (wd_task (wd s w)) else 0),
       td_e2ep := (case (td_e2ep d, wd_e2ep (wd s w)) of
           (Some a, Some b) \<Rightarrow> if io_good (wd_task (wd s w))
                                then Some (a\<lparr>e2e_sr_time := e2e_sr_time a + e2e_sr_time b\<rparr>) else Some a
         | (x, _) \<Rightarrow> x)\<rparr>) s"

subsection \<open>After the operation\<close>

definition xdd_threshold_after_io_op :: "nat \<Rightarrow> xdd \<Rightarrow> xdd" where
  "xdd_threshold_after_io_op w s =
     (if td_report_threshold (td s) \<noteq> 0 \<and>
         td_report_threshold (td s) < tc_current_op_elapsed_time (td_counters (td s))
      then emit (Threshold_Report w) s else s)"

text \<open>
  \<open>xdd_status_after_io_op\<close> only prints.  \<open>xdd_dio_after_io_op\<close> closes the descriptor of a
  task that could not use direct I/O; the shallow open that follows only checks the target's
  descriptor.
\<close>

definition xdd_target_shallow_open :: "xdd \<Rightarrow> int" where
  "xdd_target_shallow_open s =
     (if opt s TO_NULL_TARGET then 0 else if td_file_desc (td s) < 0 then -1 else 0)"

definition xdd_dio_after_io_op :: "io_env \<Rightarrow> nat \<Rightarrow> xdd \<Rightarrow> xdd" where
  "xdd_dio_after_io_op e w s =
     (if \<not> opt s TO_DIO \<or> opt s TO_SGIO \<or> dio_aligned e (wd_task (wd s w)) then s
      else let s1 = emit (Closed_Fd (task_file_desc (wd_task (wd s w)))) s;
               s2 = emit (Reopen_Shallow w) (on_task w (\<lambda>t. t\<lparr>task_file_desc := 0\<rparr>) s1)
           in if xdd_target_shallow_open s2 \<noteq> 0 then s2\<lparr>canceled := True\<rparr> else s2)"

definition xdd_raw_after_io_op :: "xdd \<Rightarrow> xdd option" where
  "xdd_raw_after_io_op s =
     (let st = tc_current_io_status (td_counters (td s)) in
      if 0 < st \<and> opt s TO_READAFTERWRITE
      then do {
        r \<leftarrow> td_rawp (td s);
        if opt s TO_RAW_READER
        then Some (on_td (\<lambda>t. t\<lparr>td_rawp := Some (r\<lparr>raw_data_ready := raw_data_ready r - word_of_int st\<rparr>)\<rparr>) s)
        else if flag_on (raw_trigger r) RAW_MP
        then let m = (raw_msg r)\<lparr>rm_magic := RAW_MAGIC, rm_length := st,
                       rm_location := sint (tc_current_byte_offset (td_counters (td s)))\<rparr>
             in Some (emit (Sent_Raw_Msg m) (on_td (\<lambda>t. t\<lparr>td_rawp := Some (r\<lparr>raw_msg := m\<rparr>)\<rparr>) s))
        else Some s }
      else Some s)"

definition xdd_e2e_after_io_op :: "io_env \<Rightarrow> nat \<Rightarrow> xdd \<Rightarrow> xdd option" where
  "xdd_e2e_after_io_op e w s =
     (if 0 < task_io_status (wd_task (wd s w)) \<and> opt s TO_ENDTOEND \<and> opt s TO_E2E_SOURCE
      then do {
        p \<leftarrow> wd_e2ep (wd s w);
        let s1 = on_wd w (\<lambda>d. d\<lparr>wd_e2ep := Some (p\<lparr>e2e_hdrp := (e2e_hdrp p)\<lparr>e2eh_magic := XDD_E2E_DATA_READY\<rparr>\<rparr>),
                   wd_current_state := set_flag (wd_current_state d) WORKER_CURRENT_STATE_SRC_SEND\<rparr>) s;
        (status, s2) \<leftarrow> (if flag_on (plan_options s) PLAN_ENABLE_XNI then xint_e2e_xni_send (env_net e) w s1
                          else xdd_e2e_src_send (env_net e) w s1);
        Some (on_wd w (\<lambda>d. d\<lparr>wd_current_state :=
          clear_flag (wd_current_state d) WORKER_CURRENT_STATE_SRC_SEND\<rparr>) s2) }
      else Some s)"

text \<open>The update of the extended statistics for an elapsed time and operation number.\<close>

definition stats_longest :: "seek_op \<Rightarrow> nclk \<Rightarrow> int \<Rightarrow> xint_extended_stats \<Rightarrow> xint_extended_stats" where
  "stats_longest oper el n p =
     (if \<not> my_longest_op_time p < el then p
      else let q = p\<lparr>my_longest_op_time := el, my_longest_op_number := n\<rparr> in
           case oper of
             SO_OP_WRITE \<Rightarrow> if my_longest_write_op_time q < el
               then q\<lparr>my_longest_write_op_time := el, my_longest_write_op_number := n\<rparr> else q
           | SO_OP_READ \<Rightarrow> if my_longest_read_op_time q < el
               then q\<lparr>my_longest_read_op_time := el, my_longest_read_op_number := n\<rparr> else q
           | _ \<Rightarrow> if my_longest_noop_op_time q < el
               then q\<lparr>my_longest_noop_op_time := el, my_longest_noop_op_number := n\<rparr> else q)"

definition stats_shortest :: "seek_op \<Rightarrow> nclk \<Rightarrow> int \<Rightarrow> xint_extended_stats \<Rightarrow> xint_extended_stats" where
  "stats_shortest oper el n p =
     (if \<not> el < my_shortest_op_time p then p
      else let q = p\<lparr>my_shortest_op_time := el, my_shortest_op_number := n\<rparr> in
           case oper of
             SO_OP_WRITE \<Rightarrow> if el < my_shortest_write_op_time q
               then q\<lparr>my_shortest_write_op_time := el, my_shortest_write_op_number := n\<rparr> else q
           | SO_OP_READ \<Rightarrow> if el < my_shortest_read_op_time q
               then q\<lparr>my_shortest_read_op_time := el, my_shortest_read_op_number := n\<rparr> else q
           | _ \<Rightarrow> if el < my_shortest_noop_op_time q
               then q\<lparr>my_shortest_noop_op_time := el, my_shortest_noop_op_number := n\<rparr> else q)"

text \<open>
  The operation of the seek entry is read only when one of the two records is broken, so
  the index is checked only then.
\<close>

definition xdd_extended_stats :: "xdd \<Rightarrow> xdd option" where
  "xdd_extended_stats s =
     (if \<not> flag_on (global_options s) GO_EXTENDED_STATS then Some s
      else case td_esp (td s) of
        None \<Rightarrow> Some s
      | Some p \<Rightarrow>
          let c = td_counters (td s); el = tc_current_op_elapsed_time c;
              n = unat (tc_current_op_number c)
          in if my_longest_op_time p < el \<or> el < my_shortest_op_time p
             then if n < length (td_seeks (td s))
                  then let oper = operation (td_seeks (td s) ! n);
                           num = sint (tc_current_op_number c)
                       in Some (on_td (\<lambda>t. t\<lparr>td_esp :=
                            Some (stats_shortest oper el num (stats_longest oper el num p))\<rparr>) s)
                  else None
             else Some s)"

definition xdd_worker_thread_ttd_after_io_op :: "io_env \<Rightarrow> nat \<Rightarrow> xdd \<Rightarrow> xdd option" where
  "xdd_worker_thread_ttd_after_io_op e w s =
     (if td_abort (td s) then Some s
      else do {
        s1 \<leftarrow> xdd_raw_after_io_op (xdd_dio_after_io_op e w (xdd_threshold_after_io_op w s));
        s2 \<leftarrow> xdd_e2e_after_io_op e w s1;
        xdd_extended_stats s2 })"

subsection \<open>The whole task\<close>

definition ordered :: "xdd \<Rightarrow> bool" where
  "ordered s = opt s (TO_ORDERING_STORAGE_SERIAL OR TO_ORDERING_STORAGE_LOOSE)"

definition release_next :: "nat \<Rightarrow> xdd \<Rightarrow> xdd" where
  "release_next w s = (if ordered s then emit (Release_Next_Io w) s else s)"

text \<open>\<open>e2eh_magic\<close> of the worker's header is read only on the destination side.\<close>

definition eof_packet :: "nat \<Rightarrow> xdd \<Rightarrow> bool option" where
  "eof_packet w s =
     (if opt s TO_E2E_DESTINATION
      then map_option (\<lambda>p. e2eh_magic (e2e_hdrp p) = XDD_E2E_EOF) (wd_e2ep (wd s w))
      else Some False)"

text \<open>
  The task in three parts: the operation with the counter updates and what follows, the
  wait for the previous operation, and the whole.
\<close>

definition worker_io_operate :: "io_env \<Rightarrow> nat \<Rightarrow> xdd \<Rightarrow> xdd option" where
  "worker_io_operate e w s = do {
     s1 \<leftarrow> xdd_io_for_os e w
            (on_wd w (\<lambda>d. d\<lparr>wd_current_state := set_flag (wd_current_state d) WORKER_CURRENT_STATE_IO\<rparr>) s);
     let s2 = on_wd w (\<lambda>d. d\<lparr>wd_current_state := clear_flag (wd_current_state d) WORKER_CURRENT_STATE_IO\<rparr>) s1;
     let s3 = xdd_worker_thread_update_target_counters w (xdd_worker_thread_update_local_counters w s2);
     xdd_worker_thread_ttd_after_io_op e w (release_next w s3) }"

definition wait_previous :: "nat \<Rightarrow> xdd \<Rightarrow> xdd" where
  "wait_previous w s = (if ordered s then emit (Wait_Previous_Io w) s else s)"

definition release_loose :: "nat \<Rightarrow> xdd \<Rightarrow> xdd" where
  "release_loose w s = (if opt s TO_ORDERING_STORAGE_LOOSE then emit (Release_Next_Io w) s else s)"

definition worker_io_ordered :: "io_env \<Rightarrow> nat \<Rightarrow> xdd \<Rightarrow> xdd option" where
  "worker_io_ordered e w s =
     (if canceled s \<or> xgp_abort s \<or> td_abort (td s) then Some (release_next w s)
      else worker_io_operate e w (release_loose w s))"

definition cancel_on :: "int \<Rightarrow> xdd \<Rightarrow> xdd" where
  "cancel_on status s = (if status \<noteq> 0 then s\<lparr>canceled := True\<rparr> else s)"

definition xdd_worker_thread_io :: "io_env \<Rightarrow> nat \<Rightarrow> xdd \<Rightarrow> xdd option" where
  "xdd_worker_thread_io e w s = do {
     (status, s1) \<leftarrow> xdd_worker_thread_ttd_before_io_op e w s;
     let s2 = cancel_on status s1;
     eof \<leftarrow> eof_packet w s2;
     if eof then Some (release_next w (on_sync w (\<lambda>f. set_flag f WTSYNC_EOF_RECEIVED) s2))
     else worker_io_ordered e w (wait_previous w s2) }"

subsection \<open>Byte and operation accounting\<close>

text \<open>
  Counters are balanced when the totals are the sums over the operation types.
\<close>

definition balanced :: "xint_target_counters \<Rightarrow> bool" where
  "balanced c \<longleftrightarrow>
     tc_accumulated_bytes_xfered c =
       tc_accumulated_bytes_read c + tc_accumulated_bytes_written c + tc_accumulated_bytes_noop c \<and>
     tc_accumulated_op_count c =
       tc_accumulated_read_op_count c + tc_accumulated_write_op_count c + tc_accumulated_noop_op_count c"

locale op_accounting =
  fixes update :: "'e \<Rightarrow> xint_target_counters \<Rightarrow> xint_target_counters"
    and amount :: "'e \<Rightarrow> u64"
    and valid :: "'e \<Rightarrow> bool"
  assumes update_balanced: "valid e \<Longrightarrow> balanced c \<Longrightarrow> balanced (update e c)"
    and update_bytes: "valid e \<Longrightarrow>
      tc_accumulated_bytes_xfered (update e c) = tc_accumulated_bytes_xfered c + amount e"
begin

lemma run_balanced: "\<forall>e\<in>set es. valid e \<Longrightarrow> balanced c \<Longrightarrow> balanced (fold update es c)"
  by (induction es arbitrary: c) (auto simp: update_balanced)

lemma run_bytes:
  "\<forall>e\<in>set es. valid e \<Longrightarrow>
     tc_accumulated_bytes_xfered (fold update es c) = tc_accumulated_bytes_xfered c + sum_list (map amount es)"
  by (induction es arbitrary: c) (auto simp: update_bytes algebra_simps)

end

definition op_type_ok :: "xint_task \<Rightarrow> bool" where
  "op_type_ok t \<longleftrightarrow> task_op_type t \<in> {TASK_OP_TYPE_READ, TASK_OP_TYPE_WRITE, TASK_OP_TYPE_NOOP}"

definition good_bytes :: "xint_task \<Rightarrow> u64" where
  "good_bytes t = (if io_good t then task_xfer_size t else 0)"

text \<open>A worker counts the bytes of an operation through a 32-bit signed variable.\<close>

lemma word_of_as_int32: "uint x < 2 ^ 31 \<Longrightarrow> word_of_int (as_int32 x) = x"
proof -
  assume a: "uint x < 2 ^ 31"
  have "uint (ucast x :: 32 word) = uint x" using a
    by (simp add: uint_up_ucast unsigned_ucast_eq take_bit_int_eq_self)
  moreover have "signed_take_bit 31 (uint x) = uint x"
    using a by (intro signed_take_bit_int_eq_self) (auto intro: order_trans [OF _ uint_ge_0])
  then have "sint (ucast x :: 32 word) = uint (ucast x :: 32 word)"
    using calculation by (simp add: sint_uint)
  ultimately show ?thesis by (simp add: as_int32_def)
qed

interpretation local_acc: op_accounting "\<lambda>(err, t). local_counters err t" "\<lambda>(err, t). good_bytes t"
  "\<lambda>(err, t). op_type_ok t \<and> uint (task_xfer_size t) < 2 ^ 31"
  by unfold_locales
     (auto simp: local_counters_def count_op_type_def balanced_def op_type_ok_def good_bytes_def Let_def
       word_of_as_int32)

interpretation target_acc: op_accounting "\<lambda>(t, wc). target_counters t wc" "\<lambda>(t, wc). good_bytes t"
  "\<lambda>(t, wc). op_type_ok t"
  by unfold_locales
     (auto simp: target_counters_def count_op_type_def balanced_def op_type_ok_def good_bytes_def Let_def)

subsection \<open>What a task leaves alone\<close>

text \<open>
  The members of the target that the results and the end of the pass read, and that no
  part of a task writes: the I/O status and the elapsed time of the last operation.
\<close>

definition unreported :: "xdd \<Rightarrow> int \<times> nclk \<times> int" where
  "unreported s = (tc_current_io_status (td_counters (td s)),
     tc_current_op_elapsed_time (td_counters (td s)), target_errno s)"

definition ordering_opts :: "xdd \<Rightarrow> bool \<times> bool" where
  "ordering_opts s = (ordered s, opt s TO_ORDERING_STORAGE_LOOSE)"

text \<open>The trace of \<open>s'\<close> continues that of \<open>s\<close>.\<close>

definition continues :: "xdd \<Rightarrow> xdd \<Rightarrow> bool" where
  "continues s s' \<longleftrightarrow> (\<exists>es. trace s' = trace s @ es)"

text \<open>What the search for an available worker reads.\<close>

definition locator_view :: "xdd \<Rightarrow> (nat ptr \<times> nat \<times> int) \<times> (nat \<Rightarrow> nat ptr) \<times> (nat \<Rightarrow> bool)" where
  "locator_view s = ((td_next_wdp (td s), td_queue_depth (td s), td_any_worker_thread_available (td s)),
     (\<lambda>v. wd_next_wdp (wd s v)), (\<lambda>v. busy s v))"

definition task_frame :: "xdd \<Rightarrow> xdd \<Rightarrow> bool" where
  "task_frame s s' \<longleftrightarrow> unreported s' = unreported s \<and> ordering_opts s' = ordering_opts s \<and>
     locator_view s' = locator_view s \<and> continues s s'"

lemmas task_frame_defs = task_frame_def unreported_def ordering_opts_def locator_view_def ordered_def continues_def

lemma task_frame_refl: "task_frame s s"
  by (simp add: task_frame_def continues_def)

lemma task_frame_trans: "task_frame s t \<Longrightarrow> task_frame t u \<Longrightarrow> task_frame s u"
  by (auto simp: task_frame_def continues_def)

lemma task_frame_emit: "task_frame s (emit e s)"
  by (simp add: task_frame_defs emit_def)

lemma task_frame_wd:
  assumes "wd_next_wdp (f (wd s w)) = wd_next_wdp (wd s w)"
    "flag_on (wd_worker_thread_target_sync (f (wd s w))) WTSYNC_BUSY = busy s w"
  shows "task_frame s (on_wd w f s)"
  using assms by (auto simp: task_frame_defs on_wd_def fun_eq_iff)

lemma task_frame_td:
  assumes "td_target_options (f (td s)) = td_target_options (td s)"
    "tc_current_io_status (td_counters (f (td s))) = tc_current_io_status (td_counters (td s))"
    "tc_current_op_elapsed_time (td_counters (f (td s))) = tc_current_op_elapsed_time (td_counters (td s))"
    "td_next_wdp (f (td s)) = td_next_wdp (td s)" "td_queue_depth (f (td s)) = td_queue_depth (td s)"
    "td_any_worker_thread_available (f (td s)) = td_any_worker_thread_available (td s)"
  shows "task_frame s (on_td f s)"
  using assms by (simp add: task_frame_defs on_td_def)

lemma task_frame_dio:
  assumes "flag_on TO_DIO (TO_ORDERING_STORAGE_SERIAL OR TO_ORDERING_STORAGE_LOOSE) = False"
  shows "task_frame s (xdd_dio_before_io_op e w s)"
proof -
  have d: "flag_on (set_flag (clear_flag x TO_DIO) TO_DIO) m = flag_on x m"
    if "TO_DIO AND m = 0" for x m :: u64
    using that by (simp add: flag_simps flag_on_def [of TO_DIO])
  show ?thesis
    by (auto simp: xdd_dio_before_io_op_def task_frame_defs state_simps split_beta Let_def d fun_eq_iff)
qed

lemma count_op_type_frame:
  "tc_current_io_status (count_op_type ty el n c) = tc_current_io_status c"
  "tc_current_op_elapsed_time (count_op_type ty el n c) = tc_current_op_elapsed_time c"
  "tc_current_error_count (count_op_type ty el n c) = tc_current_error_count c"
  by (simp_all add: count_op_type_def)

lemma target_counters_frame:
  "tc_current_io_status (target_counters t wc c) = tc_current_io_status c"
  "tc_current_op_elapsed_time (target_counters t wc c) = tc_current_op_elapsed_time c"
  by (simp_all add: target_counters_def count_op_type_frame Let_def)

lemma task_frame_update_target: "task_frame s (xdd_worker_thread_update_target_counters w s)"
  unfolding xdd_worker_thread_update_target_counters_def
  by (rule task_frame_td) (simp_all add: target_counters_frame)

lemma task_frame_update_local: "task_frame s (xdd_worker_thread_update_local_counters w s)"
proof -
  let ?f = "\<lambda>d. d\<lparr>wd_counters := local_counters (errno s) (wd_task (wd s w)) (wd_counters d)\<rparr>"
  have a: "task_frame (on_wd w ?f s) (on_td (\<lambda>d. d\<lparr>td_abort := True\<rparr>) (on_wd w ?f s))"
    by (rule task_frame_td) simp_all
  show ?thesis
    unfolding xdd_worker_thread_update_local_counters_def Let_def
    using task_frame_trans [OF task_frame_wd a] task_frame_wd [of ?f s w] by (simp only: if_split) simp
qed

lemma task_frame_tte: "on_tte i f s = Some s' \<Longrightarrow> task_frame s s'"
  by (auto simp: on_tte_def Let_def split: if_splits intro!: task_frame_td)

lemma task_frame_errno: "task_frame s (s\<lparr>errno := x\<rparr>)" "task_frame s (s\<lparr>canceled := b\<rparr>)"
  by (simp_all add: task_frame_defs)

lemma task_frame_raw_before: "xdd_raw_before_io_op e w s = Some s' \<Longrightarrow> task_frame s s'"
  by (auto simp: xdd_raw_before_io_op_def bind_eq_Some_conv split: if_splits
      intro!: task_frame_td task_frame_refl)

lemma on_wd_on_wd: "on_wd w g (on_wd w f s) = on_wd w (\<lambda>d. g (f d)) s"
  by (simp add: on_wd_def)

lemma task_frame_stamp: "stamp w f s = Some s' \<Longrightarrow> task_frame s s'"
  by (auto simp: stamp_def split: if_splits intro: task_frame_refl task_frame_tte)

lemma task_frame_send: "task_frame s (send_enter n w p s)" "task_frame s (send_leave n w p s)"
  unfolding send_enter_def send_leave_def by (rule task_frame_wd; simp)+

lemma task_frame_src_send:
  assumes "xdd_e2e_src_send n w s = Some (r, s')"
  shows "task_frame s s'"
proof -
  have e: "task_frame s (emit ev (send_enter n w p s))" for ev p
    by (rule task_frame_trans [OF task_frame_send(1) task_frame_emit])
  show ?thesis
    using assms
    by (auto simp: xdd_e2e_src_send_def Let_def split: option.splits send_result.splits
        intro: e task_frame_trans [OF e task_frame_trans [OF task_frame_stamp task_frame_send(2)]])
qed

lemma task_frame_eof:
  assumes "xdd_e2e_eof_source_side n w s = Some (r, s')"
  shows "task_frame s s'"
proof -
  have e: "task_frame s (emit ev (send_enter n w p s))" for ev p
    by (rule task_frame_trans [OF task_frame_send(1) task_frame_emit])
  have x: "task_frame s (on_wd w (\<lambda>d. d\<lparr>wd_e2ep := q\<rparr>) s)" for q by (rule task_frame_wd) simp_all
  show ?thesis
    using assms
    by (auto simp: xdd_e2e_eof_source_side_def Let_def split: option.splits send_result.splits if_splits
        intro: e x task_frame_trans [OF e task_frame_trans [OF task_frame_send(2) task_frame_stamp]])
qed

lemma task_frame_xni_send:
  assumes "xint_e2e_xni_send n w s = Some (r, s')"
  shows "task_frame s s'"
proof -
  have e: "task_frame s (send_enter n w p s)" "task_frame s (emit ev (send_enter n w p s))" for ev p
    by (rule task_frame_send(1), rule task_frame_trans [OF task_frame_send(1) task_frame_emit])
  show ?thesis
    using assms
    by (auto simp: xint_e2e_xni_send_def Let_def split: option.splits if_splits
        intro: task_frame_trans [OF e(1) task_frame_trans [OF task_frame_stamp task_frame_send(2)]]
          task_frame_trans [OF e(2) task_frame_trans [OF task_frame_stamp task_frame_send(2)]])
qed

lemma task_frame_xni_recv:
  assumes "xint_e2e_xni_recv n w s = Some (r, s')"
  shows "task_frame s s'"
proof -
  let ?g = "\<lambda>d. d\<lparr>wd_counters := (wd_counters d)\<lparr>tc_current_net_start_time := net_start n\<rparr>\<rparr>"
  have e: "task_frame s (on_wd w ?g s)" by (rule task_frame_wd) simp_all
  then have "task_frame s (send_leave n w p (on_wd w ?g s))" for p
    by (rule task_frame_trans [OF _ task_frame_send(2)])
  then show ?thesis
    using assms e
    by (auto simp: xint_e2e_xni_recv_def Let_def split: option.splits if_splits prod.splits
        intro: task_frame_trans [OF _ task_frame_stamp])
qed

lemma task_frame_receive_done:
  assumes "receive_done n w b p s = Some s'"
  shows "task_frame s s'"
proof -
  have c: "task_frame s (if x then on_tc (\<lambda>c. c\<lparr>tc_pass_start_time := net_end n\<rparr>) s else s)" for x
    by (simp add: task_frame_refl on_tc_def task_frame_td)
  have w: "task_frame t (on_wd w (\<lambda>d. d\<lparr>wd_e2ep := q, wd_counters := g d\<rparr>) t)" for t q g
    by (rule task_frame_wd) simp_all
  show ?thesis
    using assms unfolding receive_done_def Let_def
    by (rule task_frame_trans [OF c task_frame_trans [OF w task_frame_stamp]])
qed

lemma task_frame_receive_error:
  "xdd_e2e_dest_receive_error w p s = Some (r, s') \<Longrightarrow> task_frame s s'"
  by (auto simp: xdd_e2e_dest_receive_error_def Let_def split: if_splits
      intro!: task_frame_trans [OF task_frame_wd task_frame_emit])

lemma task_frame_dest_receive:
  assumes "xdd_e2e_dest_receive n w s = Some (r, s')"
  shows "task_frame s s'"
proof -
  obtain p rc p1 where 1: "wd_e2ep (wd s w) = Some p" "xdd_e2e_dest_connection n p = Some (rc, p1)"
    using assms by (auto simp: xdd_e2e_dest_receive_def bind_eq_Some_conv)
  define s1 where "s1 = on_wd w (\<lambda>d. d\<lparr>wd_e2ep := Some p1,
      wd_counters := (wd_counters d)\<lparr>tc_current_net_start_time := net_wait_start n\<rparr>\<rparr>) s"
  define s2 where "s2 = on_wd w (\<lambda>d. d\<lparr>wd_counters :=
      (wd_counters d)\<lparr>tc_current_net_start_time := net_started n p1\<rparr>\<rparr>) s1"
  have s1: "task_frame s s1" unfolding s1_def by (rule task_frame_wd) simp_all
  have "task_frame s1 s2" unfolding s2_def by (rule task_frame_wd) simp_all
  with s1 have s2: "task_frame s s2" by (rule task_frame_trans)
  have "s' = s1 \<or> (\<exists>q. xdd_e2e_dest_receive_error w q s2 = Some (r, s')) \<or> (\<exists>b q. receive_done n w b q s2 = Some s')"
    using assms 1
    by (auto simp: xdd_e2e_dest_receive_def s1_def [symmetric] s2_def [symmetric] Let_def bind_eq_Some_conv
        split: if_splits)
  then show ?thesis
    using s1 s2 task_frame_receive_error task_frame_receive_done task_frame_trans by blast
qed

lemma task_frame_e2e_before:
  assumes "xdd_e2e_before_io_op e w s = Some (r, s')"
  shows "task_frame s s'"
proof (cases "\<not> opt s TO_ENDTOEND \<or> opt s TO_E2E_SOURCE")
  case True
  then show ?thesis using assms by (auto simp: xdd_e2e_before_io_op_def task_frame_refl)
next
  case False
  define s0 where "s0 = on_wd w (\<lambda>d. d\<lparr>wd_e2ep := map_option (\<lambda>p. p\<lparr>e2e_data_recvd := 0\<rparr>) (wd_e2ep d),
      wd_current_state := set_flag (wd_current_state d) WORKER_CURRENT_STATE_DEST_RECEIVE\<rparr>) s"
  have s0: "task_frame s s0" unfolding s0_def by (rule task_frame_wd) simp_all
  obtain st s1 where 1: "e2e_recv_call e w s0 = Some (st, s1)"
    using assms False by (auto simp: xdd_e2e_before_io_op_def s0_def bind_eq_Some_conv split: if_splits)
  have s1: "task_frame s0 s1"
    using 1 task_frame_xni_recv task_frame_dest_receive by (auto simp: e2e_recv_call_def split: if_splits)
  define s2 where "s2 = on_wd w (\<lambda>d. d\<lparr>wd_current_state :=
      clear_flag (wd_current_state d) WORKER_CURRENT_STATE_DEST_RECEIVE\<rparr>) s1"
  have s2: "task_frame s1 s2" unfolding s2_def by (rule task_frame_wd) simp_all
  have "s' = s2 \<or> (\<exists>h q. s' = on_wd w (\<lambda>d. d\<lparr>wd_task := task_from_header h (wd_task d), wd_e2ep := q\<rparr>) s2)"
    using assms False 1
    by (auto simp: xdd_e2e_before_io_op_def s0_def [symmetric] s2_def [symmetric] Let_def bind_eq_Some_conv split: if_splits)
  moreover have "task_frame s2 (on_wd w (\<lambda>d. d\<lparr>wd_task := task_from_header h (wd_task d), wd_e2ep := q\<rparr>) s2)" for h q
    by (rule task_frame_wd) simp_all
  ultimately show ?thesis using task_frame_trans [OF s0 task_frame_trans [OF s1 s2]] task_frame_trans by blast
qed

lemma task_frame_throttle: "xdd_throttle_before_io_op e w s = Some s' \<Longrightarrow> task_frame s s'"
  by (auto simp: xdd_throttle_before_io_op_def Let_def split: if_splits option.splits
      intro: task_frame_refl task_frame_emit)

lemma task_frame_before:
  assumes "xdd_worker_thread_ttd_before_io_op e w s = Some (r, s')"
  shows "task_frame s s'"
proof (cases "canceled s")
  case True
  with assms show ?thesis by (simp add: xdd_worker_thread_ttd_before_io_op_def task_frame_refl)
next
  case False
  then obtain s1 where 1: "xdd_raw_before_io_op e w (s\<lparr>errno := 0\<rparr>) = Some s1"
    using assms by (cases "xdd_raw_before_io_op e w (s\<lparr>errno := 0\<rparr>)")
      (simp_all add: xdd_worker_thread_ttd_before_io_op_def)
  with False assms have "xdd_e2e_before_io_op e w s1 \<noteq> None"
    by (intro notI) (simp add: xdd_worker_thread_ttd_before_io_op_def)
  then obtain st s2 where 2: "xdd_e2e_before_io_op e w s1 = Some (st, s2)"
    by (metis option.exhaust surj_pair)
  have 3: "s' = s2 \<or> xdd_throttle_before_io_op e w (xdd_dio_before_io_op e w s2) = Some s'"
    using assms False 1 2
    by (cases "xdd_throttle_before_io_op e w (xdd_dio_before_io_op e w s2)")
      (simp_all add: xdd_worker_thread_ttd_before_io_op_def split: if_splits)
  have "task_frame s s2"
    by (rule task_frame_trans [OF task_frame_errno(1)
          task_frame_trans [OF task_frame_raw_before [OF 1] task_frame_e2e_before [OF 2]]])
  moreover have "task_frame s2 (xdd_dio_before_io_op e w s2)"
    by (rule task_frame_dio) (simp add: flag_on_def)
  ultimately show ?thesis using 3 task_frame_throttle [of e w "xdd_dio_before_io_op e w s2" s'] task_frame_trans
    by blast
qed

lemma task_frame_io_begin: "io_begin e w s = Some s' \<Longrightarrow> task_frame s s'"
  unfolding io_begin_def Let_def
  by (split if_split_asm, rule task_frame_trans [OF task_frame_wd task_frame_tte]) (auto intro: task_frame_wd)

lemma task_frame_io_perform: "task_frame s (io_perform e w s)"
  unfolding io_perform_def split_beta Let_def
  by (rule task_frame_trans [OF task_frame_wd task_frame_errno(1)]) simp_all

lemma task_frame_io_end: "io_end e w s = Some s' \<Longrightarrow> task_frame s s'"
  unfolding io_end_def by (metis option.inject task_frame_refl task_frame_tte)

lemma task_frame_io_for_os:
  assumes "xdd_io_for_os e w s = Some s'"
  shows "task_frame s s'"
proof -
  from assms obtain s1 where "io_begin e w s = Some s1" and "io_end e w (io_perform e w s1) = Some s'"
    unfolding xdd_io_for_os_def by (cases "io_begin e w s") simp_all
  then show ?thesis
    using task_frame_trans task_frame_io_begin task_frame_io_perform task_frame_io_end by blast
qed

lemma task_frame_threshold: "task_frame s (xdd_threshold_after_io_op w s)"
  by (simp add: xdd_threshold_after_io_op_def task_frame_emit task_frame_refl)

lemma task_frame_task: "task_frame s (on_task w f s)"
  by (simp add: on_task_def task_frame_wd)

lemma task_frame_dio_after: "task_frame s (xdd_dio_after_io_op e w s)"
proof -
  let ?s2 = "emit (Reopen_Shallow w) (on_task w (\<lambda>t. t\<lparr>task_file_desc := 0\<rparr>)
    (emit (Closed_Fd (task_file_desc (wd_task (wd s w)))) s))"
  have a: "task_frame s ?s2"
    by (rule task_frame_trans [OF task_frame_emit task_frame_trans [OF task_frame_task task_frame_emit]])
  show ?thesis
    unfolding xdd_dio_after_io_op_def Let_def
    using task_frame_refl [of s] a task_frame_trans [OF a task_frame_errno(2)] by (simp only: if_split) simp
qed

lemma task_frame_raw_after: "xdd_raw_after_io_op s = Some s' \<Longrightarrow> task_frame s s'"
  by (auto simp: xdd_raw_after_io_op_def Let_def bind_eq_Some_conv split: if_splits
      intro!: task_frame_refl task_frame_td task_frame_trans [OF task_frame_td task_frame_emit])

lemma task_frame_e2e_after:
  assumes "xdd_e2e_after_io_op e w s = Some s'"
  shows "task_frame s s'"
proof (cases "0 < task_io_status (wd_task (wd s w)) \<and> opt s TO_ENDTOEND \<and> opt s TO_E2E_SOURCE")
  case False
  then show ?thesis using assms by (auto simp: xdd_e2e_after_io_op_def task_frame_refl)
next
  case True
  then obtain p where p: "wd_e2ep (wd s w) = Some p"
    using assms by (auto simp: xdd_e2e_after_io_op_def bind_eq_Some_conv)
  define s1 where "s1 = on_wd w (\<lambda>d. d\<lparr>wd_e2ep := Some (p\<lparr>e2e_hdrp := (e2e_hdrp p)\<lparr>e2eh_magic := XDD_E2E_DATA_READY\<rparr>\<rparr>),
      wd_current_state := set_flag (wd_current_state d) WORKER_CURRENT_STATE_SRC_SEND\<rparr>) s"
  have s1: "task_frame s s1" unfolding s1_def by (rule task_frame_wd) simp_all
  obtain st s2 where 2: "(if flag_on (plan_options s) PLAN_ENABLE_XNI then xint_e2e_xni_send (env_net e) w s1
        else xdd_e2e_src_send (env_net e) w s1) = Some (st, s2)"
    and s': "s' = on_wd w (\<lambda>d. d\<lparr>wd_current_state := clear_flag (wd_current_state d) WORKER_CURRENT_STATE_SRC_SEND\<rparr>) s2"
    using assms True p unfolding s1_def by (auto simp: xdd_e2e_after_io_op_def Let_def bind_eq_Some_conv)
  have "task_frame s1 s2" using 2 task_frame_xni_send task_frame_src_send by (auto split: if_splits)
  moreover have "task_frame s2 s'" unfolding s' by (rule task_frame_wd) simp_all
  ultimately show ?thesis using task_frame_trans [OF s1] task_frame_trans by blast
qed

lemma task_frame_stats: "xdd_extended_stats s = Some s' \<Longrightarrow> task_frame s s'"
  by (auto simp: xdd_extended_stats_def Let_def split: if_splits option.splits
      intro!: task_frame_refl task_frame_td)

lemma task_frame_after:
  assumes "xdd_worker_thread_ttd_after_io_op e w s = Some s'"
  shows "task_frame s s'"
proof (cases "td_abort (td s)")
  case True
  with assms show ?thesis by (simp add: xdd_worker_thread_ttd_after_io_op_def task_frame_refl)
next
  case False
  let ?s0 = "xdd_dio_after_io_op e w (xdd_threshold_after_io_op w s)"
  obtain s1 where 1: "xdd_raw_after_io_op ?s0 = Some s1"
    using False assms by (cases "xdd_raw_after_io_op ?s0") (simp_all add: xdd_worker_thread_ttd_after_io_op_def)
  obtain s2 where 2: "xdd_e2e_after_io_op e w s1 = Some s2"
    using False assms 1 by (cases "xdd_e2e_after_io_op e w s1") (simp_all add: xdd_worker_thread_ttd_after_io_op_def)
  have 3: "xdd_extended_stats s2 = Some s'"
    using False assms 1 2 by (simp add: xdd_worker_thread_ttd_after_io_op_def)
  show ?thesis
    by (rule task_frame_trans [OF task_frame_threshold task_frame_trans [OF task_frame_dio_after
          task_frame_trans [OF task_frame_raw_after [OF 1] task_frame_trans
            [OF task_frame_e2e_after [OF 2] task_frame_stats [OF 3]]]]])
qed

text \<open>A task that ends after a release in the right place has released the next worker.\<close>

definition releases :: "nat \<Rightarrow> xdd \<Rightarrow> xdd \<Rightarrow> bool" where
  "releases w s s' \<longleftrightarrow> task_frame s s' \<and>
     (ordered s \<longrightarrow> Release_Next_Io w \<in> set (drop (length (trace s)) (trace s')))"

lemma releases_via:
  assumes "task_frame s t" and "task_frame (release_next w t) s'"
  shows "releases w s s'"
proof -
  have f: "task_frame t (release_next w t)" by (simp add: release_next_def task_frame_emit task_frame_refl)
  have o: "ordered t = ordered s" using assms(1) by (simp add: task_frame_def ordering_opts_def)
  obtain as bs where "trace t = trace s @ as" "trace s' = trace (release_next w t) @ bs"
    using assms by (auto simp: task_frame_def continues_def)
  then have "ordered s \<Longrightarrow> trace s' = trace s @ as @ [Release_Next_Io w] @ bs"
    using o by (simp add: release_next_def emit_def)
  then show ?thesis
    using task_frame_trans [OF assms(1) task_frame_trans [OF f assms(2)]] by (simp add: releases_def)
qed

lemma task_frame_events:
  "task_frame s (wait_previous w s)" "task_frame s (release_loose w s)"
  by (simp_all add: wait_previous_def release_loose_def task_frame_emit task_frame_refl)

lemma operate_releases:
  assumes "worker_io_operate e w s = Some s'"
  shows "releases w s s'"
proof -
  let ?a = "on_wd w (\<lambda>d. d\<lparr>wd_current_state := set_flag (wd_current_state d) WORKER_CURRENT_STATE_IO\<rparr>) s"
  obtain s1 where 1: "xdd_io_for_os e w ?a = Some s1"
    using assms by (cases "xdd_io_for_os e w ?a") (simp_all add: worker_io_operate_def)
  let ?b = "on_wd w (\<lambda>d. d\<lparr>wd_current_state := clear_flag (wd_current_state d) WORKER_CURRENT_STATE_IO\<rparr>) s1"
  have 2: "task_frame s (xdd_worker_thread_update_target_counters w (xdd_worker_thread_update_local_counters w ?b))"
    by (rule task_frame_trans [OF task_frame_wd task_frame_trans [OF task_frame_io_for_os [OF 1]
          task_frame_trans [OF task_frame_wd task_frame_trans [OF task_frame_update_local
            task_frame_update_target]]]]) simp_all
  have "xdd_worker_thread_ttd_after_io_op e w (release_next w (xdd_worker_thread_update_target_counters w
      (xdd_worker_thread_update_local_counters w ?b))) = Some s'"
    using assms 1 by (simp add: worker_io_operate_def Let_def)
  then show ?thesis by (rule releases_via [OF 2 task_frame_after])
qed

lemma releases_trans: "task_frame s t \<Longrightarrow> releases w t s' \<Longrightarrow> releases w s s'"
  unfolding releases_def
  by (auto simp: task_frame_def continues_def ordering_opts_def)

lemma ordered_releases:
  assumes "worker_io_ordered e w s = Some s'"
  shows "releases w s s'"
proof (cases "canceled s \<or> xgp_abort s \<or> td_abort (td s)")
  case True
  then have "s' = release_next w s" using assms by (simp add: worker_io_ordered_def)
  then show ?thesis using releases_via [OF task_frame_refl] task_frame_refl by simp
next
  case False
  then have "worker_io_operate e w (release_loose w s) = Some s'" using assms by (simp add: worker_io_ordered_def)
  then show ?thesis using releases_trans [OF task_frame_events(2) operate_releases] by simp
qed

lemma worker_io_releases:
  assumes "xdd_worker_thread_io e w s = Some s'"
  shows "releases w s s'"
proof -
  have "xdd_worker_thread_ttd_before_io_op e w s \<noteq> None"
    using assms by (intro notI) (simp add: xdd_worker_thread_io_def)
  then obtain st s1 where 1: "xdd_worker_thread_ttd_before_io_op e w s = Some (st, s1)"
    by (metis option.exhaust surj_pair)
  define s2 where "s2 = cancel_on st s1"
  have f2: "task_frame s s2"
    using task_frame_before [OF 1] task_frame_trans [OF _ task_frame_errno(2)] by (simp add: s2_def cancel_on_def)
  have rest: "Option.bind (eof_packet w s2) (\<lambda>eof. if eof
      then Some (release_next w (on_sync w (\<lambda>f. set_flag f WTSYNC_EOF_RECEIVED) s2))
      else worker_io_ordered e w (wait_previous w s2)) = Some s'"
    using assms 1 unfolding s2_def by (simp add: xdd_worker_thread_io_def Let_def)
  obtain eof where 2: "eof_packet w s2 = Some eof" using rest by (cases "eof_packet w s2") simp_all
  show ?thesis
  proof (cases eof)
    case True
    let ?t = "on_sync w (\<lambda>f. set_flag f WTSYNC_EOF_RECEIVED) s2"
    have "task_frame s2 ?t"
      unfolding on_sync_def by (rule task_frame_wd) (simp_all add: flag_simps flag_on_def [of WTSYNC_EOF_RECEIVED])
    then have "task_frame s ?t" by (rule task_frame_trans [OF f2])
    moreover have "s' = release_next w ?t" using rest 2 True by simp
    ultimately show ?thesis using releases_via task_frame_refl by blast
  next
    case False
    then have "worker_io_ordered e w (wait_previous w s2) = Some s'" using rest 2 by simp
    then show ?thesis
      by (rule releases_trans [OF task_frame_trans [OF f2 task_frame_events(1)] ordered_releases])
  qed
qed

subsection \<open>A sample environment\<close>

definition sample_env :: "int \<Rightarrow> io_env" where
  "sample_env st = \<lparr>env_now = 0, env_op_start = 100, env_op_end = 150, env_io = (\<lambda>t. (st, if st < 0 then 5 else 0)),
     env_sg_io = (\<lambda>t. (st, 0)), env_pagesize = 4096, env_open = (0, 9), env_clk_tck = 100,
     env_fstat = [], env_raw_msgs = [], env_net = sample_net []\<rparr>"

lemmas sample_simps = sample_def sample_td_def sample_wd_def sample_env_def zero_task_def zero_counters_def

definition write_task :: "u64 \<Rightarrow> u64 \<Rightarrow> xint_task" where
  "write_task off n = zero_task\<lparr>task_request := TASK_REQ_IO, task_op_type := TASK_OP_TYPE_WRITE,
     task_byte_offset := off, task_xfer_size := n, task_file_desc := 7\<rparr>"

definition sample_io :: "u64 \<Rightarrow> xdd" where
  "sample_io opts = on_task 0 (\<lambda>_. write_task 0 4) (sample 1 0 opts)"

subsection \<open>Properties\<close>

text \<open>C11: Accounting: over any sequence of tasks of the three operation types, the totals of the
  target stay the sums of the read, written and no-op counters, and grow by exactly the bytes of
  the tasks that succeeded; for transfer sizes below \<open>2 ^ 31\<close> the worker's own counters do the same.\<close>

theorem counters_account:
  assumes "\<forall>t\<in>set ts. op_type_ok t \<and> uint (task_xfer_size t) < 2 ^ 31"
    and "balanced c" and "balanced wc"
  shows "balanced (fold (\<lambda>t. target_counters t (wcs t)) ts c) \<and> balanced (fold (\<lambda>t. local_counters (err t) t) ts wc) \<and>
         tc_accumulated_bytes_xfered (fold (\<lambda>t. target_counters t (wcs t)) ts c)
           = tc_accumulated_bytes_xfered c + sum_list (map good_bytes ts) \<and>
         tc_accumulated_bytes_xfered (fold (\<lambda>t. local_counters (err t) t) ts wc)
           = tc_accumulated_bytes_xfered wc + sum_list (map good_bytes ts)"
proof -
  have t: "fold (\<lambda>t. target_counters t (wcs t)) ts c = fold (\<lambda>(t, w). target_counters t w) (map (\<lambda>t. (t, wcs t)) ts) c"
    and l: "fold (\<lambda>t. local_counters (err t) t) ts wc = fold (\<lambda>(e, t). local_counters e t) (map (\<lambda>t. (err t, t)) ts) wc"
    by (simp_all add: fold_map comp_def)
  show ?thesis
    unfolding t l
    using target_acc.run_balanced [of "map (\<lambda>t. (t, wcs t)) ts" c] target_acc.run_bytes [of "map (\<lambda>t. (t, wcs t)) ts" c]
      local_acc.run_balanced [of "map (\<lambda>t. (err t, t)) ts" wc] local_acc.run_bytes [of "map (\<lambda>t. (err t, t)) ts" wc] assms
    by (auto simp: comp_def)
qed

theorem counters_account_witness:
  "tc_accumulated_bytes_xfered (fold (\<lambda>t. target_counters t zero_counters)
     [write_task 0 4\<lparr>task_io_status := 4\<rparr>, write_task 4 4\<lparr>task_io_status := -1\<rparr>] zero_counters) = 4"
proof -
  have "balanced zero_counters" by (simp add: balanced_def zero_counters_def)
  moreover have "\<forall>t\<in>set [write_task 0 4\<lparr>task_io_status := 4\<rparr>, write_task 4 4\<lparr>task_io_status := -1\<rparr>].
      op_type_ok t \<and> uint (task_xfer_size t) < 2 ^ 31"
    by (simp add: op_type_ok_def write_task_def zero_task_def)
  ultimately show ?thesis
    using counters_account [of "[write_task 0 4\<lparr>task_io_status := 4\<rparr>, write_task 4 4\<lparr>task_io_status := -1\<rparr>]"
        zero_counters zero_counters "\<lambda>_. zero_counters" "\<lambda>_. 0"]
    by (simp add: good_bytes_def io_good_def write_task_def zero_task_def zero_counters_def)
qed

text \<open>C10: With serial or loose ordering a task that comes back has released the next worker,
  whatever happened: end of file received, run canceled or aborted, operation failed.\<close>

theorem ordering_always_released:
  assumes "xdd_worker_thread_io e w s = Some s'" and "ordered s"
  shows "Release_Next_Io w \<in> set (drop (length (trace s)) (trace s'))"
  using worker_io_releases [OF assms(1)] assms(2) by (simp add: releases_def)

theorem ordering_always_released_witness:
  "\<exists>s'. xdd_worker_thread_io (sample_env (-1)) 0 ((sample_io TO_ORDERING_STORAGE_SERIAL)\<lparr>canceled := True\<rparr>) = Some s' \<and>
     Release_Next_Io 0 \<in> set (trace s')"
proof -
  let ?s = "(sample_io TO_ORDERING_STORAGE_SERIAL)\<lparr>canceled := True\<rparr>"
  have "xdd_worker_thread_io (sample_env (-1)) 0 ?s = Some (release_next 0 (wait_previous 0 ?s))"
    by (simp add: xdd_worker_thread_io_def xdd_worker_thread_ttd_before_io_op_def eof_packet_def
        worker_io_ordered_def wait_previous_def cancel_on_def sample_io_def state_simps sample_simps flag_on_def ordered_def Let_def)
  moreover have "ordered ?s" "trace ?s = []"
    by (simp_all add: ordered_def sample_io_def state_simps sample_simps flag_on_def)
  ultimately show ?thesis using ordering_always_released [of "sample_env (-1)" 0 ?s] by auto
qed

text \<open>C29: No task changes the I/O status or the elapsed operation time in the target's counters, nor
  the target's error number, not even when its operation fails: what the end of the pass tests
  to report an I/O error is what it was before the pass.\<close>

theorem io_outcome_not_reported:
  assumes "xdd_worker_thread_io e w s = Some s'"
  shows "tc_current_io_status (td_counters (td s')) = tc_current_io_status (td_counters (td s)) \<and>
         tc_current_op_elapsed_time (td_counters (td s')) = tc_current_op_elapsed_time (td_counters (td s)) \<and>
         target_errno s' = target_errno s"
  using worker_io_releases [OF assms] by (simp add: releases_def task_frame_def unreported_def)

theorem io_outcome_not_reported_witness:
  "\<exists>s'. xdd_worker_thread_io (sample_env (-1)) 0 (sample_io 0) = Some s' \<and>
     task_io_status (wd_task (wd s' 0)) = -1 \<and> tc_current_io_status (td_counters (td s')) = 0"
proof -
  have "\<exists>s'. xdd_worker_thread_io (sample_env (-1)) 0 (sample_io 0) = Some s' \<and>
      task_io_status (wd_task (wd s' 0)) = -1"
    by (simp add: xdd_worker_thread_io_def xdd_worker_thread_ttd_before_io_op_def eof_packet_def
        xdd_raw_before_io_op_def xdd_e2e_before_io_op_def xdd_throttle_before_io_op_def xdd_dio_before_io_op_def
        worker_io_ordered_def worker_io_operate_def wait_previous_def release_loose_def release_next_def cancel_on_def
        xdd_io_for_os_def io_begin_def io_perform_def io_end_def io_result_def
        xdd_worker_thread_update_target_counters_def xdd_worker_thread_update_local_counters_def
        xdd_worker_thread_ttd_after_io_op_def xdd_raw_after_io_op_def xdd_e2e_after_io_op_def
        xdd_extended_stats_def xdd_dio_after_io_op_def xdd_threshold_after_io_op_def io_good_def
        target_counters_frame
        sample_io_def write_task_def state_simps sample_simps flag_on_def ordered_def Let_def)
  moreover have "tc_current_io_status (td_counters (td (sample_io 0))) = 0"
    by (simp add: sample_io_def state_simps sample_simps)
  ultimately show ?thesis using io_outcome_not_reported [of "sample_env (-1)" 0 "sample_io 0"] by auto
qed

text \<open>A task that cannot use direct I/O leaves the target with a closed descriptor: the
  descriptor the file was reopened with becomes that of the target, and after the operation it is
  closed while the target keeps it, and the task gets descriptor 0.\<close>

lemma unaligned_dio_closes_target_fd:
  assumes "opt s TO_DIO" and "\<not> opt s TO_SGIO" and "\<not> dio_aligned e (wd_task (wd s w))"
    and "env_open e = (0, fd)"
  shows "let s1 = xdd_dio_before_io_op e w s; s2 = xdd_dio_after_io_op e w (io_perform e w s1) in
           td_file_desc (td s2) = fd \<and> Closed_Fd fd \<in> set (trace s2) \<and>
           task_file_desc (wd_task (wd s2 w)) = 0"
proof -
  let ?s1 = "xdd_dio_before_io_op e w s"
  have t: "td_file_desc (td ?s1) = fd" "wd_task (wd ?s1 w) = (wd_task (wd s w))\<lparr>task_file_desc := fd\<rparr>"
    "opt ?s1 TO_DIO" "\<not> opt ?s1 TO_SGIO"
    using assms by (simp_all add: xdd_dio_before_io_op_def state_simps flag_simps flag_on_def [of TO_DIO])
  then have 1: "td_file_desc (td ?s1) = fd" "task_file_desc (wd_task (wd ?s1 w)) = fd"
    "opt ?s1 TO_DIO" "\<not> opt ?s1 TO_SGIO" "\<not> dio_aligned e (wd_task (wd ?s1 w))"
    using assms(3) by (simp_all add: dio_aligned_def)
  have 2: "td (io_perform e w ?s1) = td ?s1"
    "task_file_desc (wd_task (wd (io_perform e w ?s1) w)) = fd"
    "\<not> dio_aligned e (wd_task (wd (io_perform e w ?s1) w))"
    using 1 by (simp_all add: io_perform_def on_wd_def split_beta dio_aligned_def)
  show ?thesis
    using 1 2 by (simp add: xdd_dio_after_io_op_def xdd_target_shallow_open_def state_simps Let_def)
qed

lemma unaligned_dio_closes_target_fd_witness:
  "let s1 = xdd_dio_before_io_op (sample_env 4) 0 (sample_io TO_DIO);
       s2 = xdd_dio_after_io_op (sample_env 4) 0 (io_perform (sample_env 4) 0 s1) in
     td_file_desc (td s2) = 9 \<and> Closed_Fd 9 \<in> set (trace s2) \<and> task_file_desc (wd_task (wd s2 0)) = 0"
proof -
  have "opt (sample_io TO_DIO) TO_DIO" "\<not> opt (sample_io TO_DIO) TO_SGIO"
    "\<not> dio_aligned (sample_env 4) (wd_task (wd (sample_io TO_DIO) 0))" "env_open (sample_env 4) = (0, 9)"
    by (simp_all add: sample_io_def write_task_def state_simps sample_simps flag_on_def dio_aligned_def)
  from unaligned_dio_closes_target_fd [OF this] show ?thesis .
qed

text \<open>The operations-per-second and bandwidth throttle: an operation that is due in
  less than \<open>2 ^ 31\<close> nanoseconds (and more than a clock tick) waits until it is due, to the microsecond;
  one that is due later, up to \<open>2 ^ 32\<close> nanoseconds, is not delayed at all.\<close>

lemma throttle_delay_range:
  assumes "td_throtp (td s) = Some th" and "0 < throttle th"
    and "\<not> flag_on (throttle_type th) XINT_THROTTLE_DELAY"
    and "unat (task_op_number (wd_task (wd s w))) < length (td_seeks (td s))"
    and "now = env_now e - tc_pass_start_time (wd_counters (wd s w))"
    and "due = time1 (td_seeks (td s) ! unat (task_op_number (wd_task (wd s w))))"
    and "now < due" and "uint (due - now) < 2 ^ 32" and "0 < env_clk_tck e"
  shows "xdd_throttle_before_io_op e w s =
     Some (if uint (due - now) < 2 ^ 31 \<and> 1000 < uint (due - now) * env_clk_tck e
           then emit (Slept_Usec (uint (due - now) div 1000)) s else s)"
proof -
  let ?d = "uint (due - now)"
  have u: "uint (ucast (due - now) :: 32 word) = ?d"
    using assms(8) by (simp add: unsigned_ucast_eq take_bit_int_eq_self)
  have small: "as_int32 (due - now) = ?d" if "?d < 2 ^ 31"
  proof -
    have "signed_take_bit 31 ?d = ?d"
      using that by (intro signed_take_bit_int_eq_self) (auto intro: order_trans [OF _ uint_ge_0])
    then show ?thesis using u by (simp add: as_int32_def sint_uint)
  qed
  have big: "as_int32 (due - now) < 0" if "\<not> ?d < 2 ^ 31"
  proof -
    have "?d div 2147483648 = 1" using that assms(8) by simp
    then have "bit ?d 31" by (simp add: bit_iff_odd)
    then have "signed_take_bit 31 ?d < 0" by simp
    then show ?thesis using u by (simp add: as_int32_def sint_uint)
  qed
  have "\<not> 1000 < as_int32 (due - now) * env_clk_tck e" if "\<not> ?d < 2 ^ 31"
    using big [OF that] assms(9) mult_neg_pos [of "as_int32 (due - now)" "env_clk_tck e"] by linarith
  moreover have "xdd_throttle_before_io_op e w s =
      (if 1000 < as_int32 (due - now) * env_clk_tck e
       then Some (emit (Slept_Usec (as_int32 (due - now) div 1000)) s) else Some s)"
    using assms(1-4,7) by (simp add: xdd_throttle_before_io_op_def Let_def assms(5,6))
  ultimately show ?thesis using small by (cases "?d < 2 ^ 31") simp_all
qed

definition sample_throttled :: "u64 \<Rightarrow> xdd" where
  "sample_throttled due = on_td (\<lambda>t. t\<lparr>td_throtp := Some \<lparr>throttle = 1, throttle_variance = 0, throttle_type = 1\<rparr>,
     td_seeks := [\<lparr>operation = SO_OP_WRITE, reqsize = 4, block_location = 0, time1 = due, time2 = 0\<rparr>]\<rparr>) (sample_io 0)"

lemma throttle_delay_range_witness:
  "xdd_throttle_before_io_op (sample_env 4) 0 (sample_throttled 3000000000) = Some (sample_throttled 3000000000)"
  using throttle_delay_range [of "sample_throttled 3000000000" "\<lparr>throttle = 1, throttle_variance = 0, throttle_type = 1\<rparr>" 0
      0 "sample_env 4" 3000000000]
  by (simp add: sample_throttled_def sample_io_def write_task_def state_simps sample_simps flag_on_def)

end
