(* ===== verification/Worker_Locator.thy ===== *)
theory Worker_Locator
  imports Xdd_Types
begin

unbundle bit_operations_syntax

text \<open>
  How a target thread finds a worker thread for its next task
  (\<^verbatim>\<open>src/base/target_pass_wt_locator.c\<close>) and how a worker hands itself back
  (the end of the task loop of \<^verbatim>\<open>src/base/worker_thread.c\<close>).  A wait on a condition
  variable is the outcome \<open>Wait\<close> with the state the target blocks in; the \<open>resume\<close> functions
  continue it.  \<open>Exit\<close> is \<^verbatim>\<open>exit(1)\<close>, \<open>Fault\<close> the dereference of a null pointer.
\<close>

datatype locator = Got nat xdd | All_Eof xdd | Wait xdd | Exit | Fault

subsection \<open>A specific worker\<close>

definition specific_take :: "nat \<Rightarrow> xdd \<Rightarrow> locator" where
  "specific_take w s = Got w (on_sync w (\<lambda>f. set_flag f WTSYNC_BUSY) s)"

definition get_specific_worker_thread :: "nat \<Rightarrow> xdd \<Rightarrow> locator" where
  "get_specific_worker_thread q s =
     (if td_queue_depth (td s) \<le> q then Exit
      else case chain_skip (\<lambda>w. wd_next_wdp (wd s w)) (td_next_wdp (td s)) q of
             Some (Some w) \<Rightarrow>
               if busy s w
               then Wait (on_sync w (\<lambda>f. set_flag f WTSYNC_TARGET_WAITING)
                     (on_td (\<lambda>t. t\<lparr>td_current_state :=
                        set_flag (td_current_state t) TARGET_CURRENT_STATE_WAITING_THIS\<rparr>) s))
               else specific_take w s
           | _ \<Rightarrow> Fault)"

definition specific_resume :: "nat \<Rightarrow> xdd \<Rightarrow> locator" where
  "specific_resume w s =
     (if busy s w then Wait s
      else specific_take w
        (on_td (\<lambda>t. t\<lparr>td_current_state :=
           clear_flag (td_current_state t) TARGET_CURRENT_STATE_WAITING_THIS\<rparr>) s))"

subsection \<open>Any available worker\<close>

text \<open>
  The inner loop: follow the worker list until a worker is neither busy nor, on the
  destination side of an end-to-end operation, at its end of file; \<open>eof\<close> counts the latter.
\<close>

partial_function (option) scan_workers :: "xdd \<Rightarrow> nat ptr \<Rightarrow> nat \<Rightarrow> (nat ptr \<times> nat) option" where
  "scan_workers s p eof =
     (case p of
        None \<Rightarrow> Some (None, eof)
      | Some w \<Rightarrow>
          if busy s w then scan_workers s (wd_next_wdp (wd s w)) eof
          else if opt s TO_E2E_DESTINATION \<and>
                  flag_on (wd_worker_thread_target_sync (wd s w)) WTSYNC_EOF_RECEIVED
          then if Suc eof = td_queue_depth (td s) then Some (None, Suc eof)
               else scan_workers s (wd_next_wdp (wd s w)) (Suc eof)
          else Some (Some w, eof))"

definition take_available :: "xdd \<Rightarrow> xdd" where
  "take_available = on_td (\<lambda>t. t\<lparr>td_any_worker_thread_available := td_any_worker_thread_available t - 1\<rparr>)"

partial_function (option) get_any_available_worker_thread :: "xdd \<Rightarrow> locator option" where
  "get_any_available_worker_thread s =
     (if td_any_worker_thread_available (td s) \<le> 0
      then Some (Wait (on_td (\<lambda>t. t\<lparr>td_current_state :=
             set_flag (td_current_state t) TARGET_CURRENT_STATE_WAITING_ANY\<rparr>) s))
      else let s1 = take_available s in
           Option.bind (scan_workers s1 (td_next_wdp (td s1)) 0)
             (\<lambda>r. case fst r of
                Some w \<Rightarrow> Some (Got w (on_sync w (\<lambda>f. set_flag f WTSYNC_BUSY) s1))
              | None \<Rightarrow> if snd r = td_queue_depth (td s1) then Some (All_Eof s1)
                        else get_any_available_worker_thread s1))"

definition any_resume :: "xdd \<Rightarrow> locator option" where
  "any_resume s = get_any_available_worker_thread
     (on_td (\<lambda>t. t\<lparr>td_current_state :=
        clear_flag (td_current_state t) TARGET_CURRENT_STATE_WAITING_ANY\<rparr>) s)"

subsection \<open>The worker hands itself back\<close>

definition worker_available :: "nat \<Rightarrow> xdd \<Rightarrow> xdd" where
  "worker_available w s =
     on_td (\<lambda>t. t\<lparr>td_any_worker_thread_available := td_any_worker_thread_available t + 1\<rparr>)
       (on_sync w (\<lambda>f. let f1 = clear_flag f WTSYNC_BUSY in
                       if flag_on f1 WTSYNC_TARGET_WAITING then clear_flag f1 WTSYNC_TARGET_WAITING else f1) s)"

subsection \<open>The scan finds the first candidate\<close>

definition at_eof :: "xdd \<Rightarrow> nat \<Rightarrow> bool" where
  "at_eof s w \<longleftrightarrow> \<not> busy s w \<and> opt s TO_E2E_DESTINATION \<and>
     flag_on (wd_worker_thread_target_sync (wd s w)) WTSYNC_EOF_RECEIVED"

definition candidate :: "xdd \<Rightarrow> nat \<Rightarrow> bool" where
  "candidate s w \<longleftrightarrow> \<not> busy s w \<and> \<not> at_eof s w"

lemma scan_finds:
  assumes "chain (\<lambda>w. wd_next_wdp (wd s w)) p ws None"
    and "eof + length ws \<le> td_queue_depth (td s)"
  shows "scan_workers s p eof =
    Some (find (candidate s) ws, eof + length (filter (at_eof s) (takeWhile (\<lambda>w. \<not> candidate s w) ws)))"
  using assms
proof (induction ws arbitrary: p eof)
  case Nil
  then show ?case by (simp add: scan_workers.simps)
next
  case (Cons w ws)
  then have p: "p = Some w" and c: "chain (\<lambda>w. wd_next_wdp (wd s w)) (wd_next_wdp (wd s w)) ws None" by auto
  consider "busy s w" | "at_eof s w" | "candidate s w" by (auto simp: candidate_def)
  then show ?case
  proof cases
    case 1
    then have "\<not> candidate s w" "\<not> at_eof s w" by (auto simp: candidate_def at_eof_def)
    with 1 Cons.IH [OF c, of eof] Cons.prems p show ?thesis
      by (simp add: scan_workers.simps [of s "Some w"])
  next
    case 2
    then have e: "\<not> busy s w" "opt s TO_E2E_DESTINATION"
      "flag_on (wd_worker_thread_target_sync (wd s w)) WTSYNC_EOF_RECEIVED" "\<not> candidate s w"
      by (auto simp: at_eof_def candidate_def)
    show ?thesis
    proof (cases "Suc eof = td_queue_depth (td s)")
      case True
      with Cons.prems have "ws = []" by (cases ws) auto
      with True e 2 p show ?thesis by (simp add: scan_workers.simps [of s "Some w"])
    next
      case False
      have "Suc eof + length ws \<le> td_queue_depth (td s)" using Cons.prems by simp
      from Cons.IH [OF c this] False e 2 p show ?thesis by (simp add: scan_workers.simps [of s "Some w"])
    qed
  next
    case 3
    then have "\<not> busy s w" "\<not> (opt s TO_E2E_DESTINATION \<and>
        flag_on (wd_worker_thread_target_sync (wd s w)) WTSYNC_EOF_RECEIVED)"
      by (auto simp: candidate_def at_eof_def)
    with 3 p show ?thesis by (auto simp: scan_workers.simps [of s "Some w"])
  qed
qed

lemma take_available_frame:
  "wd (take_available s) = wd s" "td_target_options (td (take_available s)) = td_target_options (td s)"
  "td_next_wdp (td (take_available s)) = td_next_wdp (td s)"
  "td_queue_depth (td (take_available s)) = td_queue_depth (td s)"
  "td_any_worker_thread_available (td (take_available s)) = td_any_worker_thread_available (td s) - 1"
  by (simp_all add: take_available_def on_td_def)

lemma take_available_candidate:
  "candidate (take_available s) = candidate s" "at_eof (take_available s) = at_eof s"
  by (auto simp: fun_eq_iff candidate_def at_eof_def take_available_frame)

lemma workers_take: "workers (take_available s) ws = workers s ws"
  by (simp add: workers_def take_available_frame)

lemma scan_take:
  assumes "workers s ws"
  shows "scan_workers (take_available s) (td_next_wdp (td (take_available s))) 0 =
    Some (find (candidate s) ws, length (filter (at_eof s) (takeWhile (\<lambda>w. \<not> candidate s w) ws)))"
  using scan_finds [of "take_available s" "td_next_wdp (td s)" ws 0] assms
  by (simp add: workers_def take_available_frame take_available_candidate)

text \<open>
  The complete behaviour of \<open>get_any_available_worker_thread\<close>: what it returns as a function
  of the worker list.
\<close>

definition flag_waiting_any :: "xdd \<Rightarrow> xdd" where
  "flag_waiting_any = on_td (\<lambda>t. t\<lparr>td_current_state :=
     set_flag (td_current_state t) TARGET_CURRENT_STATE_WAITING_ANY\<rparr>)"

definition drain_available :: "xdd \<Rightarrow> xdd" where
  "drain_available = on_td (\<lambda>t. t\<lparr>td_any_worker_thread_available := 0\<rparr>)"

definition locate_spec :: "nat list \<Rightarrow> xdd \<Rightarrow> locator" where
  "locate_spec ws s =
     (if td_any_worker_thread_available (td s) \<le> 0 then Wait (flag_waiting_any s)
      else case find (candidate s) ws of
             Some w \<Rightarrow> Got w (on_sync w (\<lambda>f. set_flag f WTSYNC_BUSY) (take_available s))
           | None \<Rightarrow> if \<forall>w\<in>set ws. at_eof s w then All_Eof (take_available s)
                     else Wait (flag_waiting_any (drain_available s)))"

lemma drain_take: "drain_available (take_available s) = drain_available s"
  by (simp add: drain_available_def take_available_def on_td_def)

lemma drain_zero: "td_any_worker_thread_available (td s) = 0 \<Longrightarrow> drain_available s = s"
  by (simp add: drain_available_def on_td_def)

lemma all_eof_count:
  "length ws = n \<Longrightarrow> length (filter P ws) = n \<longleftrightarrow> (\<forall>w\<in>set ws. P w)"
  by (metis filter_True length_filter_less less_irrefl)

lemma get_any_spec:
  assumes "workers s ws"
  shows "get_any_available_worker_thread s = Some (locate_spec ws s)"
  using assms
proof (induction "nat (td_any_worker_thread_available (td s))" arbitrary: s rule: less_induct)
  case less
  show ?case
  proof (cases "td_any_worker_thread_available (td s) \<le> 0")
    case True
    then show ?thesis
      by (simp add: get_any_available_worker_thread.simps [of s] locate_spec_def flag_waiting_any_def)
  next
    case False
    let ?s1 = "take_available s"
    note scan = scan_take [OF less.prems]
    show ?thesis
    proof (cases "find (candidate s) ws")
      case (Some w)
      with False scan show ?thesis
        by (simp add: get_any_available_worker_thread.simps [of s] locate_spec_def Let_def)
    next
      case None
      then have "takeWhile (\<lambda>w. \<not> candidate s w) ws = ws"
        by (simp add: find_None_iff)
      with scan None have sc: "scan_workers ?s1 (td_next_wdp (td ?s1)) 0 =
          Some (None, length (filter (at_eof s) ws))" by simp
      have len: "length ws = td_queue_depth (td s)" using less.prems by (simp add: workers_def)
      show ?thesis
      proof (cases "\<forall>w\<in>set ws. at_eof s w")
        case True
        with False None sc len show ?thesis
          by (simp add: get_any_available_worker_thread.simps [of s] locate_spec_def Let_def
              take_available_frame)
      next
        case no: False
        then have "length (filter (at_eof s) ws) \<noteq> td_queue_depth (td s)"
          using all_eof_count [OF len, of "at_eof s"] by simp
        then have "get_any_available_worker_thread s = get_any_available_worker_thread ?s1"
          using False sc
          by (simp add: get_any_available_worker_thread.simps [of s] Let_def take_available_frame)
        also have "\<dots> = Some (locate_spec ws ?s1)"
          using less.hyps [of ?s1] less.prems False by (simp add: workers_take take_available_frame)
        also have "locate_spec ws ?s1 = locate_spec ws s"
          using False None no drain_take [of s] drain_zero [of ?s1]
          by (auto simp: locate_spec_def take_available_frame take_available_candidate)
        finally show ?thesis .
      qed
    qed
  qed
qed

subsection \<open>The availability count\<close>

text \<open>
  The count of available workers never falls below the number of workers the locator could
  return, so the locator does not wait while there is one.
\<close>

definition avail_inv :: "nat list \<Rightarrow> xdd \<Rightarrow> bool" where
  "avail_inv ws s \<longleftrightarrow> workers s ws \<and>
     int (length (filter (candidate s) ws)) \<le> td_any_worker_thread_available (td s)"

lemma on_sync_frame:
  "td (on_sync w f s) = td s"
  "wd_next_wdp (wd (on_sync w f s) v) = wd_next_wdp (wd s v)"
  "wd_worker_thread_target_sync (wd (on_sync w f s) v) =
     (if v = w then f (wd_worker_thread_target_sync (wd s v)) else wd_worker_thread_target_sync (wd s v))"
  by (simp_all add: on_sync_def on_wd_def)

lemma workers_on_sync: "workers (on_sync w f s) ws = workers s ws"
  by (simp add: workers_def on_sync_frame)

lemma candidate_on_sync: "v \<noteq> w \<Longrightarrow> candidate (on_sync w f s) v = candidate s v"
  by (simp add: candidate_def at_eof_def on_sync_frame)

lemma filter_one_less:
  assumes "distinct ws" "w \<in> set ws" "P w" "\<not> Q w" "\<And>v. v \<noteq> w \<Longrightarrow> Q v = P v"
  shows "length (filter P ws) = Suc (length (filter Q ws))"
proof -
  obtain as bs where ws: "ws = as @ w # bs" by (meson assms(2) split_list)
  then have "w \<notin> set as \<union> set bs" using assms(1) by auto
  then have "filter Q as = filter P as" "filter Q bs = filter P bs"
    using assms(5) by (metis (no_types, lifting) UnI1 UnI2 filter_cong)+
  with ws assms(3,4) show ?thesis by simp
qed

lemma filter_at_most_one_more:
  assumes "distinct ws" "\<And>v. v \<noteq> w \<Longrightarrow> Q v = P v"
  shows "length (filter Q ws) \<le> Suc (length (filter P ws))"
proof (cases "w \<in> set ws \<and> Q w \<and> \<not> P w")
  case True
  then show ?thesis using filter_one_less [of ws w Q P] assms by auto
next
  case False
  have "set (filter Q ws) \<subseteq> set (filter P ws)" using False assms(2) by (metis (mono_tags, lifting) mem_Collect_eq set_filter subsetI)
  then show ?thesis
    using assms(1) by (metis card_mono distinct_card distinct_filter finite_set le_SucI)
qed

lemma avail_inv_take:
  assumes "avail_inv ws s" "find (candidate s) ws = Some w"
  shows "avail_inv ws (on_sync w (\<lambda>f. set_flag f WTSYNC_BUSY) (take_available s))"
proof -
  let ?t = "on_sync w (\<lambda>f. set_flag f WTSYNC_BUSY) (take_available s)"
  have w: "w \<in> set ws" "candidate s w" using assms(2) by (auto simp: find_Some_iff)
  have "\<not> candidate ?t w"
    by (simp add: candidate_def on_sync_frame flag_simps flag_on_def [of WTSYNC_BUSY])
  moreover have "candidate ?t v = candidate s v" if "v \<noteq> w" for v
    using that by (simp add: candidate_on_sync take_available_candidate)
  ultimately have "length (filter (candidate s) ws) = Suc (length (filter (candidate ?t) ws))"
    using w assms(1) by (intro filter_one_less [of ws w]) (auto simp: avail_inv_def workers_distinct)
  with assms(1) show ?thesis
    by (simp add: avail_inv_def workers_on_sync workers_take on_sync_frame take_available_frame)
qed

lemma avail_inv_back:
  assumes "avail_inv ws s"
  shows "avail_inv ws (worker_available w s)"
proof -
  define t where "t = on_sync w (\<lambda>f. let f1 = clear_flag f WTSYNC_BUSY in
    if flag_on f1 WTSYNC_TARGET_WAITING then clear_flag f1 WTSYNC_TARGET_WAITING else f1) s"
  have a: "worker_available w s = on_td (\<lambda>t. t\<lparr>td_any_worker_thread_available :=
      td_any_worker_thread_available t + 1\<rparr>) t"
    by (simp add: worker_available_def t_def)
  have "workers t ws" using assms by (simp add: t_def workers_on_sync avail_inv_def)
  then have "workers (worker_available w s) ws" by (simp add: a workers_def on_td_def)
  moreover have "candidate (worker_available w s) = candidate t"
    by (auto simp: fun_eq_iff candidate_def at_eof_def a on_td_def)
  moreover have "length (filter (candidate t) ws) \<le> Suc (length (filter (candidate s) ws))"
    using assms by (intro filter_at_most_one_more [of _ w])
      (auto simp: avail_inv_def workers_distinct t_def candidate_on_sync)
  moreover have "td_any_worker_thread_available (td (worker_available w s))
      = td_any_worker_thread_available (td s) + 1"
    by (simp add: a on_td_def t_def on_sync_frame)
  ultimately show ?thesis using assms by (simp add: avail_inv_def)
qed

subsection \<open>Properties\<close>





text \<open>Asking for a specific worker within the queue depth finds the worker at that
  position of the list; a busy worker is waited for, and once it has handed itself back the target gets
  it, marked busy again.\<close>

lemma get_specific_worker:
  assumes "workers s ws" and "q < td_queue_depth (td s)"
  shows "if busy s (ws ! q)
         then (\<exists>s1. get_specific_worker_thread q s = Wait s1 \<and> specific_resume (ws ! q) s1 = Wait s1 \<and>
                (\<exists>s2. specific_resume (ws ! q) (worker_available (ws ! q) s1) = Got (ws ! q) s2 \<and>
                      busy s2 (ws ! q) \<and>
                      td_any_worker_thread_available (td s2) = td_any_worker_thread_available (td s) + 1))
         else \<exists>s2. get_specific_worker_thread q s = Got (ws ! q) s2 \<and> busy s2 (ws ! q)"
proof -
  have c: "chain_skip (\<lambda>w. wd_next_wdp (wd s w)) (td_next_wdp (td s)) q = Some (Some (ws ! q))"
    using assms chain_skip_nth [of "\<lambda>w. wd_next_wdp (wd s w)"] by (simp add: workers_def)
  show ?thesis
    using assms(2) c
    by (auto simp: get_specific_worker_thread_def specific_resume_def specific_take_def
        worker_available_def on_sync_def on_wd_def on_td_def Let_def flag_simps
        flag_on_def [of WTSYNC_BUSY] flag_on_def [of WTSYNC_TARGET_WAITING])
qed


lemma get_specific_worker_witness:
  "\<exists>s2. get_specific_worker_thread 1 (sample 2 2 0) = Got 1 s2 \<and> busy s2 1"
proof -
  have "workers (sample 2 2 0) [0, 1]" and "\<not> busy (sample 2 2 0) ([0, 1] ! 1)"
    by (simp_all add: workers_def sample_def sample_td_def sample_wd_def flag_on_def)
  then show ?thesis
    using get_specific_worker [of "sample 2 2 0" "[0, 1]" 1] by (simp add: sample_def sample_td_def)
qed
end
