(* ===== verification/Target_Pass.thy ===== *)
theory Target_Pass
  imports Worker_Io Worker_Locator Chunking
begin

unbundle bit_operations_syntax

text \<open>
  One pass of a target: what the target thread does before each operation
  (\<^verbatim>\<open>src/base/target_ttd_before_io_op.c\<close>), the set-up of a task and the loops that hand
  tasks to workers (\<^verbatim>\<open>src/base/target_pass.c\<close>, \<^verbatim>\<open>target_pass_e2e_specific.c\<close>) and the task
  loop of a worker (\<^verbatim>\<open>worker_thread.c\<close>).  The loops and the workers are one step relation
  over a state with a program counter for the target thread and one for each worker.  The
  clock is a parameter; \<open>None\<close> is an access outside an array.
\<close>

abbreviation (input) TRIGGER_STARTTIME :: u32 where "TRIGGER_STARTTIME \<equiv> 1"
abbreviation (input) TRIGGER_STARTOP :: u32 where "TRIGGER_STARTOP \<equiv> 2"
abbreviation (input) TRIGGER_STARTBYTES :: u32 where "TRIGGER_STARTBYTES \<equiv> 8"

subsection \<open>Before an operation\<close>

definition xdd_syncio_before_io_op :: "xdd \<Rightarrow> xdd" where
  "xdd_syncio_before_io_op s =
     (if 0 < syncio s \<and> 1 < number_of_targets s \<and>
         uint (tc_current_op_number (td_counters (td s))) mod syncio s = 0
      then emit Enter_Syncio_Barrier s else s)"

text \<open>
  The triggers: wait for the start trigger of this target, then start the other target when
  a condition holds; each condition that holds enters the other target's barrier.
\<close>

definition trigger_fire :: "bool \<Rightarrow> nat \<Rightarrow> xdd \<Rightarrow> xdd" where
  "trigger_fire c t s = (if c then emit (Enter_Starttrigger_Barrier t) s else s)"

definition xdd_start_trigger_before_io_op :: "nclk \<Rightarrow> xdd \<Rightarrow> xdd" where
  "xdd_start_trigger_before_io_op now s =
     (case td_trigp (td s) of
        None \<Rightarrow> s
      | Some p \<Rightarrow>
          let s1 = (if opt s TO_WAITFORSTART \<and> \<not> run_status p
                    then on_td (\<lambda>t. t\<lparr>td_trigp := Some (p\<lparr>run_status := True\<rparr>)\<rparr>)
                           (emit Wait_For_Start_Trigger s)
                    else s);
              t2 = start_trigger_target p; c = td_counters (td s1)
          in if trigger_types p = 0 \<or> run_status (other_trigp s1 t2) then s1
             else trigger_fire (flag_on (trigger_types p) TRIGGER_STARTBYTES \<and>
                                start_trigger_bytes p < td_current_bytes_completed (td s1)) t2
                    (trigger_fire (flag_on (trigger_types p) TRIGGER_STARTOP \<and>
                                   start_trigger_op p < tc_current_op_number c) t2
                      (trigger_fire (flag_on (trigger_types p) TRIGGER_STARTTIME \<and>
                                     start_trigger_time p + tc_pass_start_time c < now) t2 s1)))"

definition xdd_timelimit_before_io_op :: "nclk \<Rightarrow> xdd \<Rightarrow> int \<times> xdd" where
  "xdd_timelimit_before_io_op now s =
     (if td_time_limit_ticks (td s) \<noteq> 0 \<and>
         td_time_limit_ticks (td s) \<le> now - tc_pass_start_time (td_counters (td s))
      then (XDD_RC_BAD, on_td (\<lambda>t. t\<lparr>td_time_limit_expired := True\<rparr>) s)
      else (XDD_RC_GOOD, s))"

definition xdd_runtime_before_io_op :: "nclk \<Rightarrow> xdd \<Rightarrow> int \<times> xdd" where
  "xdd_runtime_before_io_op now s =
     (if run_time_ticks s \<noteq> 0 \<and> run_time_ticks s \<le> now - run_start_time s
      then (XDD_RC_BAD, s\<lparr>run_time_expired := True\<rparr>)
      else (XDD_RC_GOOD, s))"

definition seek_offset :: "xdd \<Rightarrow> nat \<Rightarrow> u64" where
  "seek_offset s i =
     (word_of_int (td_target_number (td s)) * target_offset s + block_location (td_seeks (td s) ! i))
       * word_of_int (td_block_size (td s))"

definition seek_index :: "xdd \<Rightarrow> nat" where
  "seek_index s = (if flag_on (td_seek_options (td s)) SO_SEEK_NONE then 0
                   else unat (tc_current_op_number (td_counters (td s))))"

definition locate_op :: "xdd \<Rightarrow> xdd option" where
  "locate_op s =
     (if seek_index s < length (td_seeks (td s))
      then Some (on_tc (\<lambda>c. c\<lparr>tc_current_byte_offset := seek_offset s (seek_index s)\<rparr>) s)
      else None)"

definition stopped :: "xdd \<Rightarrow> bool" where
  "stopped s \<longleftrightarrow> canceled s \<or> xgp_abort s \<or> td_abort (td s)"

text \<open>The checks before the operation is located, and the checks after.\<close>

definition ttd_limits :: "nclk \<Rightarrow> xdd \<Rightarrow> int \<times> xdd" where
  "ttd_limits now s =
     (let r = xdd_timelimit_before_io_op now (xdd_start_trigger_before_io_op now (xdd_syncio_before_io_op s))
      in if fst r \<noteq> XDD_RC_GOOD then r else xdd_runtime_before_io_op now (snd r))"

definition ttd_checks :: "nat \<Rightarrow> xdd \<Rightarrow> int \<times> xdd" where
  "ttd_checks w s =
     (let s1 = (if flag_on (global_options s) GO_INTERACTIVE then emit Enter_Interactive_Barrier s else s) in
      if td_time_limit_expired (td s1) \<or> run_time_expired s1 then (XDD_RC_BAD, s1)
      else if stopped s1 then (XDD_RC_BAD, on_sync w (\<lambda>f. clear_flag f WTSYNC_BUSY) s1)
      else (XDD_RC_GOOD, s1))"

definition xdd_target_ttd_before_io_op :: "nclk \<Rightarrow> nat \<Rightarrow> xdd \<Rightarrow> (int \<times> xdd) option" where
  "xdd_target_ttd_before_io_op now w s =
     (let r = ttd_limits now s in
      if fst r \<noteq> XDD_RC_GOOD then Some r
      else map_option (ttd_checks w) (locate_op ((snd r)\<lparr>errno := 0\<rparr>)))"

subsection \<open>Setting up a task\<close>

text \<open>The assignment of a time stamp entry to a worker, with the members \<open>fill\<close> writes.\<close>

definition ts_advance :: "xint_timestamp \<Rightarrow> xint_timestamp" where
  "ts_advance t =
     (let t1 = t\<lparr>ts_current_entry := Suc (ts_current_entry t)\<rparr> in
      if flag_on (ts_options t1) TS_ONESHOT
      then if ts_current_entry t1 = ts_size t1 then t1\<lparr>ts_options := clear_flag (ts_options t1) TS_ON\<rparr> else t1
      else if flag_on (ts_options t1) TS_WRAP then t1\<lparr>ts_current_entry := 0\<rparr>
      else t1)"

definition ts_assign :: "nat \<Rightarrow> (xdd_ts_tte \<Rightarrow> xdd_ts_tte) \<Rightarrow> xdd \<Rightarrow> xdd option" where
  "ts_assign w fill s =
     (if ts_active s
      then let i = ts_current_entry (td_ts_table (td s));
               s1 = on_wd w (\<lambda>d. d\<lparr>wd_ts_entry := i\<rparr>) s;
               s2 = on_td (\<lambda>t. t\<lparr>td_ts_table := ts_advance (td_ts_table t)\<rparr>) s1
           in on_tte i (\<lambda>e. fill (e\<lparr>tte_pass_number := tc_pass_number (td_counters (td s2)),
                  tte_worker_thread_number := wd_worker_number (wd s2 w),
                  tte_thread_id := wd_thread_id (wd s2 w)\<rparr>)) s2
      else Some s)"

definition op_type_of :: "seek_op \<Rightarrow> int \<times> string" where
  "op_type_of oper = (case oper of SO_OP_WRITE \<Rightarrow> (TASK_OP_TYPE_WRITE, ''WRITE'')
                                 | SO_OP_READ \<Rightarrow> (TASK_OP_TYPE_READ, ''READ'')
                                 | _ \<Rightarrow> (TASK_OP_TYPE_NOOP, ''NOOP''))"

definition xfer_size_of :: "xint_target_data \<Rightarrow> u64" where
  "xfer_size_of t = (if td_current_bytes_remaining t < word_of_int (td_xfer_size t)
                     then td_current_bytes_remaining t else word_of_int (td_xfer_size t))"

text \<open>The task of the next operation, and the target's counters after it.\<close>

definition next_task :: "xint_target_data \<Rightarrow> xint_task \<Rightarrow> xint_task" where
  "next_task t k =
     (let (ty, name) = op_type_of (operation (td_seeks t ! unat (tc_current_op_number (td_counters t))))
      in k\<lparr>task_request := TASK_REQ_IO, task_file_desc := td_file_desc t, task_op_type := ty,
           task_op_string := name, task_xfer_size := xfer_size_of t,
           task_byte_offset := tc_current_byte_offset (td_counters t),
           task_op_number := tc_current_op_number (td_counters t)\<rparr>)"

definition advance_target :: "u64 \<Rightarrow> xint_target_data \<Rightarrow> xint_target_data" where
  "advance_target n t = t\<lparr>td_counters := (td_counters t)\<lparr>
       tc_current_byte_offset := tc_current_byte_offset (td_counters t) + n,
       tc_current_op_number := tc_current_op_number (td_counters t) + 1\<rparr>,
     td_current_bytes_issued := td_current_bytes_issued t + n,
     td_current_bytes_remaining := td_current_bytes_remaining t - n\<rparr>"

definition stamp_task :: "xint_task \<Rightarrow> xdd_ts_tte \<Rightarrow> xdd_ts_tte" where
  "stamp_task k e = e\<lparr>tte_op_type := task_op_type k, tte_op_number := sint (task_op_number k),
     tte_byte_offset := sint (task_byte_offset k)\<rparr>"

definition xdd_target_pass_task_setup :: "nat \<Rightarrow> xdd \<Rightarrow> xdd option" where
  "xdd_target_pass_task_setup w s =
     (if unat (tc_current_op_number (td_counters (td s))) < length (td_seeks (td s))
      then let s1 = on_task w (next_task (td s)) s; k = wd_task (wd s1 w)
           in map_option (on_td (advance_target (task_xfer_size k))) (ts_assign w (stamp_task k) s1)
      else None)"

text \<open>
  The end-to-end source adds the message sequence numbers and clears the status of the
  task.  The monitor only prints; its percentage divides by the number of operations.
\<close>

definition xdd_targetpass_e2e_task_setup_src :: "nat \<Rightarrow> xdd \<Rightarrow> xdd option" where
  "xdd_targetpass_e2e_task_setup_src w s =
     (case (td_e2ep (td s), wd_e2ep (wd s w)) of
        (Some te, Some we) \<Rightarrow>
          if unat (tc_current_op_number (td_counters (td s))) < length (td_seeks (td s))
          then let s1 = on_td (\<lambda>t. t\<lparr>td_e2ep := Some (te\<lparr>e2e_msg_sequence_number := e2e_msg_sequence_number te + 1\<rparr>)\<rparr>)
                     (on_wd w (\<lambda>d. d\<lparr>wd_task := (next_task (td s) (wd_task d))\<lparr>task_io_status := 0, task_errno := 0\<rparr>,
                        wd_e2ep := Some (we\<lparr>e2e_msg_sequence_number := e2e_msg_sequence_number te\<rparr>)\<rparr>) s);
                   k = wd_task (wd s1 w)
               in map_option (on_td (advance_target (task_xfer_size k))) (ts_assign w (stamp_task k) s1)
          else None
      | _ \<Rightarrow> None)"

definition e2e_task_setup_dst :: "nat \<Rightarrow> xdd \<Rightarrow> xdd option" where
  "e2e_task_setup_dst w s =
     (let s1 = on_task w (\<lambda>k. k\<lparr>task_file_desc := td_file_desc (td s), task_request := TASK_REQ_IO,
                 task_op_type := TASK_OP_TYPE_WRITE,
                 task_op_number := tc_current_op_number (td_counters (td s)),
                 task_byte_offset := -1, task_xfer_size := -1, task_io_status := -1, task_errno := 0\<rparr>) s
      in ts_assign w (\<lambda>e. e\<lparr>tte_op_type := TASK_OP_TYPE_WRITE, tte_op_number := -1, tte_byte_offset := -1,
                          tte_disk_xfer_size := 0, tte_net_xfer_size := 0\<rparr>) s1)"

definition e2e_task_setup_eof :: "nat \<Rightarrow> xdd \<Rightarrow> xdd option" where
  "e2e_task_setup_eof w s =
     ts_assign w (\<lambda>e. e\<lparr>tte_op_type := TASK_OP_TYPE_EOF,
                       tte_op_number := - wd_worker_number (wd s w), tte_byte_offset := -1\<rparr>)
       (on_task w (\<lambda>k. k\<lparr>task_request := TASK_REQ_EOF\<rparr>) s)"

subsection \<open>The tasks of a pass tile the transfer\<close>

text \<open>
  The body of the loops of \<open>xdd_target_pass_loop\<close> and \<open>xdd_targetpass_e2e_loop_src\<close> for a given
  worker: what is done before an operation, then the set-up of its task.
\<close>

definition issue_with :: "(nat \<Rightarrow> xdd \<Rightarrow> xdd option) \<Rightarrow> nclk \<Rightarrow> nat \<Rightarrow> xdd \<Rightarrow> (chunk \<times> xdd) option" where
  "issue_with setup now w s =
     (if td_current_bytes_remaining (td s) = 0 then None
      else case xdd_target_ttd_before_io_op now w s of
        None \<Rightarrow> None
      | Some (st, s1) \<Rightarrow>
          if st \<noteq> XDD_RC_GOOD then None
          else case setup w s1 of
            None \<Rightarrow> None
          | Some s2 \<Rightarrow> Some ((uint (task_byte_offset (wd_task (wd s2 w))),
                              uint (task_xfer_size (wd_task (wd s2 w)))), s2))"

text \<open>No trigger, limit, cancellation or time stamping interferes.\<close>

definition quiet :: "xdd \<Rightarrow> bool" where
  "quiet s \<longleftrightarrow> td_trigp (td s) = None \<and> td_time_limit_ticks (td s) = 0 \<and> run_time_ticks s = 0 \<and>
     \<not> td_time_limit_expired (td s) \<and> \<not> run_time_expired s \<and> \<not> stopped s \<and> \<not> ts_active s \<and>
     \<not> flag_on (td_seek_options (td s)) SO_SEEK_NONE"

text \<open>The seek list is sequential and long enough for what remains.\<close>

definition seq_ok :: "xdd \<Rightarrow> bool" where
  "seq_ok s \<longleftrightarrow> quiet s \<and> 0 < td_xfer_size (td s) \<and> td_xfer_size (td s) < 2 ^ 31 \<and>
     int (length (td_seeks (td s))) < 2 ^ 64 \<and>
     (\<forall>i < length (td_seeks (td s)).
        uint (seek_offset s i) = uint (seek_offset s 0) + int i * td_xfer_size (td s)) \<and>
     uint (td_current_bytes_issued (td s)) + uint (td_current_bytes_remaining (td s)) < 2 ^ 64 \<and>
     uint (td_current_bytes_issued (td s)) + uint (td_current_bytes_remaining (td s))
       \<le> int (length (td_seeks (td s))) * td_xfer_size (td s) \<and>
     (td_current_bytes_remaining (td s) \<noteq> 0 \<longrightarrow>
        uint (td_current_bytes_issued (td s)) =
          uint (tc_current_op_number (td_counters (td s))) * td_xfer_size (td s))"

text \<open>What \<open>quiet\<close> and the seek offsets depend on, apart from the target data.\<close>

definition same_globals :: "xdd \<Rightarrow> xdd \<Rightarrow> bool" where
  "same_globals s s' \<longleftrightarrow> target_offset s' = target_offset s \<and> run_time_ticks s' = run_time_ticks s \<and>
     run_time_expired s' = run_time_expired s \<and> canceled s' = canceled s \<and> xgp_abort s' = xgp_abort s"

lemma before_quiet:
  assumes "quiet s" and "unat (tc_current_op_number (td_counters (td s))) < length (td_seeks (td s))"
  obtains s1 where "xdd_target_ttd_before_io_op now w s = Some (XDD_RC_GOOD, s1)"
    and "td s1 = (td s)\<lparr>td_counters := (td_counters (td s))\<lparr>tc_current_byte_offset :=
           seek_offset s (unat (tc_current_op_number (td_counters (td s))))\<rparr>\<rparr>"
    and "wd s1 = wd s" and "same_globals s s1"
proof -
  define s0 where "s0 = xdd_syncio_before_io_op s"
  have s0: "td s0 = td s" "wd s0 = wd s" "same_globals s s0" "global_options s0 = global_options s"
    by (simp_all add: s0_def xdd_syncio_before_io_op_def emit_def same_globals_def)
  have q: "seek_index s0 = unat (tc_current_op_number (td_counters (td s)))"
    "seek_offset s0 = seek_offset s"
    using assms(1) s0 by (auto simp: seek_index_def quiet_def seek_offset_def same_globals_def fun_eq_iff)
  let ?s4 = "on_tc (\<lambda>c. c\<lparr>tc_current_byte_offset := seek_offset s0 (seek_index s0)\<rparr>) (s0\<lparr>errno := 0\<rparr>)"
  let ?s5 = "if flag_on (global_options ?s4) GO_INTERACTIVE then emit Enter_Interactive_Barrier ?s4 else ?s4"
  have l: "locate_op (s0\<lparr>errno := 0\<rparr>) = Some ?s4"
    using assms q s0 by (simp add: locate_op_def seek_index_def seek_offset_def quiet_def same_globals_def)
  have "xdd_target_ttd_before_io_op now w s = Some (XDD_RC_GOOD, ?s5)"
    using assms(1) s0 l
    by (simp add: xdd_target_ttd_before_io_op_def ttd_limits_def ttd_checks_def s0_def [symmetric] xdd_start_trigger_before_io_op_def
        xdd_timelimit_before_io_op_def xdd_runtime_before_io_op_def quiet_def stopped_def same_globals_def
        on_tc_def on_td_def emit_def)
  then show ?thesis
    by (rule that) (use s0 q in \<open>simp_all add: on_tc_def on_td_def emit_def same_globals_def\<close>)
qed

text \<open>One step of the arithmetic, for any set-up that issues the next task.\<close>

lemma advance_step:
  assumes ok: "seq_ok s" and pos: "td_current_bytes_remaining (td s) \<noteq> 0"
    and td': "td s' = advance_target (xfer_size_of (td s))
                ((td s)\<lparr>td_counters := c, td_e2ep := x\<rparr>)"
    and c: "tc_current_op_number c = tc_current_op_number (td_counters (td s))"
    and g: "same_globals s s'"
  shows "let n = uint (xfer_size_of (td s)); i = unat (tc_current_op_number (td_counters (td s))) in
           0 < n \<and> n \<le> uint (td_current_bytes_remaining (td s)) \<and> i < length (td_seeks (td s)) \<and>
           uint (seek_offset s i) = uint (seek_offset s 0) + uint (td_current_bytes_issued (td s)) \<and>
           uint (td_current_bytes_issued (td s')) = uint (td_current_bytes_issued (td s)) + n \<and>
           uint (td_current_bytes_remaining (td s')) = uint (td_current_bytes_remaining (td s)) - n \<and>
           seek_offset s' = seek_offset s \<and> seq_ok s'"
proof -
  let ?x = "td_xfer_size (td s)" and ?r = "uint (td_current_bytes_remaining (td s))"
    and ?b = "uint (td_current_bytes_issued (td s))" and ?L = "int (length (td_seeks (td s)))"
    and ?o = "uint (tc_current_op_number (td_counters (td s)))" and ?n = "uint (xfer_size_of (td s))"
  have facts: "0 < ?x" "?x < 2 ^ 31" "?L < 2 ^ 64" "?b + ?r < 2 ^ 64" "?b + ?r \<le> ?L * ?x" "?b = ?o * ?x"
    using ok pos by (auto simp: seq_ok_def)
  have "?r \<noteq> 0" using pos by (simp only: uint_0_iff not_False_eq_True)
  then have r: "0 < ?r" using uint_ge_0 [of "td_current_bytes_remaining (td s)"] by linarith
  have xw: "uint (word_of_int ?x :: u64) = ?x"
    using facts(1,2) by (simp add: uint_word_of_int take_bit_int_eq_self)
  have n: "?n = min ?r ?x"
    by (simp add: xfer_size_of_def word_less_def xw min_def)
  have "?o * ?x < ?L * ?x" using facts r by linarith
  then have o: "?o < ?L" using facts(1) by (simp add: mult_less_cancel_right)
  have io: "int (unat (tc_current_op_number (td_counters (td s)))) = ?o" by (rule uint_nat [symmetric])
  have i: "unat (tc_current_op_number (td_counters (td s))) < length (td_seeks (td s))"
    using o io by linarith
  have off: "uint (seek_offset s (unat (tc_current_op_number (td_counters (td s)))))
      = uint (seek_offset s 0) + ?b"
    using ok i facts(6) io by (simp add: seq_ok_def)
  have "?b + ?n < 2 ^ LENGTH(64)" using n facts(4) by simp
  then have "uint (td_current_bytes_issued (td s) + xfer_size_of (td s)) = ?b + ?n"
    by (rule uint_add_lem [THEN iffD1])
  then have b': "uint (td_current_bytes_issued (td s')) = ?b + ?n"
    unfolding td' by (simp add: advance_target_def)
  have "?n \<le> ?r" using n by simp
  then have "uint (td_current_bytes_remaining (td s) - xfer_size_of (td s)) = ?r - ?n"
    by (rule uint_sub_lem [THEN iffD1])
  then have r': "uint (td_current_bytes_remaining (td s')) = ?r - ?n"
    unfolding td' by (simp add: advance_target_def)
  have "?o + uint (1 :: u64) < 2 ^ LENGTH(64)" using o facts(3) by simp
  then have "uint (tc_current_op_number (td_counters (td s)) + 1) = ?o + uint (1 :: u64)"
    by (rule uint_add_lem [THEN iffD1])
  then have o': "uint (tc_current_op_number (td_counters (td s'))) = ?o + 1"
    unfolding td' using c by (simp add: advance_target_def)
  have so: "seek_offset s' = seek_offset s"
    using td' g by (auto simp: fun_eq_iff seek_offset_def advance_target_def same_globals_def)
  have q: "quiet s'"
    using ok td' g by (auto simp: seq_ok_def quiet_def stopped_def advance_target_def same_globals_def)
  have fr: "td_xfer_size (td s') = ?x" "td_seeks (td s') = td_seeks (td s)"
    using td' by (simp_all add: advance_target_def)
  have last: "uint (td_current_bytes_issued (td s')) = uint (tc_current_op_number (td_counters (td s'))) * ?x"
    if "td_current_bytes_remaining (td s') \<noteq> 0"
  proof -
    have "uint (td_current_bytes_remaining (td s')) \<noteq> 0" using that by (simp only: uint_0_iff not_False_eq_True)
    then have "?n = ?x" using r' n by linarith
    then show ?thesis using b' o' facts(6) by (simp add: distrib_right)
  qed
  have "seq_ok s'"
    unfolding seq_ok_def fr so using q facts ok b' r' last by (simp add: seq_ok_def)
  then show ?thesis using n r facts(1) i off b' r' so by (simp add: Let_def)
qed

text \<open>
  What the two set-ups have in common without time stamping: the worker's task is the next one and
  the target advances by its size.
\<close>

definition sets_up :: "(nat \<Rightarrow> xdd \<Rightarrow> xdd option) \<Rightarrow> nat \<Rightarrow> xdd \<Rightarrow> bool" where
  "sets_up setup w s \<longleftrightarrow> (\<exists>s2 x. setup w s = Some s2 \<and>
     td s2 = advance_target (xfer_size_of (td s)) ((td s)\<lparr>td_e2ep := x\<rparr>) \<and>
     task_byte_offset (wd_task (wd s2 w)) = tc_current_byte_offset (td_counters (td s)) \<and>
     task_xfer_size (wd_task (wd s2 w)) = xfer_size_of (td s) \<and> same_globals s s2 \<and>
     (td_e2ep (td s) \<noteq> None \<longrightarrow> x \<noteq> None) \<and>
     (wd_e2ep (wd s w) \<noteq> None \<longrightarrow> wd_e2ep (wd s2 w) \<noteq> None))"

lemma next_task_simps:
  "task_byte_offset (next_task t k) = tc_current_byte_offset (td_counters t)"
  "task_xfer_size (next_task t k) = xfer_size_of t"
  by (simp_all add: next_task_def split_beta)

lemma normal_sets_up:
  assumes "\<not> ts_active s" "unat (tc_current_op_number (td_counters (td s))) < length (td_seeks (td s))"
  shows "sets_up xdd_target_pass_task_setup w s"
proof -
  let ?s1 = "on_task w (next_task (td s)) s"
  have "ts_assign w f ?s1 = Some ?s1" for f using assms(1) by (simp add: ts_assign_def on_task_def on_wd_def)
  then have "xdd_target_pass_task_setup w s = Some (on_td (advance_target (xfer_size_of (td s))) ?s1)"
    using assms(2) by (simp add: xdd_target_pass_task_setup_def on_task_def on_wd_def next_task_simps Let_def)
  moreover have "(td s)\<lparr>td_e2ep := td_e2ep (td s)\<rparr> = td s" by simp
  ultimately show ?thesis
    unfolding sets_up_def
    by (intro exI [of _ "on_td (advance_target (xfer_size_of (td s))) ?s1"] exI [of _ "td_e2ep (td s)"])
       (simp add: on_task_def on_wd_def on_td_def next_task_simps same_globals_def)
qed

lemma src_sets_up:
  assumes "\<not> ts_active s" "unat (tc_current_op_number (td_counters (td s))) < length (td_seeks (td s))"
    and "td_e2ep (td s) \<noteq> None" "wd_e2ep (wd s w) \<noteq> None"
  shows "sets_up xdd_targetpass_e2e_task_setup_src w s"
proof -
  obtain te we where e: "td_e2ep (td s) = Some te" "wd_e2ep (wd s w) = Some we" using assms(3,4) by auto
  let ?x = "Some (te\<lparr>e2e_msg_sequence_number := e2e_msg_sequence_number te + 1\<rparr>)"
  let ?s1 = "on_td (\<lambda>t. t\<lparr>td_e2ep := ?x\<rparr>)
      (on_wd w (\<lambda>d. d\<lparr>wd_task := (next_task (td s) (wd_task d))\<lparr>task_io_status := 0, task_errno := 0\<rparr>,
         wd_e2ep := Some (we\<lparr>e2e_msg_sequence_number := e2e_msg_sequence_number te\<rparr>)\<rparr>) s)"
  have "ts_assign w f ?s1 = Some ?s1" for f using assms(1) by (simp add: ts_assign_def on_wd_def on_td_def)
  then have "xdd_targetpass_e2e_task_setup_src w s = Some (on_td (advance_target (xfer_size_of (td s))) ?s1)"
    using assms(2) e
    by (simp add: xdd_targetpass_e2e_task_setup_src_def on_wd_def on_td_def next_task_simps Let_def)
  then show ?thesis
    unfolding sets_up_def
    by (intro exI [of _ "on_td (advance_target (xfer_size_of (td s))) ?s1"] exI [of _ ?x])
       (simp add: on_wd_def on_td_def next_task_simps same_globals_def)
qed

lemma issue_step:
  assumes ok: "seq_ok s" and pos: "td_current_bytes_remaining (td s) \<noteq> 0"
    and su: "\<And>s1. \<not> ts_active s1 \<Longrightarrow>
      unat (tc_current_op_number (td_counters (td s1))) < length (td_seeks (td s1)) \<Longrightarrow>
      td_e2ep (td s1) = td_e2ep (td s) \<Longrightarrow> wd s1 = wd s \<Longrightarrow> sets_up setup w s1"
  shows "\<exists>n s'. issue_with setup now w s =
      Some ((uint (seek_offset s 0) + uint (td_current_bytes_issued (td s)), n), s') \<and>
      0 < n \<and> n \<le> uint (td_current_bytes_remaining (td s)) \<and>
      uint (seek_offset s' 0) + uint (td_current_bytes_issued (td s')) =
        uint (seek_offset s 0) + uint (td_current_bytes_issued (td s)) + n \<and>
      uint (td_current_bytes_remaining (td s')) = uint (td_current_bytes_remaining (td s)) - n \<and>
      seq_ok s' \<and> (td_e2ep (td s) \<noteq> None \<longrightarrow> td_e2ep (td s') \<noteq> None) \<and>
      (wd_e2ep (wd s w) \<noteq> None \<longrightarrow> wd_e2ep (wd s' w) \<noteq> None)"
proof -
  let ?i = "unat (tc_current_op_number (td_counters (td s)))"
  have q: "quiet s" using ok by (simp add: seq_ok_def)
  have a0: "td (s\<lparr>td := advance_target (xfer_size_of (td s)) ((td s)\<lparr>td_counters := td_counters (td s), td_e2ep := None\<rparr>)\<rparr>)
      = advance_target (xfer_size_of (td s)) ((td s)\<lparr>td_counters := td_counters (td s), td_e2ep := None\<rparr>)"
    by simp
  have i: "?i < length (td_seeks (td s))"
    using advance_step [OF ok pos a0] by (simp add: Let_def same_globals_def)
  obtain s1 where 1: "xdd_target_ttd_before_io_op now w s = Some (XDD_RC_GOOD, s1)"
    "td s1 = (td s)\<lparr>td_counters := (td_counters (td s))\<lparr>tc_current_byte_offset := seek_offset s ?i\<rparr>\<rparr>"
    "wd s1 = wd s" "same_globals s s1"
    using before_quiet [OF q i] .
  have "sets_up setup w s1" using q i 1(2,3) by (intro su) (simp_all add: quiet_def)
  then obtain s2 x where 2: "setup w s1 = Some s2"
    "td s2 = advance_target (xfer_size_of (td s1)) ((td s1)\<lparr>td_e2ep := x\<rparr>)"
    "task_byte_offset (wd_task (wd s2 w)) = seek_offset s ?i"
    "task_xfer_size (wd_task (wd s2 w)) = xfer_size_of (td s)" "same_globals s1 s2"
    "td_e2ep (td s) \<noteq> None \<longrightarrow> x \<noteq> None" "wd_e2ep (wd s w) \<noteq> None \<longrightarrow> wd_e2ep (wd s2 w) \<noteq> None"
    unfolding sets_up_def using 1(2,3) by (auto simp: xfer_size_of_def)
  have x: "xfer_size_of (td s1) = xfer_size_of (td s)" using 1(2) by (simp add: xfer_size_of_def)
  have td2: "td s2 = advance_target (xfer_size_of (td s))
      ((td s)\<lparr>td_counters := (td_counters (td s))\<lparr>tc_current_byte_offset := seek_offset s ?i\<rparr>, td_e2ep := x\<rparr>)"
    using 2(2) 1(2) x by simp
  have g: "same_globals s s2" using 1(4) 2(5) by (simp add: same_globals_def)
  note step = advance_step [OF ok pos td2 _ g, unfolded Let_def]
  have "issue_with setup now w s = Some ((uint (seek_offset s ?i), uint (xfer_size_of (td s))), s2)"
    using pos 1(1) 2(1,3,4) by (simp add: issue_with_def)
  moreover have "td_e2ep (td s2) = x" using td2 by (simp add: advance_target_def)
  ultimately show ?thesis using step 2(6,7) by auto
qed

interpretation pass: chunk_issuer "issue_with xdd_target_pass_task_setup now w"
  "\<lambda>s. uint (td_current_bytes_remaining (td s))"
  "\<lambda>s. uint (seek_offset s 0) + uint (td_current_bytes_issued (td s))" seq_ok
  for now w
proof (unfold_locales, goal_cases)
  case (1 s)
  then show ?case by simp
next
  case (2 s)
  then show ?case by (simp add: issue_with_def uint_0_iff)
next
  case (3 s)
  then show ?case
    using issue_step [of s xdd_target_pass_task_setup w now] normal_sets_up [of _ w] by fastforce
qed

interpretation e2e_src: chunk_issuer "issue_with xdd_targetpass_e2e_task_setup_src now w"
  "\<lambda>s. uint (td_current_bytes_remaining (td s))"
  "\<lambda>s. uint (seek_offset s 0) + uint (td_current_bytes_issued (td s))"
  "\<lambda>s. seq_ok s \<and> td_e2ep (td s) \<noteq> None \<and> wd_e2ep (wd s w) \<noteq> None"
  for now w
proof (unfold_locales, goal_cases)
  case (1 s)
  then show ?case by simp
next
  case (2 s)
  then show ?case by (simp add: issue_with_def uint_0_iff)
next
  case (3 s)
  then show ?case
    using issue_step [of s xdd_targetpass_e2e_task_setup_src w now] src_sets_up [of _ w] by fastforce
qed

subsection \<open>Properties\<close>


lemma sample_seq_ok: "seq_ok (sample 2 2 0)"
proof -
  let ?s = "sample 2 2 0"
  have so: "uint (seek_offset ?s i) = 4 * int i" if "i < 4" for i
  proof -
    have "seek_offset ?s i = of_nat (4 * i)" using that by (simp add: seek_offset_def sample_simps)
    moreover have "i = 0 \<or> i = 1 \<or> i = 2 \<or> i = 3" using that by auto
    ultimately show ?thesis by (elim disjE) simp_all
  qed
  have f: "td_xfer_size (td ?s) = 4" "length (td_seeks (td ?s)) = 4" "td_current_bytes_issued (td ?s) = 0"
    "td_current_bytes_remaining (td ?s) = 10" "tc_current_op_number (td_counters (td ?s)) = 0"
    by (simp_all add: sample_simps)
  have q: "quiet ?s" by (simp add: quiet_def stopped_def sample_simps flag_on_def)
  show ?thesis unfolding seq_ok_def f using q so by simp
qed


lemma ts_advance_simps:
  "ts_size (ts_advance t) = ts_size t"
  "flag_on (ts_options (ts_advance t)) TS_ONESHOT = flag_on (ts_options t) TS_ONESHOT"
  "flag_on (ts_options (ts_advance t)) TS_WRAP = flag_on (ts_options t) TS_WRAP"
  "flag_on (ts_options (ts_advance t)) TS_ON \<Longrightarrow> flag_on (ts_options t) TS_ON"
  by (auto simp: ts_advance_def Let_def flag_simps flag_on_def [of TS_ON] split: if_splits)

lemma ts_iterate:
  "ts_size ((ts_advance ^^ n) t) = ts_size t"
  "flag_on (ts_options ((ts_advance ^^ n) t)) TS_ONESHOT = flag_on (ts_options t) TS_ONESHOT"
  "flag_on (ts_options ((ts_advance ^^ n) t)) TS_WRAP = flag_on (ts_options t) TS_WRAP"
  by (induction n) (simp_all add: ts_advance_simps)

lemma ts_oneshot_step:
  assumes "flag_on (ts_options t) TS_ONESHOT" "ts_current_entry t < ts_size t"
    and "flag_on (ts_options (ts_advance t)) TS_ON"
  shows "ts_current_entry (ts_advance t) < ts_size t"
  using assms by (auto simp: ts_advance_def Let_def flag_simps split: if_splits)

text \<open>A one-shot time stamp table is never indexed past its end: from an entry inside the table,
  stamping any number of operations leaves the entry inside for as long as stamping is on.
  With the wrap option every stamp after the first goes to entry 0, however large the table is.\<close>

lemma ts_entry_bounds:
  assumes "ts_current_entry t < ts_size t" and "flag_on (ts_options t) TS_ON"
  shows "(flag_on (ts_options t) TS_ONESHOT \<longrightarrow> flag_on (ts_options ((ts_advance ^^ n) t)) TS_ON \<longrightarrow>
            ts_current_entry ((ts_advance ^^ n) t) < ts_size t) \<and>
         (\<not> flag_on (ts_options t) TS_ONESHOT \<longrightarrow> flag_on (ts_options t) TS_WRAP \<longrightarrow>
            ts_current_entry ((ts_advance ^^ Suc n) t) = 0)"
proof
  show "flag_on (ts_options t) TS_ONESHOT \<longrightarrow> flag_on (ts_options ((ts_advance ^^ n) t)) TS_ON \<longrightarrow>
            ts_current_entry ((ts_advance ^^ n) t) < ts_size t"
  proof (induction n)
    case 0
    then show ?case using assms by simp
  next
    case (Suc n)
    let ?u = "(ts_advance ^^ n) t"
    have "ts_current_entry (ts_advance ?u) < ts_size ?u"
      if "flag_on (ts_options t) TS_ONESHOT" "flag_on (ts_options (ts_advance ?u)) TS_ON"
      using that Suc ts_advance_simps(4) [of ?u] by (intro ts_oneshot_step) (simp_all add: ts_iterate)
    then show ?case by (simp add: ts_iterate)
  qed
  show "\<not> flag_on (ts_options t) TS_ONESHOT \<longrightarrow> flag_on (ts_options t) TS_WRAP \<longrightarrow>
            ts_current_entry ((ts_advance ^^ Suc n) t) = 0"
    using ts_iterate(2,3) [of n t] by (simp add: ts_advance_def Let_def)
qed

definition oneshot_table :: xint_timestamp where
  "oneshot_table = \<lparr>ts_options = TS_ON OR TS_ONESHOT, ts_current_entry = 0, ts_size = 2, tsh_tte = [zero_tte, zero_tte]\<rparr>"

lemma ts_entry_bounds_witness:
  "ts_current_entry (ts_advance oneshot_table) < 2 \<and>
   \<not> flag_on (ts_options (ts_advance (ts_advance oneshot_table))) TS_ON"
proof -
  have p: "ts_current_entry oneshot_table < ts_size oneshot_table" "flag_on (ts_options oneshot_table) TS_ON"
    by (simp_all add: oneshot_table_def flag_on_def)
  have "flag_on (ts_options oneshot_table) TS_ONESHOT" "flag_on (ts_options (ts_advance oneshot_table)) TS_ON"
    "ts_size oneshot_table = 2" "\<not> flag_on (ts_options (ts_advance (ts_advance oneshot_table))) TS_ON"
    by (simp_all add: oneshot_table_def ts_advance_def Let_def flag_on_def clear_flag_def)
  with ts_entry_bounds [OF p, of 1] show ?thesis by simp
qed

end
