(* ===== verification/Pass_Loop.thy ===== *)
theory Pass_Loop
  imports Target_Pass
begin

unbundle bit_operations_syntax

text \<open>
  The pass loops with their worker threads, as a step relation.  The target thread runs one of
  the three loops (\<open>xdd_target_pass_loop\<close> of \<^verbatim>\<open>src/base/target_pass.c\<close>, and the source and
  destination loops of \<^verbatim>\<open>target_pass_e2e_specific.c\<close>); a worker waits at its barrier, runs the
  task it was released with, and hands itself back (\<^verbatim>\<open>src/base/worker_thread.c\<close>).  A step of
  the target goes to its next blocking point; the steps of the threads interleave freely.
\<close>

datatype loop_kind = Normal | E2e_Src | E2e_Dst

datatype pass_pc = P_Top | P_Wait_Any | P_Got nat | P_After | P_Eof nat | P_Eof_Wait nat nat
  | P_Collect nat | P_Collect_Wait nat nat | P_Check | P_Return

datatype worker_phase = K_Idle | K_Running | K_Exited

subsection \<open>The worker's task\<close>

definition xdd_target_reopen :: "io_env \<Rightarrow> xdd \<Rightarrow> xdd" where
  "xdd_target_reopen e s =
     (let s1 = on_td (\<lambda>t. t\<lparr>td_file_desc := snd (env_open e)\<rparr>) (emit (Closed_Fd (td_file_desc (td s))) s)
      in if fst (env_open e) \<noteq> 0 then s1\<lparr>xgp_abort := True\<rparr> else s1)"

text \<open>The switch on the task request; the first component says that the worker exits.\<close>

definition worker_task :: "io_env \<Rightarrow> nat \<Rightarrow> xdd \<Rightarrow> (bool \<times> xdd) option" where
  "worker_task e w s =
     (let r = task_request (wd_task (wd s w)) in
      if r = TASK_REQ_IO then map_option (Pair False) (xdd_worker_thread_io e w s)
      else if r = TASK_REQ_REOPEN then Some (False, xdd_target_reopen e s)
      else if r = TASK_REQ_STOP then Some (True, s)
      else if r = TASK_REQ_EOF
      then map_option (\<lambda>(st, s1). (False,
             if st \<noteq> 0 then on_tc (\<lambda>c. c\<lparr>tc_current_io_status := st\<rparr>) s1 else s1))
             (xdd_e2e_eof_source_side (env_net e) w s)
      else Some (False, s))"

subsection \<open>The target thread\<close>

definition worker_at :: "nat \<Rightarrow> xdd \<Rightarrow> nat ptr option" where
  "worker_at q s = chain_skip (\<lambda>w. wd_next_wdp (wd s w)) (td_next_wdp (td s)) q"

definition unbusy :: "nat \<Rightarrow> xdd \<Rightarrow> xdd" where
  "unbusy w = on_sync w (\<lambda>f. clear_flag f WTSYNC_BUSY)"

text \<open>The result of a target step: the next control point, the worker released, if any, and the state.\<close>

type_synonym 'pc result_at = "('pc \<times> nat ptr \<times> xdd) option"
type_synonym tresult = "pass_pc result_at"

definition on_located :: "loop_kind \<Rightarrow> locator option \<Rightarrow> tresult" where
  "on_located k l =
     (case l of
        Some (Got w s) \<Rightarrow> Some (P_Got w, None, s)
      | Some (Wait s) \<Rightarrow> Some (P_Wait_Any, None, s)
      | Some (All_Eof s) \<Rightarrow> if k = E2e_Dst then Some (P_After, None, s) else None
      | _ \<Rightarrow> None)"

definition step_top :: "loop_kind \<Rightarrow> xdd \<Rightarrow> tresult" where
  "step_top k s =
     (if k \<noteq> E2e_Dst \<and> td_current_bytes_remaining (td s) = 0 then Some (P_After, None, s)
      else if k = Normal \<and> td_lockstep (td s)
      then Some (P_After, None, on_td (\<lambda>t. t\<lparr>td_current_bytes_remaining := 0\<rparr>) (emit Ran_Lockstep s))
      else on_located k (get_any_available_worker_thread s))"

definition release_task :: "nat \<Rightarrow> xdd \<Rightarrow> xdd" where
  "release_task w s = emit (Release_Task w (wd_task (wd s w))) s"

definition step_got :: "loop_kind \<Rightarrow> nclk \<Rightarrow> nat \<Rightarrow> xdd \<Rightarrow> tresult" where
  "step_got k now w s =
     (if k = E2e_Dst
      then if stopped s then Some (P_After, None, unbusy w s)
           else map_option (\<lambda>s1. (P_Top, Some w,
                  on_tc (\<lambda>c. c\<lparr>tc_current_op_number := tc_current_op_number c + 1\<rparr>) (release_task w s1)))
                  (e2e_task_setup_dst w s)
      else Option.bind (xdd_target_ttd_before_io_op now w s) (\<lambda>(st, s1).
             if st \<noteq> XDD_RC_GOOD
             then Some (P_After, None, if k = Normal then unbusy w s1 else s1)
             else map_option (\<lambda>s2. (P_Top, Some w, release_task w s2))
                    (if k = Normal then xdd_target_pass_task_setup w s1
                     else xdd_targetpass_e2e_task_setup_src w s1)))"

definition eof_task :: "nat \<Rightarrow> nat \<Rightarrow> xdd \<Rightarrow> tresult" where
  "eof_task q w s = map_option (\<lambda>s1. (P_Eof (Suc q), Some w, release_task w s1)) (e2e_task_setup_eof w s)"

definition collect :: "loop_kind \<Rightarrow> nat \<Rightarrow> nat \<Rightarrow> xdd \<Rightarrow> tresult" where
  "collect k q w s =
     (let s1 = unbusy w s;
          s2 = (if k = Normal
                then on_td (\<lambda>t. t\<lparr>td_any_worker_thread_available := td_any_worker_thread_available t + 1\<rparr>) s1
                else s1)
      in if k = E2e_Dst \<and> canceled s2 then Some (P_Check, None, s2) else Some (P_Collect (Suc q), None, s2))"

text \<open>A specific worker: continue with it, or wait for it at \<open>wait\<close>.\<close>

definition with_specific :: "nat \<Rightarrow> (nat \<Rightarrow> 'pc) \<Rightarrow> (nat \<Rightarrow> xdd \<Rightarrow> 'pc result_at) \<Rightarrow> xdd \<Rightarrow> 'pc result_at" where
  "with_specific q wait go s =
     (case get_specific_worker_thread q s of
        Got w s1 \<Rightarrow> go w s1
      | Wait s1 \<Rightarrow> (case worker_at q s of Some (Some w) \<Rightarrow> Some (wait w, None, s1) | _ \<Rightarrow> None)
      | _ \<Rightarrow> None)"

definition resume_specific :: "nat \<Rightarrow> 'pc \<Rightarrow> (nat \<Rightarrow> xdd \<Rightarrow> 'pc result_at) \<Rightarrow> xdd \<Rightarrow> 'pc result_at" where
  "resume_specific w here go s =
     (case specific_resume w s of Got v s1 \<Rightarrow> go v s1 | Wait s1 \<Rightarrow> Some (here, None, s1) | _ \<Rightarrow> None)"

fun target_step :: "loop_kind \<Rightarrow> nclk \<Rightarrow> pass_pc \<Rightarrow> xdd \<Rightarrow> tresult" where
  "target_step k now P_Top s = step_top k s"
| "target_step k now P_Wait_Any s = on_located k (any_resume s)"
| "target_step k now (P_Got w) s = step_got k now w s"
| "target_step k now P_After s =
     Some (if canceled s then P_Return else if k = E2e_Src then P_Eof 0 else P_Collect 0, None, s)"
| "target_step k now (P_Eof q) s =
     (if q < td_queue_depth (td s) then with_specific q (P_Eof_Wait q) (eof_task q) s
      else Some (P_Collect 0, None, s))"
| "target_step k now (P_Eof_Wait q w) s = resume_specific w (P_Eof_Wait q w) (eof_task q) s"
| "target_step k now (P_Collect q) s =
     (if q < td_queue_depth (td s) then with_specific q (P_Collect_Wait q) (collect k q) s
      else Some (P_Check, None, s))"
| "target_step k now (P_Collect_Wait q w) s = resume_specific w (P_Collect_Wait q w) (collect k q) s"
| "target_step k now P_Check s =
     Some (P_Return, None,
       if tc_current_io_status (td_counters (td s)) \<noteq> 0 then s\<lparr>target_errno := XDD_RETURN_VALUE_IOERROR\<rparr> else s)"
| "target_step k now P_Return s = Some (P_Return, None, s)"

subsection \<open>All threads\<close>

type_synonym pass = "pass_pc \<times> (nat \<Rightarrow> worker_phase) \<times> xdd"

definition release_to :: "nat ptr \<Rightarrow> (nat \<Rightarrow> worker_phase) \<Rightarrow> nat \<Rightarrow> worker_phase" where
  "release_to r ks = (case r of None \<Rightarrow> ks | Some w \<Rightarrow> ks(w := K_Running))"

inductive pass_step :: "loop_kind \<Rightarrow> pass \<Rightarrow> pass \<Rightarrow> bool" for k where
  target: "target_step k now pc s = Some (pc', r, s') \<Longrightarrow>
     pass_step k (pc, ks, s) (pc', release_to r ks, s')"
| worker: "ks w = K_Running \<Longrightarrow> worker_task e w s = Some (ex, s1) \<Longrightarrow>
     pass_step k (pc, ks, s)
       (pc, ks(w := if ex then K_Exited else K_Idle), if ex then s1 else worker_available w s1)"

inductive_cases pass_stepE: "pass_step k (pc, ks, s) p'"

subsection \<open>What the steps do to the worker list and the busy flags\<close>

lemma locator_viewD:
  assumes "locator_view s' = locator_view s"
  shows "workers s' ws = workers s ws" and "busy s' v = busy s v"
proof -
  have f: "(\<lambda>v. wd_next_wdp (wd s' v)) = (\<lambda>v. wd_next_wdp (wd s v))" "(\<lambda>v. busy s' v) = (\<lambda>v. busy s v)"
    "td_next_wdp (td s') = td_next_wdp (td s)" "td_queue_depth (td s') = td_queue_depth (td s)"
    using assms by (simp_all add: locator_view_def)
  then show "workers s' ws = workers s ws" unfolding workers_def f by simp
  show "busy s' v = busy s v" using fun_cong [OF f(2), of v] by simp
qed

lemma view_emit: "locator_view (emit e s) = locator_view s"
  by (simp add: locator_view_def emit_def)

lemma view_td:
  "td_next_wdp (f (td s)) = td_next_wdp (td s) \<Longrightarrow> td_queue_depth (f (td s)) = td_queue_depth (td s) \<Longrightarrow>
   td_any_worker_thread_available (f (td s)) = td_any_worker_thread_available (td s) \<Longrightarrow>
   locator_view (on_td f s) = locator_view s"
  by (simp add: locator_view_def on_td_def)

lemma view_wd:
  "wd_next_wdp (f (wd s w)) = wd_next_wdp (wd s w) \<Longrightarrow>
   wd_worker_thread_target_sync (f (wd s w)) = wd_worker_thread_target_sync (wd s w) \<Longrightarrow>
   locator_view (on_wd w f s) = locator_view s"
  by (auto simp: locator_view_def on_wd_def fun_eq_iff)

lemma view_tte: "on_tte i f s = Some s' \<Longrightarrow> locator_view s' = locator_view s"
  using task_frame_tte [of i f s s'] by (simp add: task_frame_def)

lemma view_ts_assign: "ts_assign w f s = Some s' \<Longrightarrow> locator_view s' = locator_view s"
proof (cases "ts_active s")
  case True
  let ?t = "on_td (\<lambda>t. t\<lparr>td_ts_table := ts_advance (td_ts_table t)\<rparr>)
      (on_wd w (\<lambda>d. d\<lparr>wd_ts_entry := ts_current_entry (td_ts_table (td s))\<rparr>) s)"
  assume "ts_assign w f s = Some s'"
  with True obtain i g where "on_tte i g ?t = Some s'" by (auto simp: ts_assign_def Let_def)
  then have "locator_view s' = locator_view ?t" by (rule view_tte)
  also have "\<dots> = locator_view s" by (simp add: view_td view_wd)
  finally show ?thesis .
qed (simp add: ts_assign_def)

lemma view_advance: "locator_view (on_td (advance_target n) s) = locator_view s"
  by (rule view_td) (simp_all add: advance_target_def)

lemma view_setup:
  assumes "xdd_target_pass_task_setup w s = Some s'"
  shows "locator_view s' = locator_view s"
proof -
  obtain f s1 n where 1: "ts_assign w f (on_task w (next_task (td s)) s) = Some s1" "s' = on_td (advance_target n) s1"
    using assms by (auto simp: xdd_target_pass_task_setup_def Let_def split: if_splits)
  show ?thesis unfolding 1(2) view_advance view_ts_assign [OF 1(1)] by (simp add: on_task_def view_wd)
qed

lemma view_setup_src:
  assumes "xdd_targetpass_e2e_task_setup_src w s = Some s'"
  shows "locator_view s' = locator_view s"
proof -
  obtain te we where e: "td_e2ep (td s) = Some te" "wd_e2ep (wd s w) = Some we"
    using assms by (auto simp: xdd_targetpass_e2e_task_setup_src_def split: option.splits)
  let ?s1 = "on_td (\<lambda>t. t\<lparr>td_e2ep := Some (te\<lparr>e2e_msg_sequence_number := e2e_msg_sequence_number te + 1\<rparr>)\<rparr>)
      (on_wd w (\<lambda>d. d\<lparr>wd_task := (next_task (td s) (wd_task d))\<lparr>task_io_status := 0, task_errno := 0\<rparr>,
         wd_e2ep := Some (we\<lparr>e2e_msg_sequence_number := e2e_msg_sequence_number te\<rparr>)\<rparr>) s)"
  obtain f s1 n where 1: "ts_assign w f ?s1 = Some s1" "s' = on_td (advance_target n) s1"
    using assms e by (auto simp: xdd_targetpass_e2e_task_setup_src_def Let_def split: if_splits)
  have "locator_view ?s1 = locator_view s" by (simp add: view_td view_wd)
  then show ?thesis unfolding 1(2) view_advance using view_ts_assign [OF 1(1)] by simp
qed

lemma view_setup_dst: "e2e_task_setup_dst w s = Some s' \<Longrightarrow> locator_view s' = locator_view s"
  unfolding e2e_task_setup_dst_def Let_def
  by (drule view_ts_assign) (simp add: on_task_def view_wd)

lemma view_setup_eof: "e2e_task_setup_eof w s = Some s' \<Longrightarrow> locator_view s' = locator_view s"
  unfolding e2e_task_setup_eof_def
  by (drule view_ts_assign) (simp add: on_task_def view_wd)

lemma view_fields: "locator_view (s\<lparr>errno := x\<rparr>) = locator_view s" "locator_view (s\<lparr>run_time_expired := b\<rparr>) = locator_view s"
  "locator_view (s\<lparr>xgp_abort := b\<rparr>) = locator_view s" "locator_view (s\<lparr>target_errno := n\<rparr>) = locator_view s"
  by (simp_all add: locator_view_def)

lemma view_triggers: "locator_view (xdd_start_trigger_before_io_op now (xdd_syncio_before_io_op s)) = locator_view s"
proof -
  have "locator_view (xdd_syncio_before_io_op t) = locator_view t" for t
    by (simp add: xdd_syncio_before_io_op_def view_emit)
  moreover have "locator_view (trigger_fire c n t) = locator_view t" for c n t
    by (simp add: trigger_fire_def view_emit)
  ultimately show ?thesis
    by (simp add: xdd_start_trigger_before_io_op_def Let_def view_emit view_td split: option.split)
qed

lemma view_before:
  assumes "xdd_target_ttd_before_io_op now w s = Some (st, s')"
  shows "locator_view s' = locator_view s \<or> (st \<noteq> XDD_RC_GOOD \<and> locator_view s' = locator_view (unbusy w s))"
proof -
  have u: "locator_view (unbusy w a) = locator_view (unbusy w b)" if "locator_view a = locator_view b" for a b
    using that by (auto simp: locator_view_def unbusy_def on_sync_def on_wd_def fun_eq_iff flag_simps)
  have l: "locator_view (snd (ttd_limits now s)) = locator_view s"
    by (simp add: ttd_limits_def xdd_timelimit_before_io_op_def xdd_runtime_before_io_op_def Let_def
        view_fields view_td view_triggers)
  have c: "locator_view (snd (ttd_checks w t)) = locator_view t \<or>
      (fst (ttd_checks w t) \<noteq> XDD_RC_GOOD \<and> locator_view (snd (ttd_checks w t)) = locator_view (unbusy w t))" for t
    using u [of "emit Enter_Interactive_Barrier t" t]
    by (simp add: ttd_checks_def Let_def view_emit unbusy_def)
  show ?thesis
  proof (cases "fst (ttd_limits now s) \<noteq> XDD_RC_GOOD")
    case True
    then show ?thesis using assms l by (auto simp: xdd_target_ttd_before_io_op_def Let_def)
  next
    case False
    then obtain t where t: "locate_op ((snd (ttd_limits now s))\<lparr>errno := 0\<rparr>) = Some t" "(st, s') = ttd_checks w t"
      using assms by (auto simp: xdd_target_ttd_before_io_op_def Let_def)
    have "locator_view t = locator_view s"
      using t(1) l by (auto simp: locate_op_def on_tc_def view_td view_fields split: if_splits)
    then show ?thesis using c [of t] u [of t s] t(2) [symmetric] by simp
  qed
qed

lemma view_worker_task:
  assumes "worker_task e w s = Some (ex, s1)"
  shows "locator_view s1 = locator_view s"
proof -
  have io: "locator_view t = locator_view s" if "xdd_worker_thread_io e w s = Some t" for t
    using worker_io_releases [OF that] by (simp add: releases_def task_frame_def)
  have re: "locator_view (xdd_target_reopen e s) = locator_view s"
    by (simp add: xdd_target_reopen_def Let_def view_fields view_td view_emit)
  have eof: "locator_view t = locator_view s" if "xdd_e2e_eof_source_side (env_net e) w s = Some (r, t)" for r t
    using task_frame_eof [OF that] by (simp add: task_frame_def)
  have tc: "locator_view (on_tc f t) = locator_view t" for f t by (simp add: on_tc_def view_td)
  show ?thesis
    using assms by (auto simp: worker_task_def Let_def io re tc dest: eof split: if_splits)
qed

subsection \<open>A task is never set up for a running worker\<close>

definition pass_inv :: "nat list \<Rightarrow> pass \<Rightarrow> bool" where
  "pass_inv ws = (\<lambda>(pc, ks, s). workers s ws \<and>
     (\<forall>w. ks w = K_Running \<longrightarrow> busy s w) \<and>
     (\<forall>w. pc = P_Got w \<longrightarrow> busy s w \<and> ks w \<noteq> K_Running))"

text \<open>
  What a target step may do, as far as the worker list and the busy flags go: keep them, or
  change them for one worker that is not running.
\<close>

definition touches :: "nat option \<Rightarrow> xdd \<Rightarrow> xdd \<Rightarrow> bool" where
  "touches r s s' \<longleftrightarrow> (\<forall>ws. workers s' ws = workers s ws) \<and> (\<forall>v. Some v \<noteq> r \<longrightarrow> busy s' v = busy s v)"

lemma touches_view: "locator_view s' = locator_view s \<Longrightarrow> touches r s s'"
  unfolding touches_def using locator_viewD by blast

lemma touches_trans: "touches r s t \<Longrightarrow> touches r t u \<Longrightarrow> touches r s u"
  by (simp add: touches_def)

lemma touches_sync: "touches (Some w) s (on_sync w f s)"
  by (simp add: touches_def workers_on_sync on_sync_frame)

lemma touches_td:
  "td_next_wdp (f (td s)) = td_next_wdp (td s) \<Longrightarrow> td_queue_depth (f (td s)) = td_queue_depth (td s) \<Longrightarrow>
   touches r s (on_td f s)"
  by (simp add: touches_def workers_def on_td_def)

lemma busy_set: "busy (on_sync w (\<lambda>f. set_flag f WTSYNC_BUSY) s) w"
  by (simp add: on_sync_frame flag_simps flag_on_def [of WTSYNC_BUSY])

text \<open>Where a located worker comes from.\<close>

lemma located_step:
  assumes "workers s ws" and "on_located k (get_any_available_worker_thread s) = Some (pc', r, s')"
  shows "r = None \<and> ((\<exists>w. pc' = P_Got w \<and> \<not> busy s w \<and> busy s' w \<and> touches (Some w) s s') \<or>
           ((\<forall>w. pc' \<noteq> P_Got w) \<and> touches None s s'))"
proof -
  have td: "touches q s (take_available s)" "touches q s (flag_waiting_any s)"
    "touches q s (flag_waiting_any (drain_available s))" for q
  proof -
    show "touches q s (take_available s)" unfolding take_available_def by (rule touches_td) simp_all
    show "touches q s (flag_waiting_any s)" unfolding flag_waiting_any_def by (rule touches_td) simp_all
    show "touches q s (flag_waiting_any (drain_available s))"
      unfolding flag_waiting_any_def drain_available_def
      by (rule touches_trans [OF touches_td touches_td]) (simp_all add: on_td_def)
  qed
  have g: "get_any_available_worker_thread s = Some (locate_spec ws s)" by (rule get_any_spec [OF assms(1)])
  show ?thesis
  proof (cases "locate_spec ws s")
    case (Got w t)
    then have "find (candidate s) ws = Some w" "t = on_sync w (\<lambda>f. set_flag f WTSYNC_BUSY) (take_available s)"
      by (auto simp: locate_spec_def split: if_splits option.splits)
    moreover from this have "\<not> busy s w" by (auto simp: find_Some_iff candidate_def)
    moreover have "pc' = P_Got w" "r = None" "s' = t" using assms(2) g Got by (simp_all add: on_located_def)
    ultimately show ?thesis using busy_set [of w "take_available s"] touches_trans [OF td(1) touches_sync] by blast
  qed (use assms(2) g td in \<open>auto simp: on_located_def locate_spec_def split: if_splits option.splits\<close>)
qed

text \<open>A worker that \<open>with_specific\<close> or \<open>resume_specific\<close> continues with was not busy.\<close>

lemma specific_step:
  assumes "with_specific q wait go s = Some (pc', r, s')"
  shows "(\<exists>w s1. \<not> busy s w \<and> busy s1 w \<and> touches (Some w) s s1 \<and> go w s1 = Some (pc', r, s')) \<or>
         ((\<exists>w. pc' = wait w) \<and> r = None \<and> touches None s s')"
proof (cases "get_specific_worker_thread q s")
  case (Got w s1)
  then have "\<not> busy s w" "s1 = on_sync w (\<lambda>f. set_flag f WTSYNC_BUSY) s"
    by (auto simp: get_specific_worker_thread_def specific_take_def split: if_splits option.splits)
  moreover have "go w s1 = Some (pc', r, s')" using Got assms by (simp add: with_specific_def)
  ultimately show ?thesis using busy_set [of w s] touches_sync [of w s] by blast
next
  case (Wait s1)
  then obtain w where w: "s1 = on_sync w (\<lambda>f. set_flag f WTSYNC_TARGET_WAITING)
      (on_td (\<lambda>t. t\<lparr>td_current_state := set_flag (td_current_state t) TARGET_CURRENT_STATE_WAITING_THIS\<rparr>) s)"
    by (auto simp: get_specific_worker_thread_def specific_take_def split: if_splits option.splits)
  have "touches None s s1"
    unfolding w by (auto simp: touches_def workers_on_sync on_sync_frame workers_def on_td_def flag_simps
        flag_on_def [of WTSYNC_TARGET_WAITING])
  with Wait assms show ?thesis by (auto simp: with_specific_def split: option.splits)
qed (use assms in \<open>auto simp: with_specific_def\<close>)

lemma resume_step:
  assumes "resume_specific w here go s = Some (pc', r, s')"
  shows "(\<exists>s1. \<not> busy s w \<and> busy s1 w \<and> touches (Some w) s s1 \<and> go w s1 = Some (pc', r, s')) \<or>
         (pc' = here \<and> r = None \<and> s' = s \<and> busy s w)"
proof (cases "busy s w")
  case True
  then show ?thesis using assms by (simp add: resume_specific_def specific_resume_def)
next
  case False
  let ?t = "on_td (\<lambda>t. t\<lparr>td_current_state :=
      clear_flag (td_current_state t) TARGET_CURRENT_STATE_WAITING_THIS\<rparr>) s"
  have "touches (Some w) s (on_sync w (\<lambda>f. set_flag f WTSYNC_BUSY) ?t)"
    by (rule touches_trans [OF touches_td touches_sync]) simp_all
  moreover have "go w (on_sync w (\<lambda>f. set_flag f WTSYNC_BUSY) ?t) = Some (pc', r, s')"
    using assms False by (simp add: resume_specific_def specific_resume_def specific_take_def)
  ultimately show ?thesis using False busy_set [of w ?t] by blast
qed

lemma eof_task_step:
  "eof_task q w s = Some (pc', r, s') \<Longrightarrow> r = Some w \<and> pc' = P_Eof (Suc q) \<and> locator_view s' = locator_view s"
  by (auto simp: eof_task_def release_task_def view_emit dest: view_setup_eof)

lemma collect_step:
  "collect k q w s = Some (pc', r, s') \<Longrightarrow> r = None \<and> (\<forall>v. pc' \<noteq> P_Got v) \<and> touches (Some w) s s'"
proof -
  assume a: "collect k q w s = Some (pc', r, s')"
  have "touches (Some w) s (unbusy w s)" by (simp add: unbusy_def touches_sync)
  moreover have "touches (Some w) (unbusy w s) (on_td (\<lambda>t. t\<lparr>td_any_worker_thread_available :=
      td_any_worker_thread_available t + 1\<rparr>) (unbusy w s))" by (rule touches_td) simp_all
  ultimately show ?thesis
    using a touches_trans by (auto simp: collect_def Let_def split: if_splits)
qed


lemma got_step:
  assumes "step_got k now w s = Some (pc', r, s')"
  shows "(\<forall>v. pc' \<noteq> P_Got v) \<and>
    (r = Some w \<and> locator_view s' = locator_view s \<or> r = None \<and> touches (Some w) s s')"
proof (cases "k = E2e_Dst")
  case True
  have tc: "locator_view (on_tc (\<lambda>c. c\<lparr>tc_current_op_number := tc_current_op_number c + 1\<rparr>) t) = locator_view t" for t
    by (simp add: on_tc_def view_td)
  show ?thesis
    using assms True
    by (auto simp: step_got_def unbusy_def touches_sync release_task_def view_emit tc dest: view_setup_dst split: if_splits)
next
  case False
  obtain st s1 where b: "xdd_target_ttd_before_io_op now w s = Some (st, s1)"
    using assms False by (cases "xdd_target_ttd_before_io_op now w s") (auto simp: step_got_def)
  have t1: "touches (Some w) s s1"
    using view_before [OF b] touches_view [of s1 s] touches_view [of s1 "unbusy w s"]
      touches_trans [of "Some w" s "unbusy w s" s1] touches_sync [of w s] by (auto simp: unbusy_def)
  show ?thesis
  proof (cases "st = XDD_RC_GOOD")
    case good: True
    then have v: "locator_view s1 = locator_view s" using view_before [OF b] by auto
    obtain s2 where "(if k = Normal then xdd_target_pass_task_setup w s1
        else xdd_targetpass_e2e_task_setup_src w s1) = Some s2" "pc' = P_Top" "r = Some w" "s' = release_task w s2"
      using assms False b good by (auto simp: step_got_def)
    then show ?thesis
      using v view_setup [of w s1 s2] view_setup_src [of w s1 s2]
      by (auto simp: release_task_def view_emit split: if_splits)
  next
    case bad: False
    then have "pc' = P_After" "r = None" "s' = (if k = Normal then unbusy w s1 else s1)"
      using assms False b by (auto simp: step_got_def)
    then show ?thesis using t1 touches_trans [OF t1 touches_sync] by (simp add: unbusy_def)
  qed
qed

text \<open>The step of the target in one statement.\<close>

lemma target_step_safe:
  assumes inv: "pass_inv ws (pc, ks, s)" and st: "target_step k now pc s = Some (pc', r, s')"
  shows "(\<forall>w. r = Some w \<longrightarrow> ks w \<noteq> K_Running) \<and> pass_inv ws (pc', release_to r ks, s')"
proof -
  have w: "workers s ws" and run: "\<And>w. ks w = K_Running \<Longrightarrow> busy s w"
    and got: "\<And>w. pc = P_Got w \<Longrightarrow> busy s w \<and> ks w \<noteq> K_Running"
    using inv by (auto simp: pass_inv_def)
  have keep: ?thesis if "r = None" "\<And>v. pc' \<noteq> P_Got v" "touches (Some v) s s'" "ks v \<noteq> K_Running" for v
    using that w run by (simp add: pass_inv_def release_to_def touches_def) metis
  have none: ?thesis if "r = None" "\<And>v. pc' \<noteq> P_Got v" "touches None s s'"
    using that w run by (auto simp: pass_inv_def release_to_def touches_def)
  have rel: ?thesis if "r = Some v" "\<And>u. pc' \<noteq> P_Got u" "touches (Some v) s s'" "ks v \<noteq> K_Running" "busy s' v" for v
    using that w run by (auto simp: pass_inv_def release_to_def touches_def)
  have new: ?thesis if "r = None" "pc' = P_Got v" "\<not> busy s v" "busy s' v" "touches (Some v) s s'" for v
    using that w run by (simp add: pass_inv_def release_to_def touches_def) metis
  have idle: "ks v \<noteq> K_Running" if "\<not> busy s v" for v using run that by blast
  have loc: ?thesis if "workers t ws" "touches None s t"
      "on_located k (get_any_available_worker_thread t) = Some (pc', r, s')" for t
    using located_step [OF that(1,3)] new none that(2) by (auto simp: touches_def)
  have spec: ?thesis if "\<And>v s1. go v s1 = Some (pc', r, s') \<Longrightarrow>
        (r = Some v \<and> (\<forall>u. pc' \<noteq> P_Got u) \<and> locator_view s' = locator_view s1) \<or>
        (r = None \<and> (\<forall>u. pc' \<noteq> P_Got u) \<and> touches (Some v) s1 s')"
      "\<exists>v s1. \<not> busy s v \<and> busy s1 v \<and> touches (Some v) s s1 \<and> go v s1 = Some (pc', r, s')" for go
  proof -
    from that(2) obtain v s1 where v: "\<not> busy s v" "busy s1 v" "touches (Some v) s s1" "go v s1 = Some (pc', r, s')"
      by blast
    from that(1) [OF v(4)] show ?thesis
    proof
      assume a: "r = Some v \<and> (\<forall>u. pc' \<noteq> P_Got u) \<and> locator_view s' = locator_view s1"
      then show ?thesis
        using rel [of v] touches_trans [OF v(3) touches_view] idle [OF v(1)] v(2) locator_viewD(2) by blast
    next
      assume a: "r = None \<and> (\<forall>u. pc' \<noteq> P_Got u) \<and> touches (Some v) s1 s'"
      then show ?thesis using keep [of v] touches_trans [OF v(3)] idle [OF v(1)] by blast
    qed
  qed
  have eof: "eof_task q v s1 = Some (pc', r, s') \<Longrightarrow>
        (r = Some v \<and> (\<forall>u. pc' \<noteq> P_Got u) \<and> locator_view s' = locator_view s1) \<or>
        (r = None \<and> (\<forall>u. pc' \<noteq> P_Got u) \<and> touches (Some v) s1 s')" for q v s1
    using eof_task_step by fastforce
  have col: "collect k q v s1 = Some (pc', r, s') \<Longrightarrow>
        (r = Some v \<and> (\<forall>u. pc' \<noteq> P_Got u) \<and> locator_view s' = locator_view s1) \<or>
        (r = None \<and> (\<forall>u. pc' \<noteq> P_Got u) \<and> touches (Some v) s1 s')" for q v s1
    using collect_step by fastforce
  have wsp: ?thesis if a: "with_specific q wait go s = Some (pc', r, s')" and nw: "\<And>v u. wait v \<noteq> P_Got u"
      and g: "\<And>v s1. go v s1 = Some (pc', r, s') \<Longrightarrow>
        (r = Some v \<and> (\<forall>u. pc' \<noteq> P_Got u) \<and> locator_view s' = locator_view s1) \<or>
        (r = None \<and> (\<forall>u. pc' \<noteq> P_Got u) \<and> touches (Some v) s1 s')" for q wait go
    by (rule disjE [OF specific_step [OF a]], rule spec [of go, OF g], assumption, assumption, rule none)
       (use nw in auto)
  have rsp: ?thesis if a: "resume_specific v here go s = Some (pc', r, s')" and nw: "\<And>u. here \<noteq> P_Got u"
      and g: "\<And>v s1. go v s1 = Some (pc', r, s') \<Longrightarrow>
        (r = Some v \<and> (\<forall>u. pc' \<noteq> P_Got u) \<and> locator_view s' = locator_view s1) \<or>
        (r = None \<and> (\<forall>u. pc' \<noteq> P_Got u) \<and> touches (Some v) s1 s')" for v here go
    by (rule disjE [OF resume_step [OF a]], rule spec [of go, OF g], assumption, blast, rule none)
       (use nw in \<open>auto simp: touches_def\<close>)
  have same: "touches None s s" by (simp add: touches_def)
  show ?thesis
  proof (cases pc)
    case P_Top
    have lk: "touches None s (on_td (\<lambda>t. t\<lparr>td_current_bytes_remaining := 0\<rparr>) (emit Ran_Lockstep s))"
      by (rule touches_view) (simp add: view_td view_emit)
    then show ?thesis using st P_Top same none loc [OF w same] by (auto simp: step_top_def split: if_splits)
  next
    case P_Wait_Any
    let ?t = "on_td (\<lambda>t. t\<lparr>td_current_state := clear_flag (td_current_state t) TARGET_CURRENT_STATE_WAITING_ANY\<rparr>) s"
    have "touches None s ?t" by (rule touches_td) simp_all
    moreover then have "workers ?t ws" using w by (simp add: touches_def)
    ultimately show ?thesis using st P_Wait_Any loc [of ?t] by (simp add: any_resume_def)
  next
    case (P_Got v)
    then have g: "busy s v" "ks v \<noteq> K_Running" using got by auto
    have "step_got k now v s = Some (pc', r, s')" using st P_Got by simp
    from got_step [OF this] show ?thesis
      using rel [of v] keep [of v] g touches_view [of s' s "Some v"] locator_viewD(2) [of s' s v] by blast
  next
    case P_After
    then show ?thesis using st same none by (auto split: if_splits)
  next
    case (P_Eof q)
    show ?thesis
    proof (cases "q < td_queue_depth (td s)")
      case True
      then have "with_specific q (P_Eof_Wait q) (eof_task q) s = Some (pc', r, s')" using st P_Eof by simp
      then show ?thesis by (rule wsp) (simp, rule eof)
    next
      case False
      then show ?thesis using st P_Eof same none by auto
    qed
  next
    case (P_Eof_Wait q v)
    then have "resume_specific v (P_Eof_Wait q v) (eof_task q) s = Some (pc', r, s')" using st by simp
    then show ?thesis by (rule rsp) (simp, rule eof)
  next
    case (P_Collect q)
    show ?thesis
    proof (cases "q < td_queue_depth (td s)")
      case True
      then have "with_specific q (P_Collect_Wait q) (collect k q) s = Some (pc', r, s')" using st P_Collect by simp
      then show ?thesis by (rule wsp) (simp, rule col)
    next
      case False
      then show ?thesis using st P_Collect same none by auto
    qed
  next
    case (P_Collect_Wait q v)
    then have "resume_specific v (P_Collect_Wait q v) (collect k q) s = Some (pc', r, s')" using st by simp
    then show ?thesis by (rule rsp) (simp, rule col)
  next
    case P_Check
    have "touches None s (s\<lparr>target_errno := n\<rparr>)" for n by (rule touches_view) (simp add: view_fields)
    then show ?thesis using st P_Check same none by (auto split: if_splits)
  next
    case P_Return
    then show ?thesis using st same none by auto
  qed
qed

lemma worker_available_frame:
  "workers (worker_available w s) ws = workers s ws"
  "v \<noteq> w \<Longrightarrow> busy (worker_available w s) v = busy s v"
proof -
  show "workers (worker_available w s) ws = workers s ws"
    using workers_on_sync by (simp add: worker_available_def workers_def on_td_def on_sync_frame)
  show "v \<noteq> w \<Longrightarrow> busy (worker_available w s) v = busy s v"
    by (simp add: worker_available_def on_td_def on_sync_frame)
qed

lemma pass_step_inv:
  assumes "pass_step k p p'" and "pass_inv ws p"
  shows "pass_inv ws p'"
  using assms
proof (induction rule: pass_step.induct)
  case (target now pc s pc' r s' ks)
  then show ?case using target_step_safe by blast
next
  case (worker ks w e s ex s1 pc)
  have v: "workers s1 ws = workers s ws" "\<And>v. busy s1 v = busy s v"
    using locator_viewD [OF view_worker_task [OF worker.hyps(2)]] by blast+
  have "pc \<noteq> P_Got w" using worker.hyps(1) worker.prems by (auto simp: pass_inv_def)
  then show ?case
    using worker.prems v worker_available_frame(1) [of w s1] worker_available_frame(2) [of _ w s1]
    by (auto simp: pass_inv_def)
qed

lemma reachable_inv: "(pass_step k)\<^sup>*\<^sup>* p p' \<Longrightarrow> pass_inv ws p \<Longrightarrow> pass_inv ws p'"
  by (induction rule: rtranclp_induct) (auto intro: pass_step_inv)

subsection \<open>A worker left busy blocks the end-of-file loop\<close>

definition hung :: "nat \<Rightarrow> nat \<Rightarrow> pass \<Rightarrow> bool" where
  "hung q w = (\<lambda>(pc, ks, s). pc = P_Eof_Wait q w \<and> ks w \<noteq> K_Running \<and> busy s w)"

lemma hung_step:
  assumes "pass_step k p p'" and "hung q w p"
  shows "hung q w p'"
  using assms
proof (induction rule: pass_step.induct)
  case (target now pc s pc' r s' ks)
  then have "resume_specific w (P_Eof_Wait q w) (eof_task q) s = Some (pc', r, s')" "busy s w" "ks w \<noteq> K_Running"
    by (auto simp: hung_def)
  from resume_step [OF this(1)] this(2,3) show ?case by (auto simp: hung_def release_to_def)
next
  case (worker ks v e s ex s1 pc)
  have b: "\<And>u. busy s1 u = busy s u" using locator_viewD(2) [OF view_worker_task [OF worker.hyps(2)]] .
  have "v \<noteq> w" using worker.hyps(1) worker.prems by (auto simp: hung_def)
  then show ?case using worker.prems b worker_available_frame(2) [of w v s1] by (auto simp: hung_def)
qed

lemma hung_forever: "(pass_step k)\<^sup>*\<^sup>* p p' \<Longrightarrow> hung q w p \<Longrightarrow> hung q w p'"
  by (induction rule: rtranclp_induct) (auto intro: hung_step)

lemma limit_expired:
  assumes "td_trigp (td s) = None" "td_time_limit_ticks (td s) \<noteq> 0"
    and "td_time_limit_ticks (td s) \<le> now - tc_pass_start_time (td_counters (td s))"
  obtains s1 where "xdd_target_ttd_before_io_op now w s = Some (XDD_RC_BAD, s1)" "wd s1 = wd s"
    "locator_view s1 = locator_view s" "canceled s1 = canceled s"
proof -
  define s0 where "s0 = xdd_syncio_before_io_op s"
  have s0: "td s0 = td s" "wd s0 = wd s" "canceled s0 = canceled s" "locator_view s0 = locator_view s"
    by (simp_all add: s0_def xdd_syncio_before_io_op_def emit_def locator_view_def)
  have "ttd_limits now s = (XDD_RC_BAD, on_td (\<lambda>t. t\<lparr>td_time_limit_expired := True\<rparr>) s0)"
    using assms s0
    by (simp add: ttd_limits_def s0_def [symmetric] xdd_start_trigger_before_io_op_def xdd_timelimit_before_io_op_def)
  then have "xdd_target_ttd_before_io_op now w s = Some (XDD_RC_BAD, on_td (\<lambda>t. t\<lparr>td_time_limit_expired := True\<rparr>) s0)"
    by (simp add: xdd_target_ttd_before_io_op_def)
  then show ?thesis
    by (rule that) (use s0 view_td [of "\<lambda>t. t\<lparr>td_time_limit_expired := True\<rparr>" s0] in \<open>simp_all add: on_td_def\<close>)
qed

subsection \<open>Properties\<close>

text \<open>C1: In all three pass loops and under every interleaving with the workers, a task is only
  ever set up for and released to a worker that is not running one.\<close>

theorem tasks_never_overlap:
  assumes "pass_inv ws p0" and "(pass_step k)\<^sup>*\<^sup>* p0 (pc, ks, s)"
    and "target_step k now pc s = Some (pc', Some w, s')"
  shows "ks w \<noteq> K_Running"
  using target_step_safe [OF reachable_inv [OF assms(2,1)] assms(3)] by blast

text \<open>Two workers, of which the first has been obtained for the next operation.\<close>

definition sample_got :: xdd where
  "sample_got = on_sync 0 (\<lambda>f. set_flag f WTSYNC_BUSY) (sample 2 1 0)"

lemma sample_got_workers: "workers sample_got [0, 1]" "busy sample_got w \<longleftrightarrow> w = 0"
  by (simp_all add: workers_def chain.simps sample_got_def state_simps sample_simps set_flag_def flag_on_def)

theorem tasks_never_overlap_witness:
  "\<exists>s'. target_step Normal 0 (P_Got 0) sample_got = Some (P_Top, Some 0, s') \<and>
     (\<lambda>w. if w = (1 :: nat) then K_Exited else K_Idle) 0 \<noteq> K_Running"
proof -
  let ?ks = "\<lambda>w. if w = (1 :: nat) then K_Exited else K_Idle"
  have inv: "pass_inv [0, 1] (P_Got 0, ?ks, sample_got)"
    by (simp add: pass_inv_def sample_got_workers [simplified])
  have "\<exists>s'. target_step Normal 0 (P_Got 0) sample_got = Some (P_Top, Some 0, s')"
    by (simp add: step_got_def xdd_target_ttd_before_io_op_def ttd_limits_def xdd_syncio_before_io_op_def
        xdd_start_trigger_before_io_op_def xdd_timelimit_before_io_op_def xdd_runtime_before_io_op_def
        locate_op_def seek_index_def ttd_checks_def stopped_def xdd_target_pass_task_setup_def ts_assign_def
        sample_got_def state_simps sample_simps flag_on_def Let_def)
  then obtain s' where "target_step Normal 0 (P_Got 0) sample_got = Some (P_Top, Some 0, s')" by blast
  with tasks_never_overlap [OF inv rtranclp.rtrancl_refl this] show ?thesis by blast
qed

text \<open>C30: The source side of an end-to-end pass hangs when its time limit expires: the worker that
  was obtained for the next operation stays marked busy although it has no task, and the
  end-of-file loop waits for it for ever.\<close>

theorem e2e_source_time_limit_hang:
  assumes "workers s (w # ws)" and "busy s w" and "ks w = K_Idle" and "\<not> canceled s"
    and "td_trigp (td s) = None" and "td_time_limit_ticks (td s) \<noteq> 0"
    and "td_time_limit_ticks (td s) \<le> now - tc_pass_start_time (td_counters (td s))"
  shows "\<exists>p. (pass_step E2e_Src)\<^sup>*\<^sup>* (P_Got w, ks, s) p \<and>
             (\<forall>p'. (pass_step E2e_Src)\<^sup>*\<^sup>* p p' \<longrightarrow> fst p' = P_Eof_Wait 0 w)"
proof -
  obtain s1 where b: "xdd_target_ttd_before_io_op now w s = Some (XDD_RC_BAD, s1)"
    and s1: "wd s1 = wd s" "locator_view s1 = locator_view s" "canceled s1 = canceled s"
    using limit_expired [OF assms(5-7)] .
  have w1: "workers s1 (w # ws)" "busy s1 w" using locator_viewD [OF s1(2)] assms(1,2) by auto
  have qd: "0 < td_queue_depth (td s1)" using w1(1) by (auto simp: workers_def)
  have at: "td_next_wdp (td s1) = Some w" using w1(1) by (simp add: workers_def)
  let ?s2 = "on_sync w (\<lambda>f. set_flag f WTSYNC_TARGET_WAITING)
      (on_td (\<lambda>t. t\<lparr>td_current_state := set_flag (td_current_state t) TARGET_CURRENT_STATE_WAITING_THIS\<rparr>) s1)"
  have "target_step E2e_Src now (P_Got w) s = Some (P_After, None, s1)" using b by (simp add: step_got_def)
  from pass_step.target [OF this, of ks] have 1: "pass_step E2e_Src (P_Got w, ks, s) (P_After, ks, s1)"
    by (simp add: release_to_def)
  have "target_step E2e_Src now P_After s1 = Some (P_Eof 0, None, s1)" using assms(4) s1(3) by simp
  from pass_step.target [OF this, of ks] have 2: "pass_step E2e_Src (P_After, ks, s1) (P_Eof 0, ks, s1)"
    by (simp add: release_to_def)
  have "target_step E2e_Src now (P_Eof 0) s1 = Some (P_Eof_Wait 0 w, None, ?s2)"
    using qd at w1(2) by (simp add: with_specific_def get_specific_worker_thread_def worker_at_def)
  from pass_step.target [OF this, of ks] have 3: "pass_step E2e_Src (P_Eof 0, ks, s1) (P_Eof_Wait 0 w, ks, ?s2)"
    by (simp add: release_to_def)
  have "busy ?s2 w" using w1(2) by (simp add: on_sync_frame on_td_def flag_simps)
  then have h: "hung 0 w (P_Eof_Wait 0 w, ks, ?s2)" using assms(3) by (simp add: hung_def)
  have "fst p' = P_Eof_Wait 0 w" if "(pass_step E2e_Src)\<^sup>*\<^sup>* (P_Eof_Wait 0 w, ks, ?s2) p'" for p'
    using hung_forever [OF that h] by (auto simp: hung_def)
  with 1 2 3 show ?thesis by (meson converse_rtranclp_into_rtranclp rtranclp.rtrancl_refl)
qed

theorem e2e_source_time_limit_hang_witness:
  "\<exists>p. (pass_step E2e_Src)\<^sup>*\<^sup>*
       (P_Got 0, \<lambda>_. K_Idle, on_td (\<lambda>t. t\<lparr>td_time_limit_ticks := 5\<rparr>) sample_got) p \<and>
     (\<forall>p'. (pass_step E2e_Src)\<^sup>*\<^sup>* p p' \<longrightarrow> fst p' = P_Eof_Wait 0 0)"
proof -
  let ?s = "on_td (\<lambda>t. t\<lparr>td_time_limit_ticks := 5\<rparr>) sample_got"
  have "workers ?s [0, 1]" "busy ?s 0" using sample_got_workers by (simp_all add: workers_def on_td_def)
  moreover have "\<not> canceled ?s" "td_trigp (td ?s) = None" "td_time_limit_ticks (td ?s) \<noteq> 0"
    "td_time_limit_ticks (td ?s) \<le> 10 - tc_pass_start_time (td_counters (td ?s))"
    by (simp_all add: sample_got_def state_simps sample_simps)
  ultimately show ?thesis using e2e_source_time_limit_hang [of ?s 0 "[1]" "\<lambda>_. K_Idle" 10] by simp
qed

end
