(* ===== verification/Lockstep.thy ===== *)
theory Lockstep
  imports Pass_Loop
begin

unbundle bit_operations_syntax

text \<open>
  Targets in lockstep (\<^verbatim>\<open>src/base/lockstep.c\<close>, \<^verbatim>\<open>src/common/lockstep.h\<close>, and the linking of
  targets by \<^verbatim>\<open>-lockstep\<close> in \<^verbatim>\<open>src/client/parse_func.c\<close>).  The targets form a ring; the first one
  runs an interval of operations, releases the next target that has not completed its pass at
  that target's barrier, and waits at its own.  A run is a step relation over all target threads
  and their workers.  A barrier of two lets any two threads that are in it go on together.
  The abort and run-time flags are global: a step of one target shares them with the others, and
  \<open>run_canceled\<close>, which only the signal handler sets, is one flag of the run.
\<close>

abbreviation (input) LS_INTERVAL_TIME :: u32 where "LS_INTERVAL_TIME \<equiv> 1"
abbreviation (input) LS_INTERVAL_OP :: u32 where "LS_INTERVAL_OP \<equiv> 2"
abbreviation (input) LS_INTERVAL_PERCENT :: u32 where "LS_INTERVAL_PERCENT \<equiv> 4"
abbreviation (input) LS_INTERVAL_BYTES :: u32 where "LS_INTERVAL_BYTES \<equiv> 8"
abbreviation (input) XDD_RC_UGLY :: int where "XDD_RC_UGLY \<equiv> -1"
abbreviation (input) LS_STATE_INITIALIZED :: u32 where "LS_STATE_INITIALIZED \<equiv> 1"
abbreviation (input) LS_STATE_I_AM_THE_FIRST :: u32 where "LS_STATE_I_AM_THE_FIRST \<equiv> 0x20"
abbreviation (input) LS_STATE_PASS_COMPLETE :: u32 where "LS_STATE_PASS_COMPLETE \<equiv> 0x400"
abbreviation (input) LS_STATE_END_STOP :: u32 where "LS_STATE_END_STOP \<equiv> 0x04000000"

record lockstep =
  ls_interval_type :: u32
  ls_interval_value :: u64
  ls_ops_completed_this_interval :: u64
  ls_ops_completed_this_pass :: u64
  ls_bytes_scheduled :: u64
  ls_bytes_completed :: u64
  ls_task_counter :: u64
  ls_state :: u32
  ls_next_tdp :: "nat ptr"

subsection \<open>Linking the targets\<close>

text \<open>
  The lockstep structures by target number, \<open>None\<close> where there is none yet.  The first
  \<^verbatim>\<open>-lockstep\<close> makes its master the first target; each one puts its slave behind its master.
\<close>

definition zero_lockstep :: lockstep where
  "zero_lockstep = \<lparr>ls_interval_type = 0, ls_interval_value = 0, ls_ops_completed_this_interval = 0,
     ls_ops_completed_this_pass = 0, ls_bytes_scheduled = 0, ls_bytes_completed = 0,
     ls_task_counter = 0, ls_state = 0, ls_next_tdp = None\<rparr>"

definition lockstep_structure :: "nat \<Rightarrow> (nat \<Rightarrow> lockstep option) \<Rightarrow> nat \<Rightarrow> lockstep option" where
  "lockstep_structure t m = (case m t of None \<Rightarrow> m(t \<mapsto> zero_lockstep) | Some _ \<Rightarrow> m)"

definition on_lsp :: "nat \<Rightarrow> (lockstep \<Rightarrow> lockstep) \<Rightarrow> (nat \<Rightarrow> lockstep option) \<Rightarrow> nat \<Rightarrow> lockstep option" where
  "on_lsp t f m = m(t := map_option f (m t))"

definition xddfunc_lockstep_link ::
    "nat \<Rightarrow> nat \<Rightarrow> bool \<times> (nat \<Rightarrow> lockstep option) \<Rightarrow> bool \<times> (nat \<Rightarrow> lockstep option)" where
  "xddfunc_lockstep_link mt st = (\<lambda>(go_lockstep, m).
     (let m1 = lockstep_structure st (lockstep_structure mt m);
          m2 = (if go_lockstep then m1
                else on_lsp mt (\<lambda>l. l\<lparr>ls_state := set_flag (ls_state l) LS_STATE_I_AM_THE_FIRST\<rparr>) m1);
          after = (case Option.bind (m2 mt) ls_next_tdp of Some n \<Rightarrow> n | None \<Rightarrow> mt);
          m3 = on_lsp st (\<lambda>l. l\<lparr>ls_next_tdp := Some after\<rparr>) m2;
          m4 = on_lsp mt (\<lambda>l. l\<lparr>ls_next_tdp := Some st\<rparr>) m3
      in (True, on_lsp st (\<lambda>l. l\<lparr>ls_state := clear_flag (ls_state l) LS_STATE_I_AM_THE_FIRST\<rparr>) m4)))"

subsection \<open>Initialization and triggers\<close>

definition xdd_lockstep_before_pass :: "lockstep option \<Rightarrow> lockstep option" where
  "xdd_lockstep_before_pass = map_option (\<lambda>l. l\<lparr>ls_ops_completed_this_interval := 0,
     ls_ops_completed_this_pass := 0, ls_bytes_scheduled := 0, ls_bytes_completed := 0,
     ls_state := clear_flag (ls_state l) LS_STATE_PASS_COMPLETE\<rparr>)"

text \<open>The result is the return code, the global abort flag and whether the mutex and the barrier were made.\<close>

definition xdd_lockstep_init :: "int \<Rightarrow> bool \<Rightarrow> lockstep option \<Rightarrow> int \<times> bool \<times> bool \<times> lockstep option" where
  "xdd_lockstep_init mutex_status abort lsp =
     (case lsp of
        None \<Rightarrow> (XDD_RC_GOOD, abort, False, None)
      | Some l \<Rightarrow>
          if flag_on (ls_state l) LS_STATE_INITIALIZED then (XDD_RC_GOOD, abort, False, Some l)
          else if mutex_status \<noteq> 0 then (XDD_RC_UGLY, True, False, Some l)
          else (XDD_RC_GOOD, abort, True, Some (l\<lparr>ls_state := set_flag (ls_state l) LS_STATE_INITIALIZED\<rparr>)))"

definition trigger_time :: "nclk \<Rightarrow> bool \<times> lockstep \<Rightarrow> bool \<times> lockstep" where
  "trigger_time now = (\<lambda>(st, l).
     if flag_on (ls_interval_type l) LS_INTERVAL_TIME
     then (st \<or> ls_interval_value l < now, l\<lparr>ls_task_counter := ls_task_counter l + 1\<rparr>) else (st, l))"

definition trigger_op :: "bool \<times> lockstep \<Rightarrow> bool \<times> lockstep" where
  "trigger_op = (\<lambda>(st, l).
     if flag_on (ls_interval_type l) LS_INTERVAL_OP
     then let n = ls_ops_completed_this_interval l + 1;
              l1 = l\<lparr>ls_ops_completed_this_pass := ls_ops_completed_this_pass l + 1\<rparr>
          in if ls_interval_value l \<le> n then (True, l1\<lparr>ls_ops_completed_this_interval := 0\<rparr>)
             else (st, l1\<lparr>ls_ops_completed_this_interval := n\<rparr>)
     else (st, l))"

definition trigger_percent :: "u64 \<Rightarrow> bool \<times> lockstep \<Rightarrow> bool \<times> lockstep" where
  "trigger_percent op = (\<lambda>(st, l).
     if flag_on (ls_interval_type l) LS_INTERVAL_PERCENT
     then let n = ls_task_counter l + 1
          in if n \<le> op then (True, l\<lparr>ls_task_counter := 0\<rparr>) else (st, l\<lparr>ls_task_counter := n\<rparr>)
     else (st, l))"

definition trigger_bytes :: "int \<Rightarrow> bool \<times> lockstep \<Rightarrow> bool \<times> lockstep" where
  "trigger_bytes io_status = (\<lambda>(st, l).
     if flag_on (ls_interval_type l) LS_INTERVAL_BYTES
     then let n = ls_bytes_completed l + word_of_int io_status
          in if ls_interval_value l \<le> n then (True, l\<lparr>ls_bytes_completed := 0\<rparr>)
             else (st, l\<lparr>ls_bytes_completed := n\<rparr>)
     else (st, l))"

definition xdd_lockstep_check_triggers :: "nclk \<Rightarrow> u64 \<Rightarrow> xint_target_counters \<Rightarrow> xint_target_counters \<Rightarrow>
    lockstep \<Rightarrow> bool \<times> lockstep" where
  "xdd_lockstep_check_triggers now target_ops tc wc l =
     (let (st, l1) = trigger_bytes (tc_current_io_status wc)
             (trigger_percent (tc_current_op_number tc) (trigger_op (trigger_time now (False, l))))
      in if target_ops \<le> ls_ops_completed_this_pass l1
         then (True, l1\<lparr>ls_state := set_flag (ls_state l1) LS_STATE_PASS_COMPLETE\<rparr>)
         else (st, l1))"

subsection \<open>The target thread in lockstep\<close>

text \<open>
  The control points carry \<^verbatim>\<open>ops_remaining\<close>; inside the inner loop also the index and
  \<^verbatim>\<open>ops_this_interval\<close>.
\<close>

datatype ls_pc = L_Start | L_First_Wait | L_While u64 | L_For u64 int int | L_Wait_Any u64 int int
  | L_Got u64 int int nat | L_Collect u64 nat | L_Collect_Wait u64 nat nat | L_Next u64
  | L_Release u64 nat | L_Wait u64 | L_Done

definition ops_this_interval :: "u64 \<Rightarrow> lockstep \<Rightarrow> int" where
  "ops_this_interval rem l = sint (if rem < ls_interval_value l then rem else ls_interval_value l)"

definition ls_located :: "u64 \<Rightarrow> int \<Rightarrow> int \<Rightarrow> locator option \<Rightarrow> ls_pc result_at" where
  "ls_located rem i n l =
     (case l of
        Some (Got w s) \<Rightarrow> Some (L_Got rem i n w, None, s)
      | Some (Wait s) \<Rightarrow> Some (L_Wait_Any rem i n, None, s)
      | _ \<Rightarrow> None)"

definition ls_got :: "nclk \<Rightarrow> u64 \<Rightarrow> int \<Rightarrow> int \<Rightarrow> nat \<Rightarrow> xdd \<Rightarrow> ls_pc result_at" where
  "ls_got now rem i n w s =
     Option.bind (xdd_target_ttd_before_io_op now w s) (\<lambda>(st, s1).
       if st \<noteq> XDD_RC_GOOD then Some (L_Collect rem 0, None, unbusy w s1)
       else map_option (\<lambda>s2. (L_For (rem - 1) (i + 1) n, Some w, release_task w s2))
              (xdd_target_pass_task_setup w s1))"

definition ls_collected :: "u64 \<Rightarrow> nat \<Rightarrow> nat \<Rightarrow> xdd \<Rightarrow> ls_pc result_at" where
  "ls_collected rem q w s = Some (L_Collect rem (Suc q), None, unbusy w s)"

fun xdd_lockstep :: "nclk \<Rightarrow> u64 \<Rightarrow> lockstep \<Rightarrow> ls_pc \<Rightarrow> xdd \<Rightarrow> ls_pc result_at" where
  "xdd_lockstep now ops l L_Start s =
     Some (if flag_on (ls_state l) LS_STATE_I_AM_THE_FIRST then L_While ops else L_First_Wait, None, s)"
| "xdd_lockstep now ops l (L_While rem) s =
     Some (if rem = 0 then L_Done else L_For rem 0 (ops_this_interval rem l), None, s)"
| "xdd_lockstep now ops l (L_For rem i n) s =
     (if i < n then ls_located rem i n (get_any_available_worker_thread s)
      else Some (L_Collect rem 0, None, s))"
| "xdd_lockstep now ops l (L_Wait_Any rem i n) s = ls_located rem i n (any_resume s)"
| "xdd_lockstep now ops l (L_Got rem i n w) s = ls_got now rem i n w s"
| "xdd_lockstep now ops l (L_Collect rem q) s =
     (if q < td_queue_depth (td s) then with_specific q (L_Collect_Wait rem q) (ls_collected rem q) s
      else Some (L_Next rem, None, s))"
| "xdd_lockstep now ops l (L_Collect_Wait rem q w) s =
     resume_specific w (L_Collect_Wait rem q w) (ls_collected rem q) s"
| "xdd_lockstep now ops l _ s = None"

text \<open>
  The search for the next target: from \<open>j\<close> on, the first that has not completed its pass, or the
  searching target \<open>t\<close> itself.  In a ring the search ends.
\<close>

partial_function (option) skip_complete :: "(nat \<Rightarrow> lockstep) \<Rightarrow> nat \<Rightarrow> nat \<Rightarrow> bool \<Rightarrow> (nat \<times> bool) option" where
  "skip_complete ls t j st =
     (if flag_on (ls_state (ls j)) LS_STATE_PASS_COMPLETE
      then case ls_next_tdp (ls j) of
             None \<Rightarrow> None
           | Some k \<Rightarrow> if k = t then Some (k, True) else skip_complete ls t k True
      else Some (j, st))"

definition set_complete :: "nat \<Rightarrow> (nat \<Rightarrow> lockstep) \<Rightarrow> nat \<Rightarrow> lockstep" where
  "set_complete t ls = ls(t := (ls t)\<lparr>ls_state := set_flag (ls_state (ls t)) LS_STATE_PASS_COMPLETE\<rparr>)"

definition lockstep_next :: "nat \<Rightarrow> u64 \<Rightarrow> (nat \<Rightarrow> lockstep) \<Rightarrow> (ls_pc \<times> (nat \<Rightarrow> lockstep)) option" where
  "lockstep_next t rem ls =
     (let ls1 = (if rem = 0 then set_complete t ls else ls) in
      Option.bind (ls_next_tdp (ls1 t)) (\<lambda>j.
      map_option (\<lambda>(k, st).
          let stop = st \<and> flag_on (ls_state (ls1 t)) LS_STATE_END_STOP;
              rem1 = (if stop then 0 else rem);
              ls2 = (if stop then set_complete t ls1 else ls1)
          in (if k = t then L_While rem1 else L_Release rem1 k, ls2))
        (skip_complete ls1 t j False)))"

subsection \<open>All targets\<close>

record ls_run =
  run_lsp :: "nat \<Rightarrow> lockstep"
  run_target_ops :: "nat \<Rightarrow> u64"
  run_pc :: "nat \<Rightarrow> ls_pc"
  run_xdd :: "nat \<Rightarrow> xdd"
  run_phase :: "nat \<Rightarrow> nat \<Rightarrow> worker_phase"
  run_canceled :: bool

definition at_barrier :: "nat \<Rightarrow> ls_pc \<Rightarrow> nat ptr" where
  "at_barrier t pc = (case pc of L_First_Wait \<Rightarrow> Some t | L_Wait _ \<Rightarrow> Some t | L_Release _ j \<Rightarrow> Some j | _ \<Rightarrow> None)"

text \<open>Where a thread goes on after the barrier it was in.\<close>

definition after_barrier :: "u64 \<Rightarrow> lockstep \<Rightarrow> ls_pc \<Rightarrow> ls_pc" where
  "after_barrier ops l pc =
     (case pc of
        L_First_Wait \<Rightarrow> L_While ops
      | L_Wait rem \<Rightarrow> L_While rem
      | L_Release rem _ \<Rightarrow> if flag_on (ls_state l) LS_STATE_PASS_COMPLETE then L_While rem else L_Wait rem
      | _ \<Rightarrow> pc)"

definition ls_view :: "ls_run \<Rightarrow> nat \<Rightarrow> xdd" where
  "ls_view r t = (run_xdd r t)\<lparr>canceled := run_canceled r\<rparr>"

definition share :: "nat \<Rightarrow> xdd \<Rightarrow> (nat \<Rightarrow> xdd) \<Rightarrow> nat \<Rightarrow> xdd" where
  "share t s ss = (\<lambda>u. (ss u)\<lparr>xgp_abort := xgp_abort s, run_time_expired := run_time_expired s\<rparr>)(t := s)"

inductive ls_step :: "nat set \<Rightarrow> ls_run \<Rightarrow> ls_run \<Rightarrow> bool" for T where
  thread: "t \<in> T \<Longrightarrow>
     xdd_lockstep now (run_target_ops r t) (run_lsp r t) (run_pc r t) (ls_view r t) = Some (pc', w, s') \<Longrightarrow>
     ls_step T r (r\<lparr>run_pc := (run_pc r)(t := pc'), run_xdd := share t s' (run_xdd r),
       run_phase := (run_phase r)(t := release_to w (run_phase r t))\<rparr>)"
| find_next: "t \<in> T \<Longrightarrow> run_pc r t = L_Next rem \<Longrightarrow> lockstep_next t rem (run_lsp r) = Some (pc', ls') \<Longrightarrow>
     ls_step T r (r\<lparr>run_pc := (run_pc r)(t := pc'), run_lsp := ls'\<rparr>)"
| meet: "t \<in> T \<Longrightarrow> u \<in> T \<Longrightarrow> t \<noteq> u \<Longrightarrow>
     at_barrier t (run_pc r t) = Some b \<Longrightarrow> at_barrier u (run_pc r u) = Some b \<Longrightarrow>
     ls_step T r (r\<lparr>run_pc := (run_pc r)(
       t := after_barrier (run_target_ops r t) (run_lsp r t) (run_pc r t),
       u := after_barrier (run_target_ops r u) (run_lsp r u) (run_pc r u))\<rparr>)"
| worker: "t \<in> T \<Longrightarrow> run_phase r t w = K_Running \<Longrightarrow> worker_task e w (ls_view r t) = Some (ex, s1) \<Longrightarrow>
     ls_step T r (r\<lparr>run_xdd := share t (if ex then s1 else worker_available w s1) (run_xdd r),
       run_phase := (run_phase r)(t := (run_phase r t)(w := if ex then K_Exited else K_Idle))\<rparr>)"
| signal: "ls_step T r (r\<lparr>run_canceled := True\<rparr>)"

inductive_cases ls_stepE: "ls_step T r r'"

subsection \<open>The ring of targets\<close>

definition ls_ring :: "(nat \<Rightarrow> nat ptr) \<Rightarrow> nat list \<Rightarrow> bool" where
  "ls_ring nx ts \<longleftrightarrow> distinct ts \<and> (case ts of [] \<Rightarrow> False | a # xs \<Rightarrow> chain nx (nx a) xs (Some a))"

lemma ring_from:
  assumes "ls_ring nx ts" and "t \<in> set ts"
  obtains xs where "chain nx (nx t) xs (Some t)" "insert t (set xs) = set ts" "t \<notin> set xs"
proof -
  obtain as bs where ts: "ts = as @ t # bs" using assms(2) by (meson split_list)
  have d: "distinct ts" using assms(1) by (simp add: ls_ring_def)
  show thesis
  proof (cases as)
    case Nil
    then show thesis using that [of bs] assms(1) ts d by (auto simp: ls_ring_def)
  next
    case (Cons a cs)
    then have "chain nx (nx a) (cs @ t # bs) (Some a)" using assms(1) ts by (simp add: ls_ring_def)
    then have "chain nx (nx a) cs (Some t)" "chain nx (nx t) bs (Some a)"
      by (auto simp: chain_append)
    then have "chain nx (nx t) (bs @ a # cs) (Some t)" by (auto simp: chain_append)
    then show thesis using that [of "bs @ a # cs"] ts Cons d by auto
  qed
qed

abbreviation complete :: "(nat \<Rightarrow> lockstep) \<Rightarrow> nat \<Rightarrow> bool" where
  "complete ls t \<equiv> flag_on (ls_state (ls t)) LS_STATE_PASS_COMPLETE"

text \<open>The search returns, with the first target behind \<open>t\<close> that is not complete, or with \<open>t\<close>.\<close>

lemma skip_complete_walk:
  assumes "chain (\<lambda>u. ls_next_tdp (ls u)) (ls_next_tdp (ls a)) xs (Some t)" and "t \<notin> set (a # xs)"
  shows "\<exists>k c. skip_complete ls t a st = Some (k, c) \<and>
    (k = t \<and> c \<and> (\<forall>x\<in>set (a # xs). complete ls x) \<or> k \<in> set (a # xs) \<and> \<not> complete ls k \<and> (c \<longrightarrow> st \<or> k \<noteq> a))"
  using assms
proof (induction xs arbitrary: a st)
  case Nil
  then show ?case by (auto simp: skip_complete.simps)
next
  case (Cons b xs)
  show ?case
  proof (cases "complete ls a")
    case False
    then show ?thesis by (simp add: skip_complete.simps)
  next
    case True
    have b: "ls_next_tdp (ls a) = Some b" "b \<noteq> t" using Cons.prems by auto
    have "skip_complete ls t a st = skip_complete ls t b True"
      using True b by (subst skip_complete.simps) simp
    then show ?thesis using Cons.IH [of b True] Cons.prems b True by auto
  qed
qed

lemma skip_complete_ring:
  assumes "ls_ring (\<lambda>u. ls_next_tdp (ls u)) ts" and "t \<in> set ts"
  obtains j k c where "ls_next_tdp (ls t) = Some j" "skip_complete ls t j False = Some (k, c)"
    "k = t \<and> (\<forall>x\<in>set ts - {t}. complete ls x) \<or> k \<in> set ts \<and> k \<noteq> t \<and> \<not> complete ls k"
proof -
  obtain xs where xs: "chain (\<lambda>u. ls_next_tdp (ls u)) (ls_next_tdp (ls t)) xs (Some t)"
    "insert t (set xs) = set ts" "t \<notin> set xs"
    using ring_from [OF assms] .
  show thesis
  proof (cases xs)
    case Nil
    then have "ls_next_tdp (ls t) = Some t" using xs by simp
    moreover obtain c where "skip_complete ls t t False = Some (t, c)"
      using calculation by (cases "complete ls t") (simp_all add: skip_complete.simps)
    ultimately show thesis using that xs(2) Nil by auto
  next
    case (Cons a ys)
    then have a: "ls_next_tdp (ls t) = Some a" "chain (\<lambda>u. ls_next_tdp (ls u)) (ls_next_tdp (ls a)) ys (Some t)"
      "t \<notin> set (a # ys)" using xs by auto
    obtain k c where kc: "skip_complete ls t a False = Some (k, c)"
      "k = t \<and> (\<forall>x\<in>set (a # ys). complete ls x) \<or> k \<in> set (a # ys) \<and> \<not> complete ls k"
      using skip_complete_walk [OF a(2,3), of False] by auto
    show thesis by (rule that [OF a(1) kc(1)]) (use kc(2) xs Cons in auto)
  qed
qed

lemma set_complete_simps [simp]:
  "complete (set_complete t ls) u \<longleftrightarrow> u = t \<or> complete ls u"
  "ls_next_tdp (set_complete t ls u) = ls_next_tdp (ls u)"
  "flag_on (ls_state (set_complete t ls u)) LS_STATE_END_STOP = flag_on (ls_state (ls u)) LS_STATE_END_STOP"
  "flag_on (ls_state (set_complete t ls u)) LS_STATE_I_AM_THE_FIRST = flag_on (ls_state (ls u)) LS_STATE_I_AM_THE_FIRST"
  "ls_interval_value (set_complete t ls u) = ls_interval_value (ls u)"
  by (auto simp: set_complete_def flag_simps) (simp_all add: flag_on_def)

text \<open>What the end of an interval does, for a target \<open>t\<close> that was not complete.\<close>

lemma lockstep_next_spec:
  assumes ring: "ls_ring (\<lambda>u. ls_next_tdp (ls u)) ts" "t \<in> set ts" and "\<not> complete ls t"
    and nx: "lockstep_next t rem ls = Some (pc', ls')"
  obtains rem' k where "pc' = (if k = t then L_While rem' else L_Release rem' k)"
    "k = t \<and> (\<forall>x\<in>set ts - {t}. complete ls x) \<or> k \<in> set ts \<and> k \<noteq> t \<and> \<not> complete ls k"
    "rem' = 0 \<longleftrightarrow> complete ls' t" "\<And>u. u \<noteq> t \<Longrightarrow> complete ls' u = complete ls u"
    "\<And>u. ls_next_tdp (ls' u) = ls_next_tdp (ls u)"
    "\<And>u. flag_on (ls_state (ls' u)) LS_STATE_I_AM_THE_FIRST = flag_on (ls_state (ls u)) LS_STATE_I_AM_THE_FIRST"
proof -
  define ls1 where "ls1 = (if rem = 0 then set_complete t ls else ls)"
  have ls1: "\<And>u. ls_next_tdp (ls1 u) = ls_next_tdp (ls u)" "\<And>u. u \<noteq> t \<Longrightarrow> complete ls1 u = complete ls u"
    "complete ls1 t \<longleftrightarrow> rem = 0"
    "\<And>u. flag_on (ls_state (ls1 u)) LS_STATE_I_AM_THE_FIRST = flag_on (ls_state (ls u)) LS_STATE_I_AM_THE_FIRST"
    using assms(3) by (simp_all add: ls1_def)
  have "ls_ring (\<lambda>u. ls_next_tdp (ls1 u)) ts" using ring(1) by (simp add: ls1(1))
  then obtain j k c where j: "ls_next_tdp (ls1 t) = Some j" "skip_complete ls1 t j False = Some (k, c)"
    and k: "k = t \<and> (\<forall>x\<in>set ts - {t}. complete ls1 x) \<or> k \<in> set ts \<and> k \<noteq> t \<and> \<not> complete ls1 k"
    using skip_complete_ring [OF _ ring(2)] by blast
  define stop where "stop \<longleftrightarrow> c \<and> flag_on (ls_state (ls1 t)) LS_STATE_END_STOP"
  have "lockstep_next t rem ls =
      Some (if k = t then L_While (if stop then 0 else rem) else L_Release (if stop then 0 else rem) k,
            if stop then set_complete t ls1 else ls1)"
    using j by (simp add: lockstep_next_def ls1_def [symmetric] stop_def Let_def)
  with nx have r: "pc' = (if k = t then L_While (if stop then 0 else rem) else L_Release (if stop then 0 else rem) k)"
    "ls' = (if stop then set_complete t ls1 else ls1)" by simp_all
  show thesis
  proof (rule that [OF r(1)])
    show "k = t \<and> (\<forall>x\<in>set ts - {t}. complete ls x) \<or> k \<in> set ts \<and> k \<noteq> t \<and> \<not> complete ls k"
      using k ls1(2) by auto
    show "((if stop then 0 else rem) = 0) = complete ls' t" using ls1(3) by (simp add: r(2))
  qed (use ls1 in \<open>simp_all add: r(2)\<close>)
qed

subsection \<open>Turns\<close>

text \<open>A target has the turn when it may issue operations, or is about to hand the turn on.\<close>

definition has_turn :: "ls_run \<Rightarrow> nat \<Rightarrow> bool" where
  "has_turn r t =
     (case run_pc r t of
        L_Start \<Rightarrow> flag_on (ls_state (run_lsp r t)) LS_STATE_I_AM_THE_FIRST
      | L_First_Wait \<Rightarrow> False | L_Wait _ \<Rightarrow> False | L_Done \<Rightarrow> False
      | L_While rem \<Rightarrow> rem \<noteq> 0
      | _ \<Rightarrow> True)"

definition pc_ok :: "nat list \<Rightarrow> ls_run \<Rightarrow> nat \<Rightarrow> bool" where
  "pc_ok ts r t =
     (case run_pc r t of
        L_Release rem j \<Rightarrow> (rem = 0 \<longleftrightarrow> complete (run_lsp r) t) \<and> j \<in> set ts \<and> j \<noteq> t \<and> \<not> complete (run_lsp r) j
      | L_While rem \<Rightarrow> (rem = 0 \<longleftrightarrow> complete (run_lsp r) t)
      | L_Wait rem \<Rightarrow> rem \<noteq> 0 \<and> \<not> complete (run_lsp r) t
      | L_Done \<Rightarrow> complete (run_lsp r) t
      | _ \<Rightarrow> \<not> complete (run_lsp r) t)"

definition ls_inv :: "nat list \<Rightarrow> ls_run \<Rightarrow> bool" where
  "ls_inv ts r \<longleftrightarrow>
     ls_ring (\<lambda>u. ls_next_tdp (run_lsp r u)) ts \<and> (\<forall>t\<in>set ts. run_target_ops r t \<noteq> 0 \<and> pc_ok ts r t) \<and>
     (\<forall>t\<in>set ts. \<forall>u\<in>set ts. has_turn r t \<longrightarrow> has_turn r u \<longrightarrow> t = u) \<and>
     ((\<exists>t\<in>set ts. has_turn r t) \<or> (\<forall>t\<in>set ts. complete (run_lsp r) t))"

text \<open>
  A step of one thread keeps the invariant when it keeps its turn and the flags of the others, or
  gives the turn up with all targets complete.
\<close>

lemma ls_inv_keep:
  assumes "ls_inv ts r" and "t \<in> set ts"
    and "\<And>u. u \<noteq> t \<Longrightarrow> run_pc r' u = run_pc r u" and "run_lsp r' = run_lsp r" "run_target_ops r' = run_target_ops r"
    and "has_turn r' t = has_turn r t" and "pc_ok ts r' t"
  shows "ls_inv ts r'"
proof -
  have "has_turn r' u = has_turn r u" for u
  proof (cases "u = t")
    case False
    then show ?thesis unfolding has_turn_def assms(3) [OF False] assms(4) by simp
  qed (simp add: assms(6))
  moreover have "pc_ok ts r' u" if "u \<in> set ts" for u
  proof (cases "u = t")
    case False
    have "pc_ok ts r u" using assms(1) that by (simp add: ls_inv_def)
    then show ?thesis unfolding pc_ok_def assms(3) [OF False] assms(4) .
  qed (simp add: assms(7))
  ultimately show ?thesis using assms(1,4,5) by (simp add: ls_inv_def)
qed

text \<open>The thread steps: control points of one target's turn, between its barriers.\<close>

definition turn_pc :: "ls_pc \<Rightarrow> bool" where
  "turn_pc pc = (case pc of L_For _ _ _ \<Rightarrow> True | L_Wait_Any _ _ _ \<Rightarrow> True | L_Got _ _ _ _ \<Rightarrow> True
     | L_Collect _ _ \<Rightarrow> True | L_Collect_Wait _ _ _ \<Rightarrow> True | L_Next _ \<Rightarrow> True | _ \<Rightarrow> False)"

lemma lockstep_thread:
  assumes "xdd_lockstep now ops l pc s = Some (pc', w, s')"
  shows "pc = L_Start \<and> pc' = (if flag_on (ls_state l) LS_STATE_I_AM_THE_FIRST then L_While ops else L_First_Wait) \<or>
    (\<exists>rem. pc = L_While rem \<and> (if rem = 0 then pc' = L_Done else turn_pc pc')) \<or> (turn_pc pc \<and> turn_pc pc')"
proof -
  have loc: "turn_pc p" if "ls_located rem i n x = Some (p, v, z)" for rem i n x p v z
    using that by (auto simp: ls_located_def turn_pc_def split: option.splits locator.splits)
  have got: "turn_pc p" if "ls_got now rem i n u z = Some (p, v, z')" for rem i n u z p v z'
    using that by (auto simp: ls_got_def turn_pc_def bind_eq_Some_conv split: if_splits)
  have col: "turn_pc p" if "ls_collected rem q u z = Some (p, v, z')" for rem q u z p v z'
    using that by (auto simp: ls_collected_def turn_pc_def)
  have wsp: "turn_pc p" if "with_specific q (L_Collect_Wait rem q) (ls_collected rem q) z = Some (p, v, z')"
    for rem q z p v z'
    using that col by (auto simp: with_specific_def turn_pc_def split: locator.splits option.splits)
  have rsp: "turn_pc p" if "resume_specific u (L_Collect_Wait rem q u) (ls_collected rem q) z = Some (p, v, z')"
    for rem q u z p v z'
    using that col by (auto simp: resume_specific_def turn_pc_def split: locator.splits)
  show ?thesis
    using assms loc got wsp rsp
    by (cases pc) (auto simp: turn_pc_def split: if_splits)
qed

lemma turn_pcD:
  assumes "turn_pc (run_pc r t)"
  shows "has_turn r t" and "pc_ok ts r t \<longleftrightarrow> \<not> complete (run_lsp r) t"
  using assms by (auto simp: turn_pc_def has_turn_def pc_ok_def split: ls_pc.splits)

lemma ls_inv_thread:
  assumes inv: "ls_inv ts r" and t: "t \<in> set ts"
    and st: "xdd_lockstep now (run_target_ops r t) (run_lsp r t) (run_pc r t) s = Some (pc', w, s')"
  shows "ls_inv ts (r\<lparr>run_pc := (run_pc r)(t := pc'), run_xdd := x, run_phase := y\<rparr>)" (is "ls_inv ts ?r'")
proof (rule ls_inv_keep [OF inv t])
  have ops: "run_target_ops r t \<noteq> 0" and ok: "pc_ok ts r t" using inv t by (auto simp: ls_inv_def)
  have "has_turn ?r' t = has_turn r t \<and> pc_ok ts ?r' t"
    using lockstep_thread [OF st]
  proof (elim disjE conjE exE)
    assume "run_pc r t = L_Start"
      "pc' = (if flag_on (ls_state (run_lsp r t)) LS_STATE_I_AM_THE_FIRST
        then L_While (run_target_ops r t) else L_First_Wait)"
    then show ?thesis using ok ops by (simp add: has_turn_def pc_ok_def)
  next
    fix rem assume a: "run_pc r t = L_While rem" "if rem = 0 then pc' = L_Done else turn_pc pc'"
    then have c: "rem = 0 \<longleftrightarrow> complete (run_lsp r) t" "has_turn r t \<longleftrightarrow> rem \<noteq> 0"
      using ok by (simp_all add: pc_ok_def has_turn_def)
    show ?thesis
    proof (cases "rem = 0")
      case True
      then show ?thesis using a c by (simp add: has_turn_def pc_ok_def)
    next
      case False
      then show ?thesis using a c turn_pcD(1) [of ?r' t] turn_pcD(2) [of ?r' t ts] by simp
    qed
  next
    assume "turn_pc (run_pc r t)" "turn_pc pc'"
    then show ?thesis using ok turn_pcD(1) [of r t] turn_pcD(2) [of r t ts] turn_pcD(1) [of ?r' t] turn_pcD(2) [of ?r' t ts] by simp
  qed
  then show "has_turn ?r' t = has_turn r t" "pc_ok ts ?r' t" by auto
qed simp_all

lemma pc_ok_idle:
  assumes "\<not> has_turn r u" and "pc_ok ts r u" and pc: "run_pc r' u = run_pc r u"
    and fl: "complete (run_lsp r') u = complete (run_lsp r) u"
      "flag_on (ls_state (run_lsp r' u)) LS_STATE_I_AM_THE_FIRST = flag_on (ls_state (run_lsp r u)) LS_STATE_I_AM_THE_FIRST"
  shows "\<not> has_turn r' u" and "pc_ok ts r' u"
proof -
  show "\<not> has_turn r' u" using assms(1) unfolding has_turn_def pc fl(2) .
  show "pc_ok ts r' u"
    using assms(1,2) unfolding pc_ok_def has_turn_def pc fl(1) by (cases "run_pc r u") simp_all
qed

text \<open>The invariant when at most one target \<open>t\<close> can have the turn and the others have not got it.\<close>

lemma ls_invI:
  assumes "ls_ring (\<lambda>u. ls_next_tdp (run_lsp r u)) ts" and "\<forall>t\<in>set ts. run_target_ops r t \<noteq> 0"
    and "t \<in> set ts" "pc_ok ts r t" and "has_turn r t \<or> (\<forall>u\<in>set ts. complete (run_lsp r) u)"
    and "\<And>u. u \<in> set ts \<Longrightarrow> u \<noteq> t \<Longrightarrow> \<not> has_turn r u \<and> pc_ok ts r u"
  shows "ls_inv ts r"
  unfolding ls_inv_def using assms by blast

lemma ls_inv_next:
  assumes inv: "ls_inv ts r" and t: "t \<in> set ts" and pc: "run_pc r t = L_Next rem"
    and nx: "lockstep_next t rem (run_lsp r) = Some (pc', ls')"
  shows "ls_inv ts (r\<lparr>run_pc := (run_pc r)(t := pc'), run_lsp := ls'\<rparr>)" (is "ls_inv ts ?r'")
proof -
  have i: "ls_ring (\<lambda>u. ls_next_tdp (run_lsp r u)) ts" "\<forall>t\<in>set ts. run_target_ops r t \<noteq> 0"
    "\<And>u. u \<in> set ts \<Longrightarrow> pc_ok ts r u" "\<And>u. u \<in> set ts \<Longrightarrow> has_turn r u \<Longrightarrow> has_turn r t \<Longrightarrow> u = t"
    using inv t by (auto simp: ls_inv_def)
  have turn: "has_turn r t" "\<not> complete (run_lsp r) t" using pc i(3) [OF t] by (simp_all add: has_turn_def pc_ok_def)
  obtain rem' k where pc': "pc' = (if k = t then L_While rem' else L_Release rem' k)"
    and k: "k = t \<and> (\<forall>x\<in>set ts - {t}. complete (run_lsp r) x) \<or> k \<in> set ts \<and> k \<noteq> t \<and> \<not> complete (run_lsp r) k"
    and ls': "rem' = 0 \<longleftrightarrow> complete ls' t" "\<And>u. u \<noteq> t \<Longrightarrow> complete ls' u = complete (run_lsp r) u"
      "\<And>u. ls_next_tdp (ls' u) = ls_next_tdp (run_lsp r u)"
      "\<And>u. flag_on (ls_state (ls' u)) LS_STATE_I_AM_THE_FIRST = flag_on (ls_state (run_lsp r u)) LS_STATE_I_AM_THE_FIRST"
    by (rule lockstep_next_spec [OF i(1) t turn(2) nx]) (rule that; assumption)
  show ?thesis
  proof (rule ls_invI [where t = t])
    show "ls_ring (\<lambda>u. ls_next_tdp (run_lsp ?r' u)) ts" using i(1) by (simp add: ls'(3))
    show "\<forall>t\<in>set ts. run_target_ops ?r' t \<noteq> 0" using i(2) by simp
    show "t \<in> set ts" by (rule t)
    show "pc_ok ts ?r' t" using k ls'(1,2) by (auto simp: pc_ok_def pc')
    show "has_turn ?r' t \<or> (\<forall>u\<in>set ts. complete (run_lsp ?r') u)"
    proof (cases "k = t \<and> rem' = 0")
      case True
      then have "complete ls' u" if "u \<in> set ts" for u using k ls'(1,2) that by (cases "u = t") auto
      then show ?thesis by simp
    qed (auto simp: has_turn_def pc')
    show "\<not> has_turn ?r' u \<and> pc_ok ts ?r' u" if u: "u \<in> set ts" "u \<noteq> t" for u
    proof -
      have "\<not> has_turn r u" using i(4) [OF u(1)] u(2) turn(1) by blast
      then show ?thesis
        using pc_ok_idle [of r u ts ?r'] i(3) [OF u(1)] u(2) ls'(2,4) by simp
    qed
  qed
qed

text \<open>The target \<open>x\<close> hands the turn to the target \<open>b\<close> that waits at its own barrier.\<close>

lemma ls_inv_handover:
  assumes inv: "ls_inv ts r" and T: "x \<in> set ts" "b \<in> set ts" and pcx: "run_pc r x = L_Release rem b"
    and pcb: "run_pc r b = L_First_Wait \<or> (\<exists>n. run_pc r b = L_Wait n)"
    and r': "run_lsp r' = run_lsp r" "run_target_ops r' = run_target_ops r"
      "run_pc r' = (run_pc r)(x := after_barrier (run_target_ops r x) (run_lsp r x) (run_pc r x),
         b := after_barrier (run_target_ops r b) (run_lsp r b) (run_pc r b))"
  shows "ls_inv ts r'"
proof -
  have i: "ls_ring (\<lambda>u. ls_next_tdp (run_lsp r u)) ts" "\<forall>t\<in>set ts. run_target_ops r t \<noteq> 0"
    "\<And>u. u \<in> set ts \<Longrightarrow> pc_ok ts r u" "\<And>u. u \<in> set ts \<Longrightarrow> has_turn r u \<Longrightarrow> has_turn r x \<Longrightarrow> u = x"
    using inv T by (auto simp: ls_inv_def)
  have x: "has_turn r x" "rem = 0 \<longleftrightarrow> complete (run_lsp r) x" "b \<noteq> x"
    using pcx i(3) [OF T(1)] by (auto simp: has_turn_def pc_ok_def)
  obtain n where b: "run_pc r' b = L_While n" "n \<noteq> 0" "\<not> complete (run_lsp r) b"
    using pcb i(2) i(3) [OF T(2)] T(2) by (auto simp: r'(3) after_barrier_def pc_ok_def)
  have x': "run_pc r' x = (if rem = 0 then L_While rem else L_Wait rem)"
    using pcx x by (simp add: r'(3) after_barrier_def)
  show ?thesis
  proof (rule ls_invI [where t = b])
    show "pc_ok ts r' b" "has_turn r' b \<or> (\<forall>u\<in>set ts. complete (run_lsp r') u)"
      using b by (simp_all add: pc_ok_def has_turn_def r'(1))
    show "\<not> has_turn r' u \<and> pc_ok ts r' u" if u: "u \<in> set ts" "u \<noteq> b" for u
    proof (cases "u = x")
      case True
      then show ?thesis using x' x(2) by (auto simp: has_turn_def pc_ok_def r'(1))
    next
      case False
      then have "\<not> has_turn r u" using i(4) [OF u(1)] x(1) by blast
      then show ?thesis
        using pc_ok_idle [of r u ts r'] i(3) [OF u(1)] u(2) False r'(1) by (simp add: r'(3))
    qed
  qed (use i T in \<open>simp_all add: r'(1,2)\<close>)
qed

lemma ls_inv_meet:
  assumes inv: "ls_inv ts r" and T: "t \<in> set ts" "u \<in> set ts" "t \<noteq> u"
    and at: "at_barrier t (run_pc r t) = Some b" "at_barrier u (run_pc r u) = Some b"
  shows "ls_inv ts (r\<lparr>run_pc := (run_pc r)(
       t := after_barrier (run_target_ops r t) (run_lsp r t) (run_pc r t),
       u := after_barrier (run_target_ops r u) (run_lsp r u) (run_pc r u))\<rparr>)" (is "ls_inv ts ?r'")
proof -
  have one: "\<not> (has_turn r t \<and> has_turn r u)" using inv T by (auto simp: ls_inv_def)
  have occ: "(v = b \<and> (run_pc r v = L_First_Wait \<or> (\<exists>n. run_pc r v = L_Wait n))) \<or>
      ((\<exists>rem. run_pc r v = L_Release rem b) \<and> has_turn r v)" if "at_barrier v (run_pc r v) = Some b" for v
    using that by (auto simp: at_barrier_def has_turn_def split: ls_pc.splits)
  consider rem where "run_pc r t = L_Release rem b" "u = b" "run_pc r b = L_First_Wait \<or> (\<exists>n. run_pc r b = L_Wait n)"
    | rem where "run_pc r u = L_Release rem b" "t = b" "run_pc r b = L_First_Wait \<or> (\<exists>n. run_pc r b = L_Wait n)"
    using occ [OF at(1)] occ [OF at(2)] one T(3) by blast
  then show ?thesis
  proof cases
    case 1
    show ?thesis
      by (rule ls_inv_handover [OF inv T(1) _ 1(1,3)]) (use 1(2) T in simp_all)
  next
    case 2
    show ?thesis
      by (rule ls_inv_handover [OF inv T(2) _ 2(1,3)]) (use 2(2) T in \<open>simp_all add: fun_upd_twist\<close>)
  qed
qed

lemma ls_inv_frame:
  assumes "run_pc r' = run_pc r" "run_lsp r' = run_lsp r" "run_target_ops r' = run_target_ops r"
  shows "ls_inv ts r' = ls_inv ts r"
  unfolding ls_inv_def pc_ok_def has_turn_def assms ..

lemma ls_inv_step:
  assumes "ls_step (set ts) r r'" and "ls_inv ts r"
  shows "ls_inv ts r'"
  using assms
proof (induction rule: ls_step.induct)
  case (thread t now r pc' w s')
  then show ?case using ls_inv_thread by simp
next
  case (find_next t r rem pc' ls')
  then show ?case using ls_inv_next by simp
next
  case (meet t u r b)
  then show ?case using ls_inv_meet by simp
next
  case (worker t r w e ex s1)
  then show ?case by (subst ls_inv_frame [where r = r]) simp_all
next
  case (signal r)
  then show ?case by (subst ls_inv_frame [where r = r]) simp_all
qed

text \<open>The start of a pass: all targets at the start of \<open>xdd_lockstep\<close>, one of them the first.\<close>

definition ls_start :: "nat list \<Rightarrow> ls_run \<Rightarrow> bool" where
  "ls_start ts r \<longleftrightarrow> ls_ring (\<lambda>u. ls_next_tdp (run_lsp r u)) ts \<and>
     (\<forall>t\<in>set ts. run_pc r t = L_Start \<and> run_target_ops r t \<noteq> 0 \<and> \<not> complete (run_lsp r) t) \<and>
     (\<exists>f\<in>set ts. \<forall>t\<in>set ts. flag_on (ls_state (run_lsp r t)) LS_STATE_I_AM_THE_FIRST \<longleftrightarrow> t = f)"

lemma ls_start_inv: "ls_start ts r \<Longrightarrow> ls_inv ts r"
  by (auto simp: ls_start_def ls_inv_def has_turn_def pc_ok_def)

lemma ls_inv_waiting:
  assumes "ls_inv ts r" and "t \<in> set ts" and "run_pc r t = L_Release rem j"
  shows "run_pc r j \<in> {L_Start, L_First_Wait} \<union> range L_Wait"
proof -
  have j: "j \<in> set ts" "j \<noteq> t" "\<not> complete (run_lsp r) j" and t: "has_turn r t"
    using assms by (auto simp: ls_inv_def pc_ok_def has_turn_def)
  have "pc_ok ts r j" "\<not> has_turn r j" using assms(1,2) j t unfolding ls_inv_def by blast+
  then show ?thesis using j(3) by (cases "run_pc r j") (auto simp: pc_ok_def has_turn_def)
qed

lemma ls_inv_no_turn:
  assumes "ls_inv ts r" and "\<not> (\<exists>t\<in>set ts. has_turn r t)" and "t \<in> set ts"
  shows "run_pc r t = L_Done \<or> run_pc r t = L_While 0"
proof -
  have "complete (run_lsp r) t" "pc_ok ts r t" "\<not> has_turn r t" using assms unfolding ls_inv_def by blast+
  then show ?thesis by (cases "run_pc r t") (auto simp: pc_ok_def has_turn_def)
qed

subsection \<open>A pass that does not end\<close>

text \<open>The operations that remain at a control point of the loop.\<close>

definition ops_remaining :: "ls_pc \<Rightarrow> u64" where
  "ops_remaining pc = (case pc of L_While n \<Rightarrow> n | L_For n _ _ \<Rightarrow> n | L_Wait_Any n _ _ \<Rightarrow> n | L_Got n _ _ _ \<Rightarrow> n
     | L_Collect n _ \<Rightarrow> n | L_Collect_Wait n _ _ \<Rightarrow> n | L_Next n \<Rightarrow> n | L_Release n _ \<Rightarrow> n | L_Wait n \<Rightarrow> n | _ \<Rightarrow> 0)"

text \<open>The target issues no operation of the interval it is in.\<close>

definition no_issue :: "ls_pc \<Rightarrow> bool" where
  "no_issue pc = (case pc of L_For _ i n \<Rightarrow> n \<le> i | L_Wait_Any _ _ _ \<Rightarrow> False | L_Got _ _ _ _ \<Rightarrow> False | _ \<Rightarrow> True)"

definition never_ends :: "nat \<Rightarrow> ls_run \<Rightarrow> bool" where
  "never_ends t r \<longleftrightarrow> ops_remaining (run_pc r t) \<noteq> 0 \<and>
     \<not> flag_on (ls_state (run_lsp r t)) LS_STATE_END_STOP \<and>
     (run_canceled r \<or> ls_interval_value (run_lsp r t) = 0 \<and> no_issue (run_pc r t))"

lemma canceled_simps [simp]:
  "canceled (emit ev s) = canceled s" "canceled (on_td f s) = canceled s"
  "canceled (xdd_syncio_before_io_op s) = canceled s" "canceled (trigger_fire c n s) = canceled s"
  by (simp_all add: emit_def on_td_def xdd_syncio_before_io_op_def trigger_fire_def)

lemma canceled_trigger [simp]: "canceled (xdd_start_trigger_before_io_op now s) = canceled s"
proof (cases "td_trigp (td s)")
  case (Some p)
  define s1 where "s1 = (if opt s TO_WAITFORSTART \<and> \<not> run_status p
      then on_td (\<lambda>t. t\<lparr>td_trigp := Some (p\<lparr>run_status := True\<rparr>)\<rparr>) (emit Wait_For_Start_Trigger s) else s)"
  have "canceled s1 = canceled s" by (simp add: s1_def)
  then show ?thesis
    by (simp only: xdd_start_trigger_before_io_op_def Some option.case Let_def s1_def [symmetric] canceled_simps
        if_distrib [where f = canceled] if_cancel)
qed (simp add: xdd_start_trigger_before_io_op_def)

lemma canceled_before_io_op:
  assumes "canceled s" and "xdd_target_ttd_before_io_op now w s = Some (st, s1)"
  shows "st \<noteq> XDD_RC_GOOD"
proof (cases "fst (ttd_limits now s) = XDD_RC_GOOD")
  case False
  then show ?thesis using assms(2) by (auto simp: xdd_target_ttd_before_io_op_def Let_def)
next
  case True
  have c: "canceled (snd (ttd_limits now s))"
    using assms(1)
    by (simp add: ttd_limits_def xdd_timelimit_before_io_op_def xdd_runtime_before_io_op_def Let_def)
  obtain z where z: "locate_op ((snd (ttd_limits now s))\<lparr>errno := 0\<rparr>) = Some z" "(st, s1) = ttd_checks w z"
    using assms(2) True by (auto simp: xdd_target_ttd_before_io_op_def Let_def)
  have "canceled z" using z(1) c by (auto simp: locate_op_def on_tc_def on_td_def split: if_splits)
  then have "stopped (if flag_on (global_options z) GO_INTERACTIVE then emit Enter_Interactive_Barrier z else z)"
    by (simp add: stopped_def emit_def)
  then have "fst (ttd_checks w z) \<noteq> XDD_RC_GOOD" by (simp add: ttd_checks_def Let_def)
  then show ?thesis using z(2) by (metis fst_conv)
qed

text \<open>A thread step that issues nothing keeps the operations that remain.\<close>

lemma lockstep_thread_ops:
  assumes st: "xdd_lockstep now ops l pc s = Some (pc', w, s')" and "ops_remaining pc \<noteq> 0"
    and stuck: "canceled s \<or> ls_interval_value l = 0 \<and> no_issue pc"
  shows "ops_remaining pc' = ops_remaining pc" and "ls_interval_value l = 0 \<Longrightarrow> no_issue pc \<Longrightarrow> no_issue pc'"
proof -
  have loc: "ops_remaining p = rem" if "ls_located rem i n x = Some (p, v, z)" for rem i n x p v z
    using that by (auto simp: ls_located_def ops_remaining_def split: option.splits locator.splits)
  have got: "ops_remaining p = rem" if "ls_got now rem i n u s = Some (p, v, z')" "canceled s" for rem i n u p v z'
    using that(1) canceled_before_io_op [OF that(2)]
    by (auto simp: ls_got_def ops_remaining_def bind_eq_Some_conv split: if_splits)
  have wsp: "ops_remaining p = rem \<and> no_issue p"
    if "with_specific q (L_Collect_Wait rem q) (ls_collected rem q) z = Some (p, v, z')" for rem q z p v z'
    using that by (auto simp: with_specific_def ls_collected_def ops_remaining_def no_issue_def split: locator.splits option.splits)
  have rsp: "ops_remaining p = rem \<and> no_issue p"
    if "resume_specific u (L_Collect_Wait rem q u) (ls_collected rem q) z = Some (p, v, z')" for rem q u z p v z'
    using that by (auto simp: resume_specific_def ls_collected_def ops_remaining_def no_issue_def split: locator.splits)
  have "ops_remaining pc' = ops_remaining pc \<and> (ls_interval_value l = 0 \<longrightarrow> no_issue pc \<longrightarrow> no_issue pc')"
  proof (cases pc)
    case (L_While n)
    then show ?thesis using st assms(2) by (auto simp: ops_remaining_def no_issue_def ops_this_interval_def)
  next
    case (L_For rem i n)
    show ?thesis
    proof (cases "i < n")
      case True
      then have "ls_located rem i n (get_any_available_worker_thread s) = Some (pc', w, s')" using st L_For by simp
      then show ?thesis using loc L_For True by (auto simp: ops_remaining_def no_issue_def)
    next
      case False
      then show ?thesis using st L_For by (auto simp: ops_remaining_def no_issue_def)
    qed
  next
    case (L_Wait_Any rem i n)
    then have "ls_located rem i n (any_resume s) = Some (pc', w, s')" using st by simp
    then show ?thesis using loc L_Wait_Any by (auto simp: ops_remaining_def no_issue_def)
  next
    case (L_Got rem i n u)
    then have "ls_got now rem i n u s = Some (pc', w, s')" "canceled s"
      using st stuck by (simp_all add: no_issue_def)
    then show ?thesis using got L_Got by (auto simp: ops_remaining_def no_issue_def)
  next
    case (L_Collect rem q)
    show ?thesis
    proof (cases "q < td_queue_depth (td s)")
      case True
      then have "with_specific q (L_Collect_Wait rem q) (ls_collected rem q) s = Some (pc', w, s')"
        using st L_Collect by simp
      then show ?thesis using wsp L_Collect by (auto simp: ops_remaining_def)
    next
      case False
      then show ?thesis using st L_Collect by (auto simp: ops_remaining_def no_issue_def)
    qed
  next
    case (L_Collect_Wait rem q u)
    then have "resume_specific u (L_Collect_Wait rem q u) (ls_collected rem q) s = Some (pc', w, s')" using st by simp
    then show ?thesis using rsp L_Collect_Wait by (auto simp: ops_remaining_def)
  qed (use st assms(2) in \<open>simp_all add: ops_remaining_def\<close>)
  then show "ops_remaining pc' = ops_remaining pc" "ls_interval_value l = 0 \<Longrightarrow> no_issue pc \<Longrightarrow> no_issue pc'" by simp_all
qed

lemma lockstep_next_flags:
  assumes "lockstep_next u rem ls = Some (pc', ls')"
  shows "flag_on (ls_state (ls' t)) LS_STATE_END_STOP = flag_on (ls_state (ls t)) LS_STATE_END_STOP"
    and "ls_interval_value (ls' t) = ls_interval_value (ls t)"
    and "\<not> flag_on (ls_state (ls u)) LS_STATE_END_STOP \<Longrightarrow> ops_remaining pc' = rem" and "no_issue pc'"
  using assms
  by (auto simp: lockstep_next_def bind_eq_Some_conv Let_def ops_remaining_def no_issue_def split: if_splits)

lemma after_barrier_ops:
  assumes "at_barrier t pc = Some b" and "ops_remaining pc \<noteq> 0"
  shows "ops_remaining (after_barrier ops l pc) = ops_remaining pc" and "no_issue (after_barrier ops l pc)"
  using assms by (auto simp: at_barrier_def after_barrier_def ops_remaining_def no_issue_def split: ls_pc.splits)

lemma never_ends_step:
  assumes "ls_step T r r'" and "never_ends t r"
  shows "never_ends t r'"
  using assms
proof (induction rule: ls_step.induct)
  case (thread u now r pc' w s')
  have n: "ops_remaining (run_pc r t) \<noteq> 0" "run_canceled r \<or> ls_interval_value (run_lsp r t) = 0 \<and> no_issue (run_pc r t)"
    using thread.prems by (simp_all add: never_ends_def)
  show ?case
  proof (cases "u = t")
    case True
    have "canceled (ls_view r t) \<or> ls_interval_value (run_lsp r t) = 0 \<and> no_issue (run_pc r t)"
      using n(2) by (simp add: ls_view_def)
    from lockstep_thread_ops [OF thread.hyps(2) [unfolded True] n(1) this] show ?thesis
      using thread.prems True by (auto simp: never_ends_def)
  next
    case False
    then show ?thesis using thread.prems by (simp add: never_ends_def)
  qed
next
  case (find_next u r rem pc' ls')
  note f = lockstep_next_flags [OF find_next.hyps(3)]
  show ?case
    using find_next.prems f(1,2) [of t] f(3,4) find_next.hyps(2)
    by (cases "u = t") (auto simp: never_ends_def ops_remaining_def [of "L_Next rem"])
next
  case (meet u v r b)
  have n: "ops_remaining (run_pc r t) \<noteq> 0" using meet.prems by (simp add: never_ends_def)
  show ?case
    using meet.prems meet.hyps after_barrier_ops [OF meet.hyps(4)] after_barrier_ops [OF meet.hyps(5)] n
    by (cases "t = u \<or> t = v") (auto simp: never_ends_def)
next
  case (worker u r w e ex s1)
  then show ?case by (simp add: never_ends_def)
next
  case (signal r)
  then show ?case by (auto simp: never_ends_def)
qed

subsection \<open>The ring that the options build\<close>

lemma ring_rotate:
  assumes "ls_ring nx ts" and "t \<in> set ts"
  obtains xs where "ls_ring nx (t # xs)" "set (t # xs) = set ts"
proof -
  obtain as bs where ts: "ts = as @ t # bs" using assms(2) by (meson split_list)
  show thesis
  proof (cases as)
    case Nil
    then show thesis using that [of bs] assms(1) ts by simp
  next
    case (Cons a cs)
    then have "chain nx (nx a) (cs @ t # bs) (Some a)" using assms(1) ts by (simp add: ls_ring_def)
    then have "chain nx (nx t) (bs @ a # cs) (Some t)" by (auto simp: chain_append)
    then show thesis using that [of "bs @ a # cs"] assms(1) ts Cons by (auto simp: ls_ring_def)
  qed
qed

lemma ring_insert:
  assumes "ls_ring nx (t # xs)" and "s \<notin> set (t # xs)"
  shows "ls_ring (nx(s := nx t, t := Some s)) (t # s # xs)"
  using assms by (auto simp: ls_ring_def chain_frame)

abbreviation next_of :: "(nat \<Rightarrow> lockstep option) \<Rightarrow> nat \<Rightarrow> nat ptr" where
  "next_of m \<equiv> \<lambda>t. Option.bind (m t) ls_next_tdp"

text \<open>A ring over the targets \<open>S\<close> with the first target \<open>f\<close>, and no other structure.\<close>

definition linked_ring :: "nat \<Rightarrow> nat set \<Rightarrow> (nat \<Rightarrow> lockstep option) \<Rightarrow> bool" where
  "linked_ring f S m \<longleftrightarrow> f \<in> S \<and> dom m = S \<and> (\<exists>ts. set ts = S \<and> ls_ring (next_of m) ts) \<and>
     (\<forall>t l. m t = Some l \<longrightarrow> (flag_on (ls_state l) LS_STATE_I_AM_THE_FIRST \<longleftrightarrow> t = f) \<and>
        \<not> flag_on (ls_state l) LS_STATE_PASS_COMPLETE)"

lemma linked_ringI:
  assumes "ls_ring (next_of m) ts" "set ts = S" "f \<in> S" "dom m = S"
    and "\<And>t l. m t = Some l \<Longrightarrow> (flag_on (ls_state l) LS_STATE_I_AM_THE_FIRST \<longleftrightarrow> t = f) \<and>
        \<not> flag_on (ls_state l) LS_STATE_PASS_COMPLETE"
  shows "linked_ring f S m"
  using assms unfolding linked_ring_def by blast

lemma ring_next: "ls_ring nx (t # xs) \<Longrightarrow> \<exists>n. nx t = Some n"
  by (cases xs) (auto simp: ls_ring_def)

lemma link_new_slave:
  assumes "linked_ring f S m" and "mt \<in> S" and "st \<notin> S"
  shows "fst (xddfunc_lockstep_link mt st (True, m))"
    and "linked_ring f (insert st S) (snd (xddfunc_lockstep_link mt st (True, m)))"
proof -
  obtain ts where ts: "set ts = S" "ls_ring (next_of m) ts" using assms(1) by (auto simp: linked_ring_def)
  obtain xs where xs: "ls_ring (next_of m) (mt # xs)" "set (mt # xs) = S"
    using ring_rotate [OF ts(2)] assms(2) ts(1) by metis
  have dm: "dom m = S" using assms(1) by (simp add: linked_ring_def)
  obtain n where n: "next_of m mt = Some n" using ring_next [OF xs(1)] by blast
  then obtain l where l: "m mt = Some l" "ls_next_tdp l = Some n" by (auto simp: bind_eq_Some_conv)
  have st: "m st = None" "st \<noteq> mt" using dm assms(2,3) by auto
  let ?m' = "m(st \<mapsto> zero_lockstep\<lparr>ls_next_tdp := Some n, ls_state := clear_flag 0 LS_STATE_I_AM_THE_FIRST\<rparr>,
      mt \<mapsto> l\<lparr>ls_next_tdp := Some st\<rparr>)"
  have e: "xddfunc_lockstep_link mt st (True, m) = (True, ?m')"
    using l st
    by (simp add: xddfunc_lockstep_link_def lockstep_structure_def on_lsp_def zero_lockstep_def Let_def
        fun_upd_twist [of st mt])
  have nx: "next_of ?m' = (next_of m)(st := next_of m mt, mt := Some st)"
    using n l st by (auto simp: fun_eq_iff)
  have fl: "\<And>t l. m t = Some l \<Longrightarrow> (flag_on (ls_state l) LS_STATE_I_AM_THE_FIRST \<longleftrightarrow> t = f) \<and>
      \<not> flag_on (ls_state l) LS_STATE_PASS_COMPLETE" and f: "f \<in> S"
    using assms(1) by (simp_all add: linked_ring_def)
  have "linked_ring f (insert st S) ?m'"
  proof (rule linked_ringI)
    show "ls_ring (next_of ?m') (mt # st # xs)"
      unfolding nx by (rule ring_insert [OF xs(1)]) (use xs(2) assms(3) in auto)
    show "set (mt # st # xs) = insert st S" using xs(2) by auto
    show "f \<in> insert st S" using f by simp
    show "dom ?m' = insert st S" using dm assms(2) by auto
    show "(flag_on (ls_state k) LS_STATE_I_AM_THE_FIRST \<longleftrightarrow> t = f) \<and> \<not> flag_on (ls_state k) LS_STATE_PASS_COMPLETE"
      if "?m' t = Some k" for t k
      using that fl [of t] fl [OF l(1)] f assms(3) st(2)
      by (auto simp: flag_simps clear_flag_def split: if_splits)
  qed
  then show "fst (xddfunc_lockstep_link mt st (True, m))"
    and "linked_ring f (insert st S) (snd (xddfunc_lockstep_link mt st (True, m)))"
    unfolding e by simp_all
qed

lemma link_first:
  assumes "mt \<noteq> st"
  shows "fst (xddfunc_lockstep_link mt st (False, Map.empty))"
    and "linked_ring mt {mt, st} (snd (xddfunc_lockstep_link mt st (False, Map.empty)))"
proof -
  let ?m' = "[mt \<mapsto> zero_lockstep\<lparr>ls_state := set_flag 0 LS_STATE_I_AM_THE_FIRST, ls_next_tdp := Some st\<rparr>,
      st \<mapsto> zero_lockstep\<lparr>ls_next_tdp := Some mt, ls_state := clear_flag 0 LS_STATE_I_AM_THE_FIRST\<rparr>]"
  have e: "xddfunc_lockstep_link mt st (False, Map.empty) = (True, ?m')"
    using assms
    by (simp add: xddfunc_lockstep_link_def lockstep_structure_def on_lsp_def zero_lockstep_def Let_def
        fun_upd_twist [of st mt])
  have "linked_ring mt {mt, st} ?m'"
  proof (rule linked_ringI)
    show "ls_ring (next_of ?m') [mt, st]" using assms by (simp add: ls_ring_def)
    show "(flag_on (ls_state k) LS_STATE_I_AM_THE_FIRST \<longleftrightarrow> t = mt) \<and> \<not> flag_on (ls_state k) LS_STATE_PASS_COMPLETE"
      if "?m' t = Some k" for t k
      using that assms by (auto simp: flag_on_def set_flag_def clear_flag_def split: if_splits)
  qed auto
  then show "fst (xddfunc_lockstep_link mt st (False, Map.empty))"
    and "linked_ring mt {mt, st} (snd (xddfunc_lockstep_link mt st (False, Map.empty)))"
    unfolding e by simp_all
qed

text \<open>Every option names a master that is in the ring and a slave that is not.\<close>

fun links_ok :: "nat set \<Rightarrow> (nat \<times> nat) list \<Rightarrow> bool" where
  "links_ok S [] = True"
| "links_ok S ((mt, st) # ps) = (mt \<in> S \<and> st \<notin> S \<and> links_ok (insert st S) ps)"

definition link_all :: "(nat \<times> nat) list \<Rightarrow> bool \<times> (nat \<Rightarrow> lockstep option) \<Rightarrow> bool \<times> (nat \<Rightarrow> lockstep option)" where
  "link_all ps g = fold (\<lambda>(mt, st). xddfunc_lockstep_link mt st) ps g"

lemma link_all_ring:
  "links_ok S ps \<Longrightarrow> linked_ring f S m \<Longrightarrow> linked_ring f (S \<union> snd ` set ps) (snd (link_all ps (True, m)))"
proof (induction ps arbitrary: S m)
  case Nil
  then show ?case by (simp add: link_all_def)
next
  case (Cons p ps)
  obtain mt st where p: "p = (mt, st)" by fastforce
  define m' where "m' = snd (xddfunc_lockstep_link mt st (True, m))"
  have m': "xddfunc_lockstep_link mt st (True, m) = (True, m')" "linked_ring f (insert st S) m'"
    using link_new_slave [OF Cons.prems(2), of mt st] Cons.prems(1) p by (simp_all add: m'_def prod_eq_iff)
  have "linked_ring f (insert st S \<union> snd ` set ps) (snd (link_all ps (True, m')))"
    using Cons.IH [OF _ m'(2)] Cons.prems(1) p by simp
  then show ?case using p m'(1) by (simp add: link_all_def insert_commute)
qed

subsection \<open>Properties\<close>

text \<open>C33: Linking targets with \<open>-lockstep\<close>, when each option names a master that is already linked
  and a new slave, gives one ring over all targets named, with the first master as the only first
  target and no pass complete.  Naming the two targets of a ring in the other order as well leaves
  no first target at all, and a ring of one.\<close>

theorem lockstep_links_ring:
  assumes "m0 \<noteq> s0" and "links_ok {m0, s0} ps"
  shows "linked_ring m0 ({m0, s0} \<union> snd ` set ps) (snd (link_all ((m0, s0) # ps) (False, Map.empty))) \<and>
    (\<forall>m. m = snd (link_all [(m0, s0), (s0, m0)] (False, Map.empty)) \<longrightarrow>
       (\<forall>t l. m t = Some l \<longrightarrow> \<not> flag_on (ls_state l) LS_STATE_I_AM_THE_FIRST) \<and> next_of m m0 = Some m0)"
proof
  define m where "m = snd (xddfunc_lockstep_link m0 s0 (False, Map.empty))"
  have m: "xddfunc_lockstep_link m0 s0 (False, Map.empty) = (True, m)" "linked_ring m0 {m0, s0} m"
    using link_first [OF assms(1)] by (simp_all add: m_def prod_eq_iff)
  show "linked_ring m0 ({m0, s0} \<union> snd ` set ps) (snd (link_all ((m0, s0) # ps) (False, Map.empty)))"
    using link_all_ring [OF assms(2) m(2)] m(1) by (simp add: link_all_def)
  show "\<forall>m. m = snd (link_all [(m0, s0), (s0, m0)] (False, Map.empty)) \<longrightarrow>
       (\<forall>t l. m t = Some l \<longrightarrow> \<not> flag_on (ls_state l) LS_STATE_I_AM_THE_FIRST) \<and> next_of m m0 = Some m0"
    using assms(1)
    by (auto simp: link_all_def xddfunc_lockstep_link_def lockstep_structure_def on_lsp_def zero_lockstep_def Let_def
        flag_simps split: if_splits)
qed

theorem lockstep_links_ring_witness:
  "linked_ring 0 ({0, 1} \<union> snd ` set [(1 :: nat, 2)]) (snd (link_all [(0, 1), (1, 2)] (False, Map.empty))) \<and>
   next_of (snd (link_all [(0, 1), (1, 0)] (False, Map.empty))) 0 = Some 0"
proof -
  have a: "(0 :: nat) \<noteq> 1" and b: "links_ok {0, 1} [(1, 2)]" by simp_all
  note w = lockstep_links_ring [OF a b]
  show ?thesis by (rule conjI [OF conjunct1 [OF w] conjunct2 [OF mp [OF spec [OF conjunct2 [OF w]] refl]]])
qed

text \<open>C7: When a pass in lockstep starts with the targets in a ring, one of them the first and each with
  operations to do, then under every interleaving of the target threads, their workers and a
  cancellation: at most one target has the turn; a target that hands the turn on does so to a
  target that waits for it or has yet to start; and when no target has the turn, all of them
  have finished their pass.\<close>

theorem lockstep_turns:
  assumes "ls_start ts r" and "(ls_step (set ts))\<^sup>*\<^sup>* r r'"
  shows "(\<forall>t\<in>set ts. \<forall>u\<in>set ts. has_turn r' t \<longrightarrow> has_turn r' u \<longrightarrow> t = u) \<and>
    (\<forall>t\<in>set ts. \<forall>rem j. run_pc r' t = L_Release rem j \<longrightarrow>
       run_pc r' j \<in> {L_Start, L_First_Wait} \<union> range L_Wait) \<and>
    ((\<exists>t\<in>set ts. has_turn r' t) \<or> (\<forall>t\<in>set ts. run_pc r' t = L_Done \<or> run_pc r' t = L_While 0))"
proof -
  have inv: "ls_inv ts r'"
    using assms(2) ls_start_inv [OF assms(1)] by (induction rule: rtranclp_induct) (auto intro: ls_inv_step)
  show ?thesis
  proof (intro conjI)
    show "\<forall>t\<in>set ts. \<forall>u\<in>set ts. has_turn r' t \<longrightarrow> has_turn r' u \<longrightarrow> t = u"
      using inv unfolding ls_inv_def by (elim conjE)
    show "\<forall>t\<in>set ts. \<forall>rem j. run_pc r' t = L_Release rem j \<longrightarrow>
        run_pc r' j \<in> {L_Start, L_First_Wait} \<union> range L_Wait"
      using ls_inv_waiting [OF inv] by blast
    show "(\<exists>t\<in>set ts. has_turn r' t) \<or> (\<forall>t\<in>set ts. run_pc r' t = L_Done \<or> run_pc r' t = L_While 0)"
      using ls_inv_no_turn [OF inv] by metis
  qed
qed

text \<open>Two targets linked by one option, each with four operations to do.\<close>

definition sample_run :: ls_run where
  "sample_run = \<lparr>run_lsp = (\<lambda>t. the (snd (link_all [(0, 1)] (False, Map.empty)) t)), run_target_ops = (\<lambda>_. 4),
     run_pc = (\<lambda>_. L_Start), run_xdd = (\<lambda>_. sample 2 2 0), run_phase = (\<lambda>_ _. K_Idle), run_canceled = False\<rparr>"

lemma sample_run_lsp:
  "run_lsp sample_run 0 = zero_lockstep\<lparr>ls_state := 0x20, ls_next_tdp := Some 1\<rparr>"
  "run_lsp sample_run 1 = zero_lockstep\<lparr>ls_next_tdp := Some 0\<rparr>"
  by (simp_all add: sample_run_def link_all_def xddfunc_lockstep_link_def lockstep_structure_def on_lsp_def
      Let_def zero_lockstep_def set_flag_def clear_flag_def)

lemma sample_run_start: "ls_start [0, 1] sample_run"
proof -
  have "ls_ring (\<lambda>u. ls_next_tdp (run_lsp sample_run u)) [0, 1]"
    by (simp add: ls_ring_def sample_run_lsp [simplified])
  moreover have "run_pc sample_run t = L_Start" "run_target_ops sample_run t \<noteq> 0" for t
    by (simp_all add: sample_run_def)
  ultimately show ?thesis
    by (simp add: ls_start_def sample_run_lsp [simplified] zero_lockstep_def flag_on_def)
qed

theorem lockstep_turns_witness:
  "\<exists>r'. ls_step {0, 1} sample_run r' \<and> run_pc r' 0 = L_While 4 \<and> has_turn r' 0 \<and> \<not> has_turn r' 1"
proof -
  have st: "xdd_lockstep 0 (run_target_ops sample_run 0) (run_lsp sample_run 0) (run_pc sample_run 0)
      (ls_view sample_run 0) = Some (L_While 4, None, ls_view sample_run 0)"
    by (simp add: sample_run_lsp zero_lockstep_def flag_on_def) (simp add: sample_run_def flag_on_def)
  obtain r' where r': "ls_step {0, 1} sample_run r'" "run_pc r' 0 = L_While 4"
    using ls_step.thread [OF _ st, of "{0, 1}"] by force
  have "(ls_step (set [0, 1]))\<^sup>*\<^sup>* sample_run r'" using r'(1) by simp
  from lockstep_turns [OF sample_run_start this] have "has_turn r' 0 \<longrightarrow> has_turn r' 1 \<longrightarrow> (0 :: nat) = 1" by simp
  moreover have "has_turn r' 0" using r'(2) by (simp add: has_turn_def)
  ultimately show ?thesis using r' by auto
qed

text \<open>C34: A target in lockstep that is not told to stop with the others never finishes its pass once the run
  is canceled, and never when its interval is 0, the value every \<open>percent\<close> interval below 100
  is converted to: no interval issues an operation, so the operations that remain never get less.\<close>

theorem lockstep_never_ends:
  assumes "run_pc r t = L_While rem" and "rem \<noteq> 0"
    and "\<not> flag_on (ls_state (run_lsp r t)) LS_STATE_END_STOP"
    and "run_canceled r \<or> ls_interval_value (run_lsp r t) = 0"
    and "(ls_step T)\<^sup>*\<^sup>* r r'"
  shows "run_pc r' t \<noteq> L_Done"
proof -
  have "never_ends t r" using assms(1-4) by (auto simp: never_ends_def ops_remaining_def no_issue_def)
  with assms(5) have "never_ends t r'" by (induction rule: rtranclp_induct) (auto intro: never_ends_step)
  then show ?thesis by (auto simp: never_ends_def ops_remaining_def)
qed

theorem lockstep_never_ends_witness:
  "\<exists>r. run_pc r 0 = L_While 4 \<and> run_canceled r \<and> (\<forall>r'. (ls_step {0, 1})\<^sup>*\<^sup>* r r' \<longrightarrow> run_pc r' 0 \<noteq> L_Done)"
proof -
  let ?r = "sample_run\<lparr>run_pc := \<lambda>_. L_While 4, run_canceled := True\<rparr>"
  have r: "run_pc ?r 0 = L_While 4" "\<not> flag_on (ls_state (run_lsp ?r 0)) LS_STATE_END_STOP" "run_canceled ?r"
    by (simp_all add: sample_run_lsp zero_lockstep_def flag_on_def)
  then have "\<forall>r'. (ls_step {0, 1})\<^sup>*\<^sup>* ?r r' \<longrightarrow> run_pc r' 0 \<noteq> L_Done"
    using lockstep_never_ends [of ?r 0 4 "{0, 1}"] by simp
  with r(1,3) show ?thesis by blast
qed

end
