(* ===== verification/Data_Pattern.thy ===== *)
theory Data_Pattern
  imports Xdd_Types
begin

unbundle bit_operations_syntax

text \<open>
  The data patterns of the I/O buffer and their verification:
  \<^verbatim>\<open>src/common/datapatterns.c\<close>, \<^verbatim>\<open>src/common/xint_datapatterns.h\<close> and \<^verbatim>\<open>src/base/verify.c\<close>.
  A buffer is the list of its bytes; an access outside it, or a loop that does not end, is \<open>None\<close>.
  The random numbers of the C library are a parameter: \<open>rnd seed k\<close> is the result of call \<open>k\<close> of
  \<^verbatim>\<open>random\<close> after the generator was initialised with \<open>seed\<close>.
\<close>

abbreviation (input) DP_RANDOM_PATTERN :: u64 where "DP_RANDOM_PATTERN \<equiv> 0x1"
abbreviation (input) DP_SEQUENCED_PATTERN :: u64 where "DP_SEQUENCED_PATTERN \<equiv> 0x2"
abbreviation (input) DP_ASCII_PATTERN :: u64 where "DP_ASCII_PATTERN \<equiv> 0x4"
abbreviation (input) DP_HEX_PATTERN :: u64 where "DP_HEX_PATTERN \<equiv> 0x8"
abbreviation (input) DP_SINGLECHAR_PATTERN :: u64 where "DP_SINGLECHAR_PATTERN \<equiv> 0x10"
abbreviation (input) DP_REPLICATE_PATTERN :: u64 where "DP_REPLICATE_PATTERN \<equiv> 0x40"
abbreviation (input) DP_LFPAT_PATTERN :: u64 where "DP_LFPAT_PATTERN \<equiv> 0x80"
abbreviation (input) DP_LTPAT_PATTERN :: u64 where "DP_LTPAT_PATTERN \<equiv> 0x100"
abbreviation (input) DP_CJTPAT_PATTERN :: u64 where "DP_CJTPAT_PATTERN \<equiv> 0x200"
abbreviation (input) DP_CRPAT_PATTERN :: u64 where "DP_CRPAT_PATTERN \<equiv> 0x400"
abbreviation (input) DP_CSPAT_PATTERN :: u64 where "DP_CSPAT_PATTERN \<equiv> 0x800"
abbreviation (input) DP_PATTERN_PREFIX :: u64 where "DP_PATTERN_PREFIX \<equiv> 0x1000"
abbreviation (input) DP_INVERSE_PATTERN :: u64 where "DP_INVERSE_PATTERN \<equiv> 0x2000"
abbreviation (input) DP_RANDOM_BY_TARGET_PATTERN :: u64 where "DP_RANDOM_BY_TARGET_PATTERN \<equiv> 0x8000"
abbreviation (input) TO_VERIFY_CONTENTS :: u64 where "TO_VERIFY_CONTENTS \<equiv> 0x4000000000"
abbreviation (input) TO_VERIFY_LOCATION :: u64 where "TO_VERIFY_LOCATION \<equiv> 0x8000000000"

record xint_data_pattern =
  data_pattern_options :: u64
  data_pattern :: "u8 list"
  data_pattern_length :: nat
  data_pattern_prefix_binary :: u64

subsection \<open>The built-in patterns\<close>

definition lfpat :: "u8 list" where
  "lfpat = concat (replicate 128 [0xab]) @
     [0xeb] @
     concat (replicate 124 [0x54]) @
     [0xf4, 0xab, 0xab]"

definition ltpat :: "u8 list" where
  "ltpat = [0xee, 0xfe, 0xc7, 0xf1, 0xfe, 0x27, 0x7e, 0x7e, 0x7e, 0x7e, 0x7e, 0x7e, 0xfc, 0xe3, 0xfc, 0xe3] @
     concat (replicate 492 [0x7e]) @
     [0xfc, 0xe3, 0xfc, 0xe3]"

definition cjtpat :: "u8 list" where
  "cjtpat = concat (replicate 6 [0xbc, 0x95, 0xb5, 0xb5]) @
     [0xbc, 0xb5, 0x36, 0x36] @
     concat (replicate 151 [0x7e]) @
     [0x74, 0x7e, 0xab] @
     concat (replicate 51 [0xb5]) @
     [0x5e, 0x4a, 0x7e, 0x7e, 0x7e, 0x7e, 0xfe, 0xf5, 0x2e, 0xf6, 0xdd, 0xbc, 0xb5, 0xd5, 0xd5]"

definition crpat :: "u8 list" where
  "crpat = concat (replicate 6 [0xbc, 0x95, 0xb5, 0xb5]) @
     [0xbc, 0xb5, 0x36, 0x36] @
     concat (replicate 16 [0xbe, 0xd7, 0x23, 0x47, 0x6b, 0x8f, 0xb3, 0x14, 0x5e, 0xfb, 0x35, 0x59]) @
     [0xee, 0x23, 0x55, 0x16, 0xbc, 0xb5, 0xd5, 0xd5]"

definition cspat :: "u8 list" where
  "cspat = concat (replicate 6 [0xbc, 0x95, 0xb5, 0xb5]) @
     [0xbc, 0xb5, 0x36, 0x36] @
     concat (replicate 2012 [0x7f]) @
     [0xf1, 0x96, 0xdb, 0x97, 0xbc, 0xb5, 0xd5, 0xd5]"

subsection \<open>Filling the buffer\<close>

text \<open>Copying \<open>bs\<close> to position \<open>a\<close> of a buffer.\<close>

definition poke :: "nat \<Rightarrow> u8 list \<Rightarrow> u8 list \<Rightarrow> u8 list option" where
  "poke a bs buf = (if a + length bs \<le> length buf then Some (take a buf @ bs @ drop (a + length bs) buf) else None)"

definition peek :: "nat \<Rightarrow> nat \<Rightarrow> u8 list \<Rightarrow> u8 list option" where
  "peek a n buf = (if a + n \<le> length buf then Some (take n (drop a buf)) else None)"

text \<open>
  The loop that copies a pattern of length \<open>len\<close> over and over, from \<open>ucp\<close> on, until
  nothing of the buffer remains.
\<close>

partial_function (option) copy_pattern :: "u8 list \<Rightarrow> nat \<Rightarrow> nat \<Rightarrow> nat \<Rightarrow> u8 list \<Rightarrow> u8 list option" where
  "copy_pattern pat len remaining ucp buf =
     (if remaining = 0 then Some buf
      else let n = (if len < remaining then len else remaining)
           in Option.bind (peek 0 n pat) (\<lambda>bs.
              Option.bind (poke ucp bs buf) (\<lambda>buf'. copy_pattern pat len (remaining - n) (ucp + n) buf')))"

definition clear_buffer :: "nat \<Rightarrow> u8 \<Rightarrow> u8 list \<Rightarrow> u8 list option" where
  "clear_buffer n c buf = poke 0 (replicate n c) buf"

text \<open>The random patterns write a 32-bit number into each four bytes.\<close>

fun random_words :: "(nat \<Rightarrow> u32) \<Rightarrow> nat list \<Rightarrow> u8 list \<Rightarrow> u8 list option" where
  "random_words rnd [] buf = Some buf"
| "random_words rnd (i # is) buf =
     Option.bind (poke (4 * i) (le_bytes 4 (uint (rnd i))) buf) (random_words rnd is)"

definition fill_builtin :: "u8 list \<Rightarrow> nat \<Rightarrow> xint_data_pattern \<Rightarrow> u8 list \<Rightarrow> (xint_data_pattern \<times> u8 list) option" where
  "fill_builtin pat xfer d buf =
     Option.bind (clear_buffer xfer 0 buf) (\<lambda>b.
       map_option (Pair (d\<lparr>data_pattern_length := length pat\<rparr>)) (copy_pattern pat (length pat) xfer 0 b))"

definition xdd_datapattern_buffer_init ::
    "(int \<Rightarrow> nat \<Rightarrow> u32) \<Rightarrow> xint_target_data \<Rightarrow> xint_data_pattern \<Rightarrow> u8 list \<Rightarrow> (xint_data_pattern \<times> u8 list) option" where
  "xdd_datapattern_buffer_init rnd t d buf =
     (let xfer = nat (td_xfer_size t); on = flag_on (data_pattern_options d) in
      if on DP_RANDOM_PATTERN then map_option (Pair d) (random_words (rnd 72058) [0..<xfer div 4] buf)
      else if on DP_RANDOM_BY_TARGET_PATTERN
      then map_option (Pair d) (random_words (rnd (td_target_number t + 1)) [0..<xfer div 4] buf)
      else if on DP_ASCII_PATTERN \<or> on DP_HEX_PATTERN
      then Option.bind (clear_buffer xfer 0 buf) (\<lambda>b. map_option (Pair d)
             (if on DP_REPLICATE_PATTERN then copy_pattern (data_pattern d) (data_pattern_length d) xfer 0 b
              else Option.bind (peek 0 (if data_pattern_length d < xfer then data_pattern_length d else xfer) (data_pattern d))
                     (\<lambda>bs. poke 0 bs b)))
      else if on DP_LFPAT_PATTERN then fill_builtin lfpat xfer d buf
      else if on DP_LTPAT_PATTERN then fill_builtin ltpat xfer d buf
      else if on DP_CJTPAT_PATTERN then fill_builtin cjtpat xfer d buf
      else if on DP_CRPAT_PATTERN then fill_builtin crpat xfer d buf
      else if on DP_CSPAT_PATTERN then fill_builtin cspat xfer d buf
      else case data_pattern d of [] \<Rightarrow> None | c # _ \<Rightarrow> map_option (Pair d) (clear_buffer xfer c buf))"

text \<open>The sequenced pattern: the byte offset of each eight bytes, with a prefix, or its complement.\<close>

definition sequence_word :: "bool \<Rightarrow> xint_data_pattern \<Rightarrow> u64 \<Rightarrow> nat \<Rightarrow> u64" where
  "sequence_word prefix d off i =
     (let v = off + of_nat i; v1 = (if prefix then v OR data_pattern_prefix_binary d else v)
      in if flag_on (data_pattern_options d) DP_INVERSE_PATTERN then v1 XOR 0xFFFFFFFFFFFFFFFF else v1)"

fun fill_words :: "(nat \<Rightarrow> u64) \<Rightarrow> nat list \<Rightarrow> u8 list \<Rightarrow> u8 list option" where
  "fill_words f [] buf = Some buf"
| "fill_words f (j # js) buf = Option.bind (poke (8 * j) (le_bytes 8 (uint (f j))) buf) (fill_words f js)"

definition xdd_datapattern_fill :: "xint_target_data \<Rightarrow> xint_data_pattern \<Rightarrow> xint_task \<Rightarrow> u8 list \<Rightarrow> u8 list option" where
  "xdd_datapattern_fill t d k buf =
     (if flag_on (data_pattern_options d) DP_SEQUENCED_PATTERN
      then fill_words (\<lambda>j. sequence_word True d (task_byte_offset k) (8 * j)) [0..<nat (td_xfer_size t) div 8] buf
      else Some buf)"

subsection \<open>Verification\<close>

text \<open>
  The hexadecimal pattern: one run over the pattern, which stops when nothing remains to be
  compared, and the loop of such runs.  The result is the position, what remains, and the errors.
\<close>

fun verify_hex_row :: "u8 list \<Rightarrow> u8 list \<Rightarrow> nat \<Rightarrow> int \<Rightarrow> int \<Rightarrow> (nat \<times> int \<times> int) option" where
  "verify_hex_row [] buf pos remaining errors = Some (pos, remaining, errors)"
| "verify_hex_row (p # ps) buf pos remaining errors =
     (if length buf \<le> pos then None
      else let errors' = (if p \<noteq> buf ! pos then errors + 1 else errors)
           in if remaining - 1 \<le> 0 then Some (pos, remaining - 1, errors')
              else verify_hex_row ps buf (Suc pos) (remaining - 1) errors')"

partial_function (option) verify_hex_loop :: "u8 list \<Rightarrow> u8 list \<Rightarrow> nat \<Rightarrow> int \<Rightarrow> int \<Rightarrow> int option" where
  "verify_hex_loop pat buf pos remaining errors =
     (if remaining = 0 then Some errors
      else Option.bind (verify_hex_row pat buf pos remaining errors) (\<lambda>r.
             verify_hex_loop pat buf (fst r) (fst (snd r)) (snd (snd r))))"

definition xdd_verify_hex :: "xint_data_pattern \<Rightarrow> xint_task \<Rightarrow> u8 list \<Rightarrow> int option" where
  "xdd_verify_hex d k buf =
     Option.bind (peek 0 (data_pattern_length d) (data_pattern d)) (\<lambda>pat.
       verify_hex_loop pat buf 0
         (if flag_on (data_pattern_options d) DP_REPLICATE_PATTERN then as_int32 (task_xfer_size k)
          else as_int32 (of_nat (data_pattern_length d))) 0)"

fun verify_words :: "(nat \<Rightarrow> u64) \<Rightarrow> nat list \<Rightarrow> u8 list \<Rightarrow> int \<Rightarrow> int option" where
  "verify_words f [] buf errors = Some errors"
| "verify_words f (i # is) buf errors =
     Option.bind (peek (8 * i) 8 buf) (\<lambda>bs.
       verify_words f is buf (if word_of_int (le_value bs) \<noteq> f i then errors + 1 else errors))"

text \<open>The loop counts in eights up to the transfer size, so a size that is not a multiple is rounded up.\<close>

definition xdd_verify_sequence :: "xint_data_pattern \<Rightarrow> xint_task \<Rightarrow> u8 list \<Rightarrow> int option" where
  "xdd_verify_sequence d k buf =
     verify_words (\<lambda>i. sequence_word (flag_on (data_pattern_options d) DP_PATTERN_PREFIX) d (task_byte_offset k) (8 * i))
       [0..<(unat (task_xfer_size k) + 7) div 8] buf 0"

fun verify_bytes :: "u8 \<Rightarrow> nat list \<Rightarrow> u8 list \<Rightarrow> int \<Rightarrow> int option" where
  "verify_bytes c [] buf errors = Some errors"
| "verify_bytes c (i # is) buf errors =
     (if length buf \<le> i then None
      else verify_bytes c is buf (if buf ! i \<noteq> c then errors + 1 else errors))"

definition xdd_verify_singlechar :: "xint_data_pattern \<Rightarrow> xint_task \<Rightarrow> u8 list \<Rightarrow> int option" where
  "xdd_verify_singlechar d k buf =
     (case data_pattern d of
        [] \<Rightarrow> (if task_xfer_size k = 0 then Some 0 else None)
      | c # _ \<Rightarrow> verify_bytes c [0..<unat (task_xfer_size k)] buf 0)"

definition xdd_verify_contents :: "xint_data_pattern \<Rightarrow> xint_task \<Rightarrow> u8 list \<Rightarrow> int option" where
  "xdd_verify_contents d k buf =
     (if flag_on (data_pattern_options d) DP_SEQUENCED_PATTERN then xdd_verify_sequence d k buf
      else if flag_on (data_pattern_options d) DP_HEX_PATTERN then xdd_verify_hex d k buf
      else if flag_on (data_pattern_options d) DP_SINGLECHAR_PATTERN then xdd_verify_singlechar d k buf
      else Some 0)"

definition xdd_verify_location :: "xint_target_data \<Rightarrow> u8 list \<Rightarrow> int option" where
  "xdd_verify_location t buf =
     map_option (\<lambda>bs. if word_of_int (le_value bs) \<noteq> tc_current_byte_offset (td_counters t) then 1 else 0) (peek 0 8 buf)"

definition xdd_verify :: "xint_target_data \<Rightarrow> xint_data_pattern \<Rightarrow> xint_task \<Rightarrow> u8 list \<Rightarrow> int option" where
  "xdd_verify t d k buf =
     (if \<not> flag_on (td_target_options t) (TO_VERIFY_CONTENTS OR TO_VERIFY_LOCATION) then Some 0
      else if flag_on (td_target_options t) TO_VERIFY_LOCATION then xdd_verify_location t buf
      else xdd_verify_contents d k buf)"

subsection \<open>The copy loop\<close>

text \<open>The reference: the pattern repeated up to \<open>n\<close> bytes.\<close>

definition cyclic :: "u8 list \<Rightarrow> nat \<Rightarrow> nat \<Rightarrow> u8 list" where
  "cyclic pat len n = map (\<lambda>i. pat ! (i mod len)) [0..<n]"

lemma length_cyclic [simp]: "length (cyclic pat len n) = n"
  by (simp add: cyclic_def)

lemma cyclic_short: "n \<le> len \<Longrightarrow> len \<le> length pat \<Longrightarrow> cyclic pat len n = take n pat"
proof (rule nth_equalityI)
  fix i assume "n \<le> len" "len \<le> length pat" "i < length (cyclic pat len n)"
  then show "cyclic pat len n ! i = take n pat ! i" by (simp add: cyclic_def)
qed simp

lemma cyclic_step:
  assumes "len \<le> n" and "len \<le> length pat"
  shows "cyclic pat len n = take len pat @ cyclic pat len (n - len)"
proof (rule nth_equalityI)
  fix i assume i: "i < length (cyclic pat len n)"
  show "cyclic pat len n ! i = (take len pat @ cyclic pat len (n - len)) ! i"
  proof (cases "i < len")
    case True
    then show ?thesis using i assms by (simp add: cyclic_def nth_append)
  next
    case False
    then have "i mod len = (i - len) mod len" by (simp add: le_mod_geq)
    then show ?thesis using False i assms by (simp add: cyclic_def nth_append)
  qed
qed (use assms in simp)

lemma copy_pattern_spec:
  assumes "0 < len" and "len \<le> length pat" and "ucp + n \<le> length buf"
  shows "copy_pattern pat len n ucp buf = Some (take ucp buf @ cyclic pat len n @ drop (ucp + n) buf)"
  using assms(3)
proof (induction n arbitrary: ucp buf rule: less_induct)
  case (less n)
  show ?case
  proof (cases "n = 0")
    case True
    then show ?thesis by (subst copy_pattern.simps) (simp add: cyclic_def)
  next
    case False
    show ?thesis
    proof (cases "len < n")
      case True
      let ?b = "take ucp buf @ take len pat @ drop (ucp + len) buf"
      have p: "peek 0 len pat = Some (take len pat)" "poke ucp (take len pat) buf = Some ?b"
        using assms less.prems True by (simp_all add: peek_def poke_def)
      have b: "length ?b = length buf" using less.prems True assms(2) by simp
      have "copy_pattern pat len (n - len) (ucp + len) ?b =
          Some (take (ucp + len) ?b @ cyclic pat len (n - len) @ drop (ucp + len + (n - len)) ?b)"
        by (rule less.IH) (use assms(1) True less.prems b in auto)
      moreover have "take (ucp + len) ?b = take ucp buf @ take len pat"
        using less.prems True assms(2) by (simp add: take_append)
      moreover have "drop (ucp + len + (n - len)) ?b = drop (ucp + n) buf"
        using less.prems True assms(2) by (simp add: add.commute)
      moreover have "copy_pattern pat len n ucp buf = copy_pattern pat len (n - len) (ucp + len) ?b"
        using False True p by (subst copy_pattern.simps) simp
      ultimately show ?thesis using cyclic_step [of len n pat] True assms(2) by simp
    next
      case nl: False
      have p: "peek 0 n pat = Some (take n pat)"
        "poke ucp (take n pat) buf = Some (take ucp buf @ take n pat @ drop (ucp + n) buf)"
        using assms less.prems nl by (simp_all add: peek_def poke_def)
      have "copy_pattern pat len n ucp buf = copy_pattern pat len 0 (ucp + n) (take ucp buf @ take n pat @ drop (ucp + n) buf)"
        using False nl p by (subst copy_pattern.simps) simp
      then show ?thesis
        using cyclic_short [of n len pat] nl assms(2) by (simp add: copy_pattern.simps)
    qed
  qed
qed

text \<open>With an empty pattern the loop does not end.\<close>

lemma copy_pattern_empty:
  assumes "copy_pattern pat 0 n ucp buf = Some b"
  shows "n = 0"
proof -
  have "len = 0 \<longrightarrow> n = 0" if "copy_pattern pat len n ucp buf = Some b" for len
    by (rule copy_pattern.raw_induct [of "\<lambda>pat len n ucp buf b. len = 0 \<longrightarrow> n = 0", OF _ that])
       (fastforce simp: bind_eq_Some_conv Let_def split: if_splits)
  with assms show ?thesis by blast
qed

subsection \<open>Counting mismatches\<close>

definition mismatches :: "u8 list \<Rightarrow> u8 list \<Rightarrow> int" where
  "mismatches xs ys = int (length (filter (\<lambda>(x, y). x \<noteq> y) (zip xs ys)))"

lemma mismatches_simps [simp]:
  "mismatches [] ys = 0"
  "mismatches (x # xs) (y # ys) = (if x \<noteq> y then 1 else 0) + mismatches xs ys"
  by (simp_all add: mismatches_def)

lemma mismatches_append: "mismatches (xs @ ys) zs = mismatches xs zs + mismatches ys (drop (length xs) zs)"
proof -
  have "zip xs (take (length xs) zs) = zip xs zs"
  proof (induction xs arbitrary: zs)
    case (Cons x xs)
    then show ?case by (cases zs) simp_all
  qed simp
  then show ?thesis by (simp add: mismatches_def zip_append1)
qed

lemma mismatches_zero: "length xs \<le> length ys \<Longrightarrow> mismatches xs ys = 0 \<longleftrightarrow> take (length xs) ys = xs"
proof (induction xs arbitrary: ys)
  case Nil
  then show ?case by simp
next
  case (Cons x xs)
  then obtain y ys' where ys: "ys = y # ys'" by (cases ys) auto
  have "0 \<le> mismatches xs ys'" by (simp add: mismatches_def)
  then show ?case using Cons ys by auto
qed

lemma verify_hex_row_spec:
  assumes "0 < r" and "pos + min r (length ps) \<le> length buf"
  shows "verify_hex_row ps buf pos (int r) e =
    (if r \<le> length ps then Some (pos + r - 1, 0, e + mismatches (take r ps) (drop pos buf))
     else Some (pos + length ps, int (r - length ps), e + mismatches ps (drop pos buf)))"
  using assms
proof (induction ps arbitrary: pos r e)
  case Nil
  then show ?case by simp
next
  case (Cons p ps)
  have pos: "pos < length buf" using Cons.prems by simp
  then have d: "drop pos buf = buf ! pos # drop (Suc pos) buf" by (simp add: Cons_nth_drop_Suc)
  show ?case
  proof (cases "r = 1")
    case True
    then show ?thesis using pos d by simp
  next
    case False
    then obtain r' where r: "r = Suc r'" "0 < r'" using Cons.prems(1) by (cases r) auto
    have "verify_hex_row ps buf (Suc pos) (int r') e' =
        (if r' \<le> length ps then Some (Suc pos + r' - 1, 0, e' + mismatches (take r' ps) (drop (Suc pos) buf))
         else Some (Suc pos + length ps, int (r' - length ps), e' + mismatches ps (drop (Suc pos) buf)))" for e'
      by (rule Cons.IH) (use Cons.prems r in auto)
    then show ?thesis using pos d r by (auto simp: Let_def)
  qed
qed

lemma verify_hex_loop_spec:
  assumes "pat \<noteq> []" and "pos + r \<le> length buf"
  shows "verify_hex_loop pat buf pos (int r) e = Some (e + mismatches (cyclic pat (length pat) r) (drop pos buf))"
  using assms(2)
proof (induction r arbitrary: pos e rule: less_induct)
  case (less r)
  show ?case
  proof (cases "r = 0")
    case True
    then show ?thesis by (simp add: verify_hex_loop.simps cyclic_def)
  next
    case False
    note row = verify_hex_row_spec [of r pos pat buf e]
    show ?thesis
    proof (cases "r \<le> length pat")
      case True
      then show ?thesis
        using row False less.prems cyclic_short [of r "length pat" pat]
        by (simp add: verify_hex_loop.simps [of pat buf pos] verify_hex_loop.simps [of pat buf _ 0])
    next
      case nl: False
      have "verify_hex_loop pat buf (pos + length pat) (int (r - length pat)) e' =
          Some (e' + mismatches (cyclic pat (length pat) (r - length pat)) (drop (pos + length pat) buf))" for e'
        by (rule less.IH) (use assms(1) nl less.prems False in auto)
      moreover have "verify_hex_loop pat buf pos (int r) e =
          verify_hex_loop pat buf (pos + length pat) (int (r - length pat)) (e + mismatches pat (drop pos buf))"
        using row False nl less.prems by (subst verify_hex_loop.simps) simp
      ultimately show ?thesis
        using cyclic_step [of "length pat" r pat] nl by (simp add: mismatches_append add.commute)
    qed
  qed
qed

text \<open>Words in memory.\<close>

lemma le_value_word: "length bs = 8 \<Longrightarrow> word_of_int (le_value bs) = (w :: u64) \<longleftrightarrow> bs = le_bytes 8 (uint w)"
proof
  assume l: "length bs = 8" and w: "word_of_int (le_value bs) = w"
  have "le_value bs mod 256 ^ 8 = le_value bs"
    using le_value_le_bytes [of 8 "le_value bs"] le_bytes_le_value [OF l] by simp
  then have "uint w = le_value bs" unfolding w [symmetric] by (simp add: uint_word_of_int take_bit_eq_mod)
  then show "bs = le_bytes 8 (uint w)" using le_bytes_le_value [OF l] by simp
next
  assume "bs = le_bytes 8 (uint w)"
  then show "word_of_int (le_value bs) = w" by (simp add: le_unsigned)
qed

definition words_ref :: "(nat \<Rightarrow> u64) \<Rightarrow> nat \<Rightarrow> u8 list" where
  "words_ref f n = concat (map (\<lambda>j. le_bytes 8 (uint (f j))) [0..<n])"

lemma length_words_ref [simp]: "length (words_ref f n) = 8 * n"
  by (induction n) (simp_all add: words_ref_def)

lemma words_ref_Suc: "words_ref f (Suc n) = words_ref f n @ le_bytes 8 (uint (f n))"
  by (simp add: words_ref_def)

lemma fill_words_append: "fill_words f (xs @ ys) buf = Option.bind (fill_words f xs buf) (fill_words f ys)"
proof (induction xs arbitrary: buf)
  case (Cons x xs)
  then have "fill_words f (xs @ ys) = (\<lambda>b. Option.bind (fill_words f xs b) (fill_words f ys))" by (rule ext)
  then show ?case by simp
qed simp

lemma fill_words_spec:
  "8 * n \<le> length buf \<Longrightarrow> fill_words f [0..<n] buf = Some (words_ref f n @ drop (8 * n) buf)"
proof (induction n)
  case 0
  then show ?case by (simp add: words_ref_def)
next
  case (Suc n)
  then have "fill_words f [0..<n] buf = Some (words_ref f n @ drop (8 * n) buf)" by simp
  moreover have "poke (8 * n) (le_bytes 8 (uint (f n))) (words_ref f n @ drop (8 * n) buf) =
      Some (words_ref f n @ le_bytes 8 (uint (f n)) @ drop (8 * n + 8) buf)"
    using Suc.prems by (simp add: poke_def add.commute)
  ultimately show ?case
    by (simp add: fill_words_append words_ref_Suc add.commute)
qed

lemma verify_words_spec:
  assumes "\<forall>i\<in>set is. 8 * i + 8 \<le> length buf"
  shows "\<exists>k\<ge>0. verify_words f is buf e = Some (e + k) \<and>
    (k = 0 \<longleftrightarrow> (\<forall>i\<in>set is. take 8 (drop (8 * i) buf) = le_bytes 8 (uint (f i))))"
  using assms
proof (induction "is" arbitrary: e)
  case Nil
  then show ?case by simp
next
  case (Cons i "is")
  have p: "peek (8 * i) 8 buf = Some (take 8 (drop (8 * i) buf))" "length (take 8 (drop (8 * i) buf)) = 8"
    using Cons.prems by (auto simp: peek_def)
  let ?d = "if take 8 (drop (8 * i) buf) \<noteq> le_bytes 8 (uint (f i)) then 1 else (0 :: int)"
  obtain k where k: "0 \<le> k" "verify_words f is buf (e + ?d) = Some (e + ?d + k)"
    "k = 0 \<longleftrightarrow> (\<forall>i\<in>set is. take 8 (drop (8 * i) buf) = le_bytes 8 (uint (f i)))"
    using Cons.IH [of "e + ?d"] Cons.prems by auto
  have "verify_words f (i # is) buf e = verify_words f is buf (e + ?d)"
    using p le_value_word [OF p(2), of "f i"] by simp
  then show ?case using k by (intro exI [of _ "?d + k"]) auto
qed

lemma words_match:
  assumes "8 * n \<le> length buf"
  shows "(\<forall>i<n. take 8 (drop (8 * i) buf) = le_bytes 8 (uint (f i))) \<longleftrightarrow> take (8 * n) buf = words_ref f n"
  using assms
proof (induction n)
  case 0
  then show ?case by (simp add: words_ref_def)
next
  case (Suc n)
  have "take (8 * Suc n) buf = take (8 * n) buf @ take 8 (drop (8 * n) buf)"
    using take_add [of "8 * n" 8 buf] by (simp add: add.commute)
  then have "take (8 * Suc n) buf = words_ref f (Suc n) \<longleftrightarrow>
      take (8 * n) buf = words_ref f n \<and> take 8 (drop (8 * n) buf) = le_bytes 8 (uint (f n))"
    using Suc.prems by (simp add: words_ref_Suc)
  then show ?case using Suc by (auto simp: less_Suc_eq)
qed

lemma verify_bytes_spec:
  assumes "\<forall>i\<in>set is. i < length buf"
  shows "\<exists>k\<ge>0. verify_bytes c is buf e = Some (e + k) \<and> (k = 0 \<longleftrightarrow> (\<forall>i\<in>set is. buf ! i = c))"
  using assms
proof (induction "is" arbitrary: e)
  case Nil
  then show ?case by simp
next
  case (Cons i "is")
  let ?d = "if buf ! i \<noteq> c then 1 else (0 :: int)"
  obtain k where "0 \<le> k" "verify_bytes c is buf (e + ?d) = Some (e + ?d + k)" "k = 0 \<longleftrightarrow> (\<forall>i\<in>set is. buf ! i = c)"
    using Cons.IH [of "e + ?d"] Cons.prems by auto
  then show ?case using Cons.prems by (intro exI [of _ "?d + k"]) auto
qed

subsection \<open>What is filled in is what is verified\<close>

text \<open>
  The contract between the side that fills a buffer and the side that verifies it, for a
  configuration \<open>c\<close>: both are about the same reference bytes, at the start of the buffer.
\<close>

locale pattern_codec =
  fixes ok :: "'c \<Rightarrow> bool"
    and fill :: "'c \<Rightarrow> u8 list \<Rightarrow> u8 list option"
    and verify :: "'c \<Rightarrow> u8 list \<Rightarrow> int option"
    and ref :: "'c \<Rightarrow> u8 list"
  assumes fill_ref: "ok c \<Longrightarrow> length (ref c) \<le> length buf \<Longrightarrow>
      fill c buf = Some (ref c @ drop (length (ref c)) buf)"
    and verify_ref: "ok c \<Longrightarrow> length (ref c) \<le> length buf \<Longrightarrow>
      \<exists>k\<ge>0. verify c buf = Some k \<and> (k = 0 \<longleftrightarrow> take (length (ref c)) buf = ref c)"
begin

lemma verify_exact:
  assumes "ok c" and "length (ref c) \<le> length buf" and "length (ref c) \<le> length other"
  shows "\<exists>b. fill c buf = Some b \<and> verify c b = Some 0 \<and>
    (take (length (ref c)) other \<noteq> take (length (ref c)) b \<longrightarrow> (\<exists>k>0. verify c other = Some k))"
proof -
  let ?b = "ref c @ drop (length (ref c)) buf"
  have "verify c ?b = Some 0" using verify_ref [OF assms(1), of ?b] by auto
  moreover have "take (length (ref c)) other \<noteq> ref c \<longrightarrow> (\<exists>k>0. verify c other = Some k)"
    using verify_ref [OF assms(1,3)] by (metis order_le_less)
  ultimately show ?thesis using fill_ref [OF assms(1,2)] by auto
qed

end

text \<open>A configuration: the target, its data pattern and the task, with the parameter for the random numbers.\<close>

type_synonym pattern_config = "(int \<Rightarrow> nat \<Rightarrow> u32) \<times> xint_target_data \<times> xint_data_pattern \<times> xint_task"

definition init_fill :: "pattern_config \<Rightarrow> u8 list \<Rightarrow> u8 list option" where
  "init_fill = (\<lambda>(rnd, t, d, k) buf. map_option snd (xdd_datapattern_buffer_init rnd t d buf))"

definition task_fill :: "pattern_config \<Rightarrow> u8 list \<Rightarrow> u8 list option" where
  "task_fill = (\<lambda>(rnd, t, d, k). xdd_datapattern_fill t d k)"

definition config_verify :: "pattern_config \<Rightarrow> u8 list \<Rightarrow> int option" where
  "config_verify = (\<lambda>(rnd, t, d, k). xdd_verify_contents d k)"

text \<open>The transfer size of the task is that of the target, and below \<open>2 ^ 31\<close>.\<close>

definition full_size :: "xint_target_data \<Rightarrow> xint_task \<Rightarrow> bool" where
  "full_size t k \<longleftrightarrow> 0 \<le> td_xfer_size t \<and> td_xfer_size t < 2 ^ 31 \<and> uint (task_xfer_size k) = td_xfer_size t"

definition only :: "u64 \<Rightarrow> u64 \<Rightarrow> bool" where
  "only m opts \<longleftrightarrow> opts AND 0x8FDF = m"

definition hex_ok :: "pattern_config \<Rightarrow> bool" where
  "hex_ok = (\<lambda>(rnd, t, d, k). full_size t k \<and> only (DP_HEX_PATTERN OR DP_REPLICATE_PATTERN) (data_pattern_options d) \<and>
     0 < data_pattern_length d \<and> data_pattern_length d \<le> length (data_pattern d))"

definition char_ok :: "pattern_config \<Rightarrow> bool" where
  "char_ok = (\<lambda>(rnd, t, d, k). full_size t k \<and> only DP_SINGLECHAR_PATTERN (data_pattern_options d) \<and> data_pattern d \<noteq> [])"

definition sequence_ok :: "pattern_config \<Rightarrow> bool" where
  "sequence_ok = (\<lambda>(rnd, t, d, k). full_size t k \<and> td_xfer_size t mod 8 = 0 \<and>
     flag_on (data_pattern_options d) DP_SEQUENCED_PATTERN \<and>
     (flag_on (data_pattern_options d) DP_PATTERN_PREFIX \<or> data_pattern_prefix_binary d = 0))"

definition hex_ref :: "pattern_config \<Rightarrow> u8 list" where
  "hex_ref = (\<lambda>(rnd, t, d, k). cyclic (data_pattern d) (data_pattern_length d) (nat (td_xfer_size t)))"

definition char_ref :: "pattern_config \<Rightarrow> u8 list" where
  "char_ref = (\<lambda>(rnd, t, d, k). replicate (nat (td_xfer_size t)) (hd (data_pattern d)))"

definition sequence_ref :: "pattern_config \<Rightarrow> u8 list" where
  "sequence_ref = (\<lambda>(rnd, t, d, k).
     words_ref (\<lambda>j. sequence_word True d (task_byte_offset k) (8 * j)) (nat (td_xfer_size t) div 8))"

lemma only_flag: "only m opts \<Longrightarrow> b AND 0x8FDF = b \<Longrightarrow> flag_on opts b \<longleftrightarrow> m AND b \<noteq> 0"
proof -
  assume m: "only m opts" and b: "b AND 0x8FDF = b"
  have "opts AND b = opts AND (b AND 0x8FDF)" using b by simp
  also have "\<dots> = (opts AND 0x8FDF) AND b" by (simp add: ac_simps)
  finally show ?thesis using m by (simp add: flag_on_def only_def)
qed

lemma full_size_nat:
  assumes "full_size t k"
  shows "unat (task_xfer_size k) = nat (td_xfer_size t)" and "as_int32 (task_xfer_size k) = int (nat (td_xfer_size t))"
proof -
  have u: "uint (task_xfer_size k) = td_xfer_size t" "td_xfer_size t < 2 ^ 31" "0 \<le> td_xfer_size t"
    using assms by (auto simp: full_size_def)
  show "unat (task_xfer_size k) = nat (td_xfer_size t)" using u(1) by (simp add: unat_eq_nat_uint)
  have "uint (ucast (task_xfer_size k) :: 32 word) = td_xfer_size t"
    using u by (simp add: unsigned_ucast_eq take_bit_int_eq_self)
  moreover have "signed_take_bit 31 (td_xfer_size t) = td_xfer_size t"
    using u by (intro signed_take_bit_int_eq_self) auto
  ultimately show "as_int32 (task_xfer_size k) = int (nat (td_xfer_size t))"
    using u(3) by (simp add: as_int32_def sint_uint)
qed

interpretation hex: pattern_codec hex_ok init_fill config_verify hex_ref
proof (unfold_locales, goal_cases)
  case (1 c buf)
  obtain rnd t d k where c: "c = (rnd, t, d, k)" by (cases c)
  let ?n = "nat (td_xfer_size t)"
  have o: "only (DP_HEX_PATTERN OR DP_REPLICATE_PATTERN) (data_pattern_options d)"
    and l: "0 < data_pattern_length d" "data_pattern_length d \<le> length (data_pattern d)" "?n \<le> length buf"
    using 1 c by (auto simp: hex_ok_def hex_ref_def)
  have "clear_buffer ?n 0 buf = Some (replicate ?n 0 @ drop ?n buf)" using l by (simp add: clear_buffer_def poke_def)
  moreover have "copy_pattern (data_pattern d) (data_pattern_length d) ?n 0 (replicate ?n 0 @ drop ?n buf) =
      Some (hex_ref c @ drop ?n buf)"
    using copy_pattern_spec [OF l(1,2), of 0 ?n "replicate ?n 0 @ drop ?n buf"] l(3) c by (simp add: hex_ref_def)
  ultimately show ?case
    using c by (simp add: init_fill_def xdd_datapattern_buffer_init_def Let_def only_flag [OF o] hex_ref_def)
next
  case (2 c buf)
  obtain rnd t d k where c: "c = (rnd, t, d, k)" by (cases c)
  let ?n = "nat (td_xfer_size t)" and ?pat = "take (data_pattern_length d) (data_pattern d)"
  have o: "only (DP_HEX_PATTERN OR DP_REPLICATE_PATTERN) (data_pattern_options d)" and f: "full_size t k"
    and l: "0 < data_pattern_length d" "data_pattern_length d \<le> length (data_pattern d)" "?n \<le> length buf"
    using 2 c by (auto simp: hex_ok_def hex_ref_def)
  have p: "?pat \<noteq> []" "length ?pat = data_pattern_length d" using l by auto
  have r: "cyclic ?pat (length ?pat) ?n = hex_ref c" using p(2) l c by (simp add: hex_ref_def cyclic_def)
  have "xdd_verify_hex d k buf = Some (mismatches (hex_ref c) buf)"
    using verify_hex_loop_spec [OF p(1), of 0 ?n buf 0] l r full_size_nat(2) [OF f]
    by (simp add: xdd_verify_hex_def peek_def only_flag [OF o])
  moreover have "mismatches (hex_ref c) buf = 0 \<longleftrightarrow> take (length (hex_ref c)) buf = hex_ref c"
    by (rule mismatches_zero) (rule 2(2))
  moreover have "0 \<le> mismatches (hex_ref c) buf" by (simp add: mismatches_def)
  ultimately show ?case
    using c by (simp add: config_verify_def xdd_verify_contents_def only_flag [OF o])
qed

interpretation singlechar: pattern_codec char_ok init_fill config_verify char_ref
proof (unfold_locales, goal_cases)
  case (1 c buf)
  obtain rnd t d k where c: "c = (rnd, t, d, k)" by (cases c)
  have o: "only DP_SINGLECHAR_PATTERN (data_pattern_options d)" and l: "data_pattern d \<noteq> []" "nat (td_xfer_size t) \<le> length buf"
    using 1 c by (auto simp: char_ok_def char_ref_def)
  obtain x xs where x: "data_pattern d = x # xs" using l(1) by (cases "data_pattern d") auto
  then show ?case
    using c l(2)
    by (simp add: init_fill_def xdd_datapattern_buffer_init_def Let_def only_flag [OF o] char_ref_def clear_buffer_def poke_def)
next
  case (2 c buf)
  obtain rnd t d k where c: "c = (rnd, t, d, k)" by (cases c)
  let ?n = "nat (td_xfer_size t)"
  have o: "only DP_SINGLECHAR_PATTERN (data_pattern_options d)" and f: "full_size t k"
    and l: "data_pattern d \<noteq> []" "?n \<le> length buf"
    using 2 c by (auto simp: char_ok_def char_ref_def)
  obtain x xs where x: "data_pattern d = x # xs" using l(1) by (cases "data_pattern d") auto
  obtain e where e: "0 \<le> e" "verify_bytes x [0..<?n] buf 0 = Some (0 + e)" "e = 0 \<longleftrightarrow> (\<forall>i\<in>set [0..<?n]. buf ! i = x)"
    using verify_bytes_spec [of "[0..<?n]" buf x 0] l(2) by auto
  have "take ?n buf = replicate ?n x \<longleftrightarrow> (\<forall>i<?n. buf ! i = x)"
    using l(2) by (auto simp: list_eq_iff_nth_eq)
  then show ?case
    using c x e full_size_nat(1) [OF f]
    by (simp add: config_verify_def xdd_verify_contents_def xdd_verify_singlechar_def only_flag [OF o] char_ref_def Ball_def)
qed

interpretation sequenced: pattern_codec sequence_ok task_fill config_verify sequence_ref
proof (unfold_locales, goal_cases)
  case (1 c buf)
  obtain rnd t d k where c: "c = (rnd, t, d, k)" by (cases c)
  have l: "flag_on (data_pattern_options d) DP_SEQUENCED_PATTERN" "8 * (nat (td_xfer_size t) div 8) \<le> length buf"
    using 1 c by (auto simp: sequence_ok_def sequence_ref_def)
  then show ?case
    using c fill_words_spec [OF l(2), of "\<lambda>j. sequence_word True d (task_byte_offset k) (8 * j)"]
    by (simp add: task_fill_def xdd_datapattern_fill_def sequence_ref_def)
next
  case (2 c buf)
  obtain rnd t d k where c: "c = (rnd, t, d, k)" by (cases c)
  let ?n = "nat (td_xfer_size t) div 8" and ?f = "\<lambda>j. sequence_word True d (task_byte_offset k) (8 * j)"
  have f: "full_size t k" and m: "td_xfer_size t mod 8 = 0"
    and l: "flag_on (data_pattern_options d) DP_SEQUENCED_PATTERN"
      "flag_on (data_pattern_options d) DP_PATTERN_PREFIX \<or> data_pattern_prefix_binary d = 0"
      "8 * ?n \<le> length buf"
    using 2 c by (auto simp: sequence_ok_def sequence_ref_def)
  have w: "sequence_word (flag_on (data_pattern_options d) DP_PATTERN_PREFIX) d (task_byte_offset k) i =
      sequence_word True d (task_byte_offset k) i" for i
    using l(2) by (auto simp: sequence_word_def Let_def)
  have "0 \<le> td_xfer_size t" using f by (simp add: full_size_def)
  then have "int (nat (td_xfer_size t) mod 8) = 0" using m by (simp add: zmod_int)
  then have "nat (td_xfer_size t) mod 8 = 0" by (simp only: of_nat_eq_0_iff)
  then obtain j where "nat (td_xfer_size t) = 8 * j" by (auto simp: mod_eq_0_iff_dvd)
  then have n: "(nat (td_xfer_size t) + 7) div 8 = ?n" by simp
  obtain e where e: "0 \<le> e" "verify_words ?f [0..<?n] buf 0 = Some (0 + e)"
    "e = 0 \<longleftrightarrow> (\<forall>i\<in>set [0..<?n]. take 8 (drop (8 * i) buf) = le_bytes 8 (uint (?f i)))"
    using verify_words_spec [of "[0..<?n]" buf ?f 0] l(3) by fastforce
  have "e = 0 \<longleftrightarrow> take (8 * ?n) buf = words_ref ?f ?n"
    using e(3) words_match [OF l(3), of ?f] by (auto simp: atLeast0LessThan)
  then show ?case
    using c e(1,2) n w l(1) full_size_nat(1) [OF f]
    by (simp add: config_verify_def xdd_verify_contents_def xdd_verify_sequence_def sequence_ref_def)
qed

subsection \<open>Properties\<close>

text \<open>C14: Verification is exact for the replicated hexadecimal pattern, the single character pattern and the
  sequenced pattern: a buffer as the writing side fills it in verifies without errors, and any
  buffer that differs in the transferred bytes verifies with errors.\<close>

theorem verify_exact_for_pattern:
  assumes "hex_ok c \<and> f = init_fill c \<and> n = length (hex_ref c) \<or>
      char_ok c \<and> f = init_fill c \<and> n = length (char_ref c) \<or>
      sequence_ok c \<and> f = task_fill c \<and> n = length (sequence_ref c)"
    and "n \<le> length buf" and "n \<le> length other"
  shows "\<exists>b. f buf = Some b \<and> config_verify c b = Some 0 \<and>
    (take n other \<noteq> take n b \<longrightarrow> (\<exists>k>0. config_verify c other = Some k))"
  using assms hex.verify_exact [of c buf other] singlechar.verify_exact [of c buf other]
    sequenced.verify_exact [of c buf other] by blast

definition sample_hex :: pattern_config where
  "sample_hex = (\<lambda>_ _. 0, (sample_td 1 0 0)\<lparr>td_xfer_size := 5\<rparr>,
     \<lparr>data_pattern_options = DP_HEX_PATTERN OR DP_REPLICATE_PATTERN, data_pattern = [1, 2], data_pattern_length = 2,
      data_pattern_prefix_binary = 0\<rparr>, zero_task\<lparr>task_xfer_size := 5\<rparr>)"

lemma sample_hex_ok: "hex_ok sample_hex" "length (hex_ref sample_hex) = 5"
  by (simp_all add: hex_ok_def hex_ref_def sample_hex_def full_size_def sample_td_def zero_task_def only_def)

theorem verify_exact_for_pattern_witness:
  "\<exists>b. init_fill sample_hex (replicate 8 9) = Some b \<and> config_verify sample_hex b = Some 0 \<and>
     (take 5 [1, 2, 1, 2, 2] \<noteq> take 5 b \<longrightarrow> (\<exists>k>0. config_verify sample_hex [1, 2, 1, 2, 2] = Some k))"
  using verify_exact_for_pattern [of sample_hex "init_fill sample_hex" 5 "replicate 8 9" "[1, 2, 1, 2, 2]"] sample_hex_ok
  by simp

text \<open>C17: The nested loops that verify a hexadecimal pattern compute the number of bytes that differ from the
  pattern repeated over the transfer.\<close>

theorem verify_hex_counts:
  assumes "hex_ok (rnd, t, d, k)" and "nat (td_xfer_size t) \<le> length buf"
  shows "xdd_verify_hex d k buf =
    Some (int (card {i. i < nat (td_xfer_size t) \<and> buf ! i \<noteq> data_pattern d ! (i mod data_pattern_length d)}))"
proof -
  let ?n = "nat (td_xfer_size t)" and ?l = "data_pattern_length d"
  have o: "only (DP_HEX_PATTERN OR DP_REPLICATE_PATTERN) (data_pattern_options d)" and f: "full_size t k"
    and l: "0 < ?l" "?l \<le> length (data_pattern d)"
    using assms by (auto simp: hex_ok_def)
  have p: "take ?l (data_pattern d) \<noteq> []" using l by auto
  have "xdd_verify_hex d k buf = Some (mismatches (cyclic (take ?l (data_pattern d)) ?l ?n) buf)"
    using verify_hex_loop_spec [OF p, of 0 ?n buf 0] assms(2) l(2) full_size_nat(2) [OF f]
    by (simp add: xdd_verify_hex_def peek_def only_flag [OF o] min_def)
  moreover have "cyclic (take ?l (data_pattern d)) ?l ?n = map (\<lambda>i. data_pattern d ! (i mod ?l)) [0..<?n]"
    using l by (simp add: cyclic_def)
  moreover have "mismatches (map g [0..<?n]) buf = int (card {i. i < ?n \<and> buf ! i \<noteq> g i})" for g
  proof -
    have "zip (map g [0..<?n]) buf = map (\<lambda>i. (g i, buf ! i)) [0..<?n]"
      using assms(2) by (simp add: list_eq_iff_nth_eq)
    then have "mismatches (map g [0..<?n]) buf = int (length (filter (\<lambda>i. g i \<noteq> buf ! i) [0..<?n]))"
      by (simp add: mismatches_def filter_map o_def)
    also have "length (filter (\<lambda>i. g i \<noteq> buf ! i) [0..<?n]) = card (set (filter (\<lambda>i. g i \<noteq> buf ! i) [0..<?n]))"
      by (simp only: distinct_card [OF distinct_filter [OF distinct_upt]])
    also have "set (filter (\<lambda>i. g i \<noteq> buf ! i) [0..<?n]) = {i. i < ?n \<and> buf ! i \<noteq> g i}" by auto
    finally show ?thesis .
  qed
  ultimately show ?thesis by simp
qed

theorem verify_hex_counts_witness:
  "xdd_verify_hex (fst (snd (snd sample_hex))) (snd (snd (snd sample_hex))) [1, 2, 1, 2, 2, 7] =
     Some (int (card {i. i < 5 \<and> [1, 2, 1, 2, 2, 7] ! i \<noteq> ([1, 2] :: u8 list) ! (i mod 2)}))"
  using verify_hex_counts [of "fst sample_hex" "fst (snd sample_hex)" "fst (snd (snd sample_hex))"
      "snd (snd (snd sample_hex))" "[1, 2, 1, 2, 2, 7]"] sample_hex_ok(1)
  by (simp add: sample_hex_def)

text \<open>C18: The loop that copies a pattern into a buffer it fits in ends exactly when the pattern is not empty or
  there is nothing to fill; with a pattern of length 0 (which the code does not exclude) it runs for ever.\<close>

theorem copy_pattern_ends_iff:
  assumes "len \<le> length pat" and "ucp + n \<le> length buf"
  shows "(\<exists>b. copy_pattern pat len n ucp buf = Some b) \<longleftrightarrow> 0 < len \<or> n = 0"
proof (cases "0 < len")
  case True
  then show ?thesis using copy_pattern_spec [OF True assms] by simp
next
  case False
  then show ?thesis using copy_pattern_empty [of pat n ucp buf] by (auto simp: copy_pattern.simps [of pat 0 0])
qed

theorem copy_pattern_ends_iff_witness:
  "(\<exists>b. copy_pattern [1, 2] 2 5 0 (replicate 5 0) = Some b) \<longleftrightarrow> 0 < (2 :: nat) \<or> (5 :: nat) = 0"
  by (rule copy_pattern_ends_iff) simp_all

end
