(* ===== verification/Barrier_Chain.thy ===== *)
theory Barrier_Chain
  imports Xdd_Prelude
begin

unbundle bit_operations_syntax

text \<open>
  Barriers: \<^verbatim>\<open>src/common/barrier.c\<close> and the barrier of \<^verbatim>\<open>src/common/xint_barrier.h\<close> that is used
  where the system has none.  Barriers are kept on a doubly linked chain of the plan, and the
  occupants of a barrier on a chain of the barrier.  Objects are numbered; a store maps
  the number to the object.  The results of the pthread calls are parameters.
\<close>

abbreviation (input) XDD_BARRIER_FLAG_INITIALIZED :: u32 where "XDD_BARRIER_FLAG_INITIALIZED \<equiv> 1"
abbreviation (input) XDD_OCCUPANT_TYPE_TARGET :: u32 where "XDD_OCCUPANT_TYPE_TARGET \<equiv> 1"
abbreviation (input) XDD_OCCUPANT_TYPE_WORKER_THREAD :: u32 where "XDD_OCCUPANT_TYPE_WORKER_THREAD \<equiv> 2"
abbreviation (input) TARGET_CURRENT_STATE_BARRIER :: u32 where "TARGET_CURRENT_STATE_BARRIER \<equiv> 4"
abbreviation (input) WORKER_CURRENT_STATE_BARRIER :: u32 where "WORKER_CURRENT_STATE_BARRIER \<equiv> 0x10"

text \<open>\<open>occupant_state\<close> and \<open>occupant_barrier\<close> are the current state and the current barrier of the data that
  \<^verbatim>\<open>occupant_data\<close> points to.\<close>

record xdd_occupant =
  prev_occupant :: "nat ptr"
  next_occupant :: "nat ptr"
  occupant_type :: u32
  occupant_name :: string
  occupant_state :: u32
  occupant_barrier :: "nat ptr"

record xdd_barrier_t =
  prev_barrier :: "nat ptr"
  next_barrier :: "nat ptr"
  first_occupant :: "nat ptr"
  last_occupant :: "nat ptr"
  bflags :: u32
  bname :: string
  counter :: int
  threads :: int

record barriers =
  barrier_chain_first :: "nat ptr"
  barrier_chain_last :: "nat ptr"
  barrier_count :: int
  bar :: "nat \<Rightarrow> xdd_barrier_t"
  occ :: "nat \<Rightarrow> xdd_occupant"

definition on_bar :: "nat \<Rightarrow> (xdd_barrier_t \<Rightarrow> xdd_barrier_t) \<Rightarrow> barriers \<Rightarrow> barriers" where
  "on_bar b f s = s\<lparr>bar := (bar s)(b := f (bar s b))\<rparr>"

definition on_occ :: "nat \<Rightarrow> (xdd_occupant \<Rightarrow> xdd_occupant) \<Rightarrow> barriers \<Rightarrow> barriers" where
  "on_occ oc f s = s\<lparr>occ := (occ s)(oc := f (occ s oc))\<rparr>"

subsection \<open>The chain of barriers\<close>

definition xdd_init_barrier_chain :: "int \<Rightarrow> barriers \<Rightarrow> int \<times> barriers" where
  "xdd_init_barrier_chain mutex_status s =
     (if mutex_status \<noteq> 0 then (-1, s)
      else (0, s\<lparr>barrier_chain_first := None, barrier_chain_last := None, barrier_count := 0\<rparr>))"

definition xdd_init_barrier_occupant :: "nat \<Rightarrow> string \<Rightarrow> u32 \<Rightarrow> barriers \<Rightarrow> barriers" where
  "xdd_init_barrier_occupant oc name ty = on_occ oc (\<lambda>x. x\<lparr>prev_occupant := None, next_occupant := None,
     occupant_name := name, occupant_type := ty\<rparr>)"

text \<open>Adding an initialised barrier to the end of the chain.\<close>

definition link_barrier :: "nat \<Rightarrow> barriers \<Rightarrow> barriers" where
  "link_barrier b s =
     (let s1 = (if barrier_count s = 0
                then on_bar b (\<lambda>x. x\<lparr>prev_barrier := Some b, next_barrier := Some b\<rparr>)
                       (s\<lparr>barrier_chain_first := Some b, barrier_chain_last := Some b\<rparr>)
                else let s0 = on_bar b (\<lambda>x. x\<lparr>next_barrier := barrier_chain_first s,
                                          prev_barrier := barrier_chain_last s\<rparr>) s
                     in (case barrier_chain_last s0 of
                           None \<Rightarrow> s0
                         | Some l \<Rightarrow> on_bar l (\<lambda>x. x\<lparr>next_barrier := Some b\<rparr>) s0)\<lparr>barrier_chain_last := Some b\<rparr>)
      in s1\<lparr>barrier_count := barrier_count s1 + 1\<rparr>)"

definition xdd_init_barrier :: "int \<Rightarrow> int \<Rightarrow> nat \<Rightarrow> int \<Rightarrow> string \<Rightarrow> barriers \<Rightarrow> int \<times> barriers" where
  "xdd_init_barrier mutex_status barrier_status b n name s =
     (let s1 = on_bar b (\<lambda>x. x\<lparr>bflags := 0, threads := n, counter := 0, bname := take 63 name,
                 first_occupant := None, last_occupant := None\<rparr>) s
      in if mutex_status \<noteq> 0 \<or> barrier_status \<noteq> 0
         then (-1, on_bar b (\<lambda>x. x\<lparr>bflags := clear_flag (bflags x) XDD_BARRIER_FLAG_INITIALIZED\<rparr>) s1)
         else (0, link_barrier b (on_bar b (\<lambda>x. x\<lparr>bflags := set_flag (bflags x) XDD_BARRIER_FLAG_INITIALIZED\<rparr>) s1)))"

text \<open>Taking a barrier off the chain; the two neighbours are relinked one after the other.\<close>

definition relink_prev :: "nat \<Rightarrow> barriers \<Rightarrow> barriers" where
  "relink_prev b s = (case prev_barrier (bar s b) of
     None \<Rightarrow> s | Some p \<Rightarrow> on_bar p (\<lambda>x. x\<lparr>next_barrier := next_barrier (bar s b)\<rparr>) s)"

definition relink_next :: "nat \<Rightarrow> barriers \<Rightarrow> barriers" where
  "relink_next b s = (case next_barrier (bar s b) of
     None \<Rightarrow> s | Some q \<Rightarrow> on_bar q (\<lambda>x. x\<lparr>prev_barrier := prev_barrier (bar s b)\<rparr>) s)"

definition unlink_barrier :: "nat \<Rightarrow> barriers \<Rightarrow> barriers" where
  "unlink_barrier b s =
     (let s1 = (if barrier_count s = 1 then s\<lparr>barrier_chain_first := None, barrier_chain_last := None\<rparr>
                else let s0 = (if barrier_chain_first s = Some b
                               then s\<lparr>barrier_chain_first := next_barrier (bar s b)\<rparr> else s);
                         s0' = (if barrier_chain_last s0 = Some b
                                then s0\<lparr>barrier_chain_last := prev_barrier (bar s0 b)\<rparr> else s0)
                     in relink_next b (relink_prev b s0'));
          s2 = on_bar b (\<lambda>x. x\<lparr>prev_barrier := None, next_barrier := None\<rparr>) s1
      in s2\<lparr>barrier_count := barrier_count s2 - 1\<rparr>)"

definition xdd_destroy_barrier :: "nat \<Rightarrow> barriers \<Rightarrow> barriers" where
  "xdd_destroy_barrier b s =
     (let s1 = on_bar b (\<lambda>x. x\<lparr>bflags := bflags x AND XDD_BARRIER_FLAG_INITIALIZED\<rparr>) s in
      if bflags (bar s1 b) = 0 then s1
      else let s2 = on_bar b (\<lambda>x. x\<lparr>bflags := clear_flag (bflags x) XDD_BARRIER_FLAG_INITIALIZED\<rparr>) s1 in
           if counter (bar s2 b) = -1 then s2
           else unlink_barrier b (on_bar b (\<lambda>x. x\<lparr>counter := -1, bname := ''DESTROYED''\<rparr>) s2))"

partial_function (option) xdd_destroy_all_barriers :: "barriers \<Rightarrow> barriers option" where
  "xdd_destroy_all_barriers s =
     (case barrier_chain_first s of
        None \<Rightarrow> Some s
      | Some b \<Rightarrow> xdd_destroy_all_barriers (xdd_destroy_barrier b s))"

subsection \<open>Entering and leaving a barrier\<close>

definition mark_occupant :: "nat \<Rightarrow> xdd_occupant \<Rightarrow> xdd_occupant" where
  "mark_occupant b x =
     (if flag_on (occupant_type x) XDD_OCCUPANT_TYPE_TARGET
      then x\<lparr>occupant_state := set_flag (occupant_state x) TARGET_CURRENT_STATE_BARRIER, occupant_barrier := Some b\<rparr>
      else if flag_on (occupant_type x) XDD_OCCUPANT_TYPE_WORKER_THREAD
      then x\<lparr>occupant_state := set_flag (occupant_state x) WORKER_CURRENT_STATE_BARRIER, occupant_barrier := Some b\<rparr>
      else x)"

definition unmark_occupant :: "xdd_occupant \<Rightarrow> xdd_occupant" where
  "unmark_occupant x =
     (if flag_on (occupant_type x) XDD_OCCUPANT_TYPE_TARGET
      then x\<lparr>occupant_barrier := None, occupant_state := clear_flag (occupant_state x) TARGET_CURRENT_STATE_BARRIER\<rparr>
      else if flag_on (occupant_type x) XDD_OCCUPANT_TYPE_WORKER_THREAD
      then x\<lparr>occupant_barrier := None, occupant_state := clear_flag (occupant_state x) WORKER_CURRENT_STATE_BARRIER\<rparr>
      else x)"

text \<open>\<open>xdd_barrier\<close> up to the wait and after it; a barrier for one thread does neither.\<close>

definition barrier_enter :: "nat \<Rightarrow> nat \<Rightarrow> barriers \<Rightarrow> barriers" where
  "barrier_enter b oc s =
     (if threads (bar s b) = 1 then s
      else let s1 = (if counter (bar s b) = 0
                     then on_occ oc (\<lambda>x. x\<lparr>prev_occupant := Some oc, next_occupant := Some oc\<rparr>)
                            (on_bar b (\<lambda>x. x\<lparr>first_occupant := Some oc, last_occupant := Some oc\<rparr>) s)
                     else let s0 = on_occ oc (\<lambda>x. x\<lparr>next_occupant := first_occupant (bar s b),
                                               prev_occupant := last_occupant (bar s b)\<rparr>) s
                          in on_bar b (\<lambda>x. x\<lparr>last_occupant := Some oc\<rparr>)
                               (case last_occupant (bar s0 b) of
                                  None \<Rightarrow> s0
                                | Some l \<Rightarrow> on_occ l (\<lambda>x. x\<lparr>next_occupant := Some oc\<rparr>) s0))
           in on_bar b (\<lambda>x. x\<lparr>counter := counter x + 1\<rparr>) (on_occ oc (mark_occupant b) s1))"

definition barrier_leave :: "bool \<Rightarrow> nat \<Rightarrow> nat \<Rightarrow> barriers \<Rightarrow> barriers" where
  "barrier_leave owner b oc s =
     (if threads (bar s b) = 1 then s
      else let s1 = on_occ oc unmark_occupant s
           in if owner then on_bar b (\<lambda>x. x\<lparr>first_occupant := None, last_occupant := None, counter := 0\<rparr>) s1 else s1)"

subsection \<open>The barrier of \<^verbatim>\<open>xint_barrier.h\<close>\<close>

text \<open>
  \<open>xb_blocked\<close> are the threads in the condition wait.  \<open>xint_barrier_wait\<close> gives the threads that return:
  none while the caller blocks, or the caller and all the blocked threads.  The assertion
  that fails is \<open>None\<close>.
\<close>

record xint_barrier =
  xb_count :: nat
  xb_waiters :: nat
  xb_blocked :: "nat list"

definition xint_barrier_init :: "nat \<Rightarrow> xint_barrier" where
  "xint_barrier_init n = \<lparr>xb_count = n, xb_waiters = 0, xb_blocked = []\<rparr>"

definition xint_barrier_wait :: "nat \<Rightarrow> xint_barrier \<Rightarrow> (nat list \<times> xint_barrier) option" where
  "xint_barrier_wait t x =
     (if \<not> xb_waiters x < xb_count x then None
      else if Suc (xb_waiters x) = xb_count x
      then Some (xb_blocked x @ [t], x\<lparr>xb_waiters := 0, xb_blocked := []\<rparr>)
      else Some ([], x\<lparr>xb_waiters := Suc (xb_waiters x), xb_blocked := xb_blocked x @ [t]\<rparr>))"

text \<open>A wake-up of the condition wait without a broadcast: the thread returns.\<close>

definition xint_barrier_wakeup :: "nat \<Rightarrow> xint_barrier \<Rightarrow> (nat list \<times> xint_barrier) option" where
  "xint_barrier_wakeup t x =
     (if t \<in> set (xb_blocked x) then Some ([t], x\<lparr>xb_blocked := removeAll t (xb_blocked x)\<rparr>) else None)"

subsection \<open>Doubly linked lists\<close>

fun linked :: "(nat \<Rightarrow> nat ptr) \<Rightarrow> (nat \<Rightarrow> nat ptr) \<Rightarrow> nat list \<Rightarrow> bool" where
  "linked nx pv (a # b # r) \<longleftrightarrow> nx a = Some b \<and> pv b = Some a \<and> linked nx pv (b # r)"
| "linked nx pv _ \<longleftrightarrow> True"

lemma linked_append:
  "linked nx pv (as @ a # b # cs) \<longleftrightarrow> linked nx pv (as @ [a]) \<and> nx a = Some b \<and> pv b = Some a \<and> linked nx pv (b # cs)"
proof (induction as)
  case (Cons x as)
  then show ?case by (cases as) auto
qed auto

lemma linked_cong:
  assumes "\<And>a. a \<in> set (butlast xs) \<Longrightarrow> nx' a = nx a" and "\<And>a. a \<in> set (tl xs) \<Longrightarrow> pv' a = pv a"
  shows "linked nx' pv' xs = linked nx pv xs"
  using assms by (induction nx pv xs rule: linked.induct) (auto split: if_splits)

lemma linked_suffix: "linked nx pv (as @ bs) \<Longrightarrow> linked nx pv bs"
proof (induction as)
  case (Cons x as)
  then show ?case by (cases "as @ bs") auto
qed simp

lemma linked_prefix: "linked nx pv (as @ bs) \<Longrightarrow> linked nx pv as"
proof (induction as rule: linked.induct [of _ nx pv])
qed auto

text \<open>
  \<open>open_ring n p bs\<close>: the list \<open>bs\<close> is linked both ways, the last element points forward to no later
  element and the first backward to none in the middle.
\<close>

definition open_ring :: "(nat \<Rightarrow> nat ptr) \<Rightarrow> (nat \<Rightarrow> nat ptr) \<Rightarrow> nat list \<Rightarrow> bool" where
  "open_ring n p bs \<longleftrightarrow> linked n p bs \<and> (bs \<noteq> [] \<longrightarrow>
     (\<exists>x. n (last bs) = Some x \<and> x \<notin> set (tl bs)) \<and> (\<exists>y. p (hd bs) = Some y \<and> y \<notin> set (butlast (tl bs))))"

text \<open>The links after \<open>b\<close> between \<open>q\<close> and \<open>r\<close> was taken out.\<close>

definition cut_next :: "nat \<Rightarrow> nat \<Rightarrow> nat \<Rightarrow> (nat \<Rightarrow> nat ptr) \<Rightarrow> nat \<Rightarrow> nat ptr" where
  "cut_next b q r n c = (if c = b then None else if c = q then Some r else n c)"

lemma ring_snoc:
  assumes "open_ring n p bs" and "bs \<noteq> []" and "distinct bs" and "b \<notin> set bs" and "\<forall>y\<in>set (tl bs). p (hd bs) \<noteq> Some y"
    and n': "\<And>c. n' c = (if c = last bs then Some b else if c = b then Some (hd bs) else n c)"
    and p': "\<And>c. p' c = (if c = b then Some (last bs) else p c)"
  shows "open_ring n' p' (bs @ [b])"
proof -
  obtain as l where bs: "bs = as @ [l]" using assms(2) by (cases bs rule: rev_cases) auto
  have l: "l \<notin> set as" "l \<noteq> b" "b \<notin> set as" using assms(3,4) bs by auto
  have "linked n' p' bs = linked n p bs"
    by (rule linked_cong) (use l assms(4) bs list.set_sel(2) [OF assms(2)] in \<open>auto simp: n' p'\<close>)
  then have "linked n' p' (as @ l # b # [])"
    unfolding linked_append using assms(1) bs l by (simp add: open_ring_def n' p')
  then have "linked n' p' (bs @ [b])" using bs by simp
  moreover have "hd bs \<in> set bs" "hd bs \<notin> set (tl bs)" using assms(2,3) by (cases bs; simp)+
  moreover obtain y where "p (hd bs) = Some y" "y \<notin> set (tl bs)"
    using assms(1,2,5) by (fastforce simp: open_ring_def)
  moreover from this have "p' (hd bs) = Some y" using assms(4) hd_in_set [OF assms(2)] by (auto simp: p')
  moreover have "n' b = Some (hd bs)" using l(2) bs by (simp add: n')
  ultimately show ?thesis using assms(2,4) by (auto simp: open_ring_def butlast_append)
qed

lemma cut_first:
  assumes "open_ring n p (b # cs)" and "cs \<noteq> []" and "distinct (b # cs)"
    and "p b = Some y" and "n b = Some q"
  shows "open_ring (cut_next b y q n) (cut_next b q y p) cs"
proof -
  obtain c cs' where cs: "cs = c # cs'" using assms(2) by (cases cs) auto
  obtain x where x: "n (last cs) = Some x" "x \<notin> set cs" and y: "y \<notin> set (butlast cs)" and q: "q = c"
    and lk: "linked n p cs"
    using assms(1,2,4,5) cs by (auto simp: open_ring_def)
  have b: "b \<notin> set cs" "c \<notin> set cs'" using assms(3) cs by auto
  have "linked (cut_next b y q n) (cut_next b q y p) cs = linked n p cs"
  proof (rule linked_cong)
    show "cut_next b y q n a = n a" if "a \<in> set (butlast cs)" for a
      using in_set_butlastD [OF that] that b y by (auto simp: cut_next_def)
    show "cut_next b q y p a = p a" if "a \<in> set (tl cs)" for a using that b q cs by (auto simp: cut_next_def)
  qed
  moreover have "cut_next b q y p c = Some y" using q b cs by (simp add: cut_next_def)
  moreover have "y \<notin> set (butlast cs')" using y cs by (auto split: if_splits)
  moreover have "last cs \<noteq> b" using b(1) assms(2) last_in_set by metis
  then have "cut_next b y q n (last cs) = Some (if last cs = y then q else x)" using x by (simp add: cut_next_def)
  ultimately show ?thesis using lk x q b cs by (auto simp: open_ring_def)
qed

lemma cut_last:
  assumes "open_ring n p (as @ [b])" and "as \<noteq> []" and "distinct (as @ [b])"
    and "p b = Some q" and "n b = Some x"
  shows "open_ring (cut_next b q x n) (cut_next b x q p) as"
proof -
  obtain a' l where as: "as = a' @ [l]" using assms(2) by (cases as rule: rev_cases) auto
  have lk: "linked n p (a' @ l # b # [])" using assms(1) as by (simp add: open_ring_def)
  have q: "q = l" using lk assms(4) unfolding linked_append by simp
  have b: "b \<notin> set as" "l \<notin> set a'" using assms(3) as by auto
  have x: "x \<notin> set (tl as)" "x \<noteq> b" using assms(1,2,5) by (auto simp: open_ring_def)
  obtain y where y: "p (hd as) = Some y" "y \<notin> set (tl as)"
    using assms(1,2) by (auto simp: open_ring_def butlast_append)
  have "linked (cut_next b q x n) (cut_next b x q p) as = linked n p as"
  proof (rule linked_cong)
    show "cut_next b q x n a = n a" if "a \<in> set (butlast as)" for a using that b q as by (auto simp: cut_next_def)
    show "cut_next b x q p a = p a" if "a \<in> set (tl as)" for a
      using that b x list.set_sel(2) [OF assms(2) that] by (auto simp: cut_next_def)
  qed
  moreover have "linked n p as" using linked_prefix [of n p as "[b]"] assms(1) by (simp add: open_ring_def)
  moreover have "cut_next b q x n l = Some x" using q b as by (auto simp: cut_next_def)
  moreover have "hd as \<noteq> b" using b(1) assms(2) hd_in_set by metis
  then have "cut_next b x q p (hd as) = Some (if hd as = x then q else y)" using y by (simp add: cut_next_def)
  moreover have "q \<notin> set (butlast (tl as))" using q as b(2) by (cases a') auto
  ultimately show ?thesis using x y as by (auto simp: open_ring_def dest: in_set_butlastD)
qed

lemma cut_middle:
  assumes "open_ring n p (as @ b # cs)" and "as \<noteq> []" and "cs \<noteq> []" and "distinct (as @ b # cs)"
    and "p b = Some q" and "n b = Some r"
  shows "open_ring (cut_next b q r n) (cut_next b r q p) (as @ cs)"
proof -
  obtain a' l where as: "as = a' @ [l]" using assms(2) by (cases as rule: rev_cases) auto
  obtain c cs' where cs: "cs = c # cs'" using assms(3) by (cases cs) auto
  have lk: "linked n p (a' @ [l])" "q = l" "r = c" "linked n p cs"
    using assms(1,5,6) linked_append [of n p a' l b cs] as cs by (auto simp: open_ring_def)
  have d: "l \<notin> set a'" "l \<notin> set cs" "c \<notin> set as" "c \<notin> set cs'" "b \<notin> set as" "b \<notin> set cs"
    using assms(4) as cs by auto
  have "linked (cut_next b q r n) (cut_next b r q p) (a' @ [l]) = linked n p (a' @ [l])"
  proof (rule linked_cong)
    show "cut_next b q r n a = n a" if "a \<in> set (butlast (a' @ [l]))" for a
      using that d lk(2) as by (auto simp: cut_next_def)
    show "cut_next b r q p a = p a" if "a \<in> set (tl (a' @ [l]))" for a
      using list.set_sel(2) [OF _ that] d lk(3) as by (auto simp: cut_next_def)
  qed
  moreover have "linked (cut_next b q r n) (cut_next b r q p) cs = linked n p cs"
  proof (rule linked_cong)
    show "cut_next b q r n a = n a" if "a \<in> set (butlast cs)" for a
      using in_set_butlastD [OF that] d lk(2) by (auto simp: cut_next_def)
    show "cut_next b r q p a = p a" if "a \<in> set (tl cs)" for a using that d lk(3) cs by (auto simp: cut_next_def)
  qed
  moreover have "cut_next b q r n l = Some c" "cut_next b r q p c = Some l" using lk d as cs by (auto simp: cut_next_def)
  ultimately have "linked (cut_next b q r n) (cut_next b r q p) (as @ cs)"
    using linked_append [of _ _ a' l c cs'] lk as cs by simp
  moreover have h: "hd as \<in> set as" "last cs \<in> set cs" using assms(2,3) by simp_all
  obtain x y where "n (last cs) = Some x" "x \<notin> set (tl as @ b # cs)" "p (hd as) = Some y" "y \<notin> set (butlast (tl as @ b # cs))"
    using assms(1-3) by (auto simp: open_ring_def)
  moreover from this have "cut_next b q r n (last cs) = Some x" "cut_next b r q p (hd as) = Some y"
    using h d lk by (auto simp: cut_next_def)
  ultimately show ?thesis using assms(2,3) by (auto simp: open_ring_def butlast_append)
qed

abbreviation nx :: "barriers \<Rightarrow> nat \<Rightarrow> nat ptr" where "nx s b \<equiv> next_barrier (bar s b)"
abbreviation pv :: "barriers \<Rightarrow> nat \<Rightarrow> nat ptr" where "pv s b \<equiv> prev_barrier (bar s b)"

text \<open>The chain holds the barriers \<open>bs\<close>, in order.\<close>

definition chain_inv :: "nat list \<Rightarrow> barriers \<Rightarrow> bool" where
  "chain_inv bs s \<longleftrightarrow> distinct bs \<and> barrier_count s = int (length bs) \<and>
     barrier_chain_first s = (if bs = [] then None else Some (hd bs)) \<and>
     barrier_chain_last s = (if bs = [] then None else Some (last bs)) \<and> open_ring (nx s) (pv s) bs \<and>
     (\<forall>b\<in>set bs. bflags (bar s b) = XDD_BARRIER_FLAG_INITIALIZED \<and> counter (bar s b) \<noteq> -1)"

lemma bar_frame:
  "bar (on_bar b f s) = (bar s)(b := f (bar s b))" "barrier_chain_first (on_bar b f s) = barrier_chain_first s"
  "barrier_chain_last (on_bar b f s) = barrier_chain_last s" "barrier_count (on_bar b f s) = barrier_count s"
  by (simp_all add: on_bar_def)

lemma init_inv:
  assumes inv: "chain_inv bs s" and b: "b \<notin> set bs"
    and bkw: "bs \<noteq> [] \<longrightarrow> (\<forall>y\<in>set (tl bs). pv s (hd bs) \<noteq> Some y)"
  shows "chain_inv (bs @ [b]) (snd (xdd_init_barrier 0 0 b n name s))"
proof (cases "bs = []")
  case True
  then show ?thesis
    using inv by (simp add: chain_inv_def open_ring_def xdd_init_barrier_def link_barrier_def Let_def bar_frame set_flag_def)
next
  case False
  define s' where "s' = snd (xdd_init_barrier 0 0 b n name s)"
  let ?l = "last bs"
  have l: "barrier_chain_last s = Some ?l" "barrier_chain_first s = Some (hd bs)" "barrier_count s \<noteq> 0" "?l \<in> set bs" "hd bs \<in> set bs"
    using inv False by (auto simp: chain_inv_def)
  have lb: "?l \<noteq> b" using l(4) b by auto
  have bar': "bar s' = (bar s)(b := (bar s b)\<lparr>threads := n, counter := 0, bname := take 63 name,
      first_occupant := None, last_occupant := None, bflags := 1, next_barrier := Some (hd bs), prev_barrier := Some ?l\<rparr>,
      ?l := (bar s ?l)\<lparr>next_barrier := Some b\<rparr>)"
    using l lb by (simp add: s'_def xdd_init_barrier_def link_barrier_def Let_def bar_frame set_flag_def)
  have rest: "barrier_chain_first s' = Some (hd bs)" "barrier_chain_last s' = Some b" "barrier_count s' = barrier_count s + 1"
    using l by (simp_all add: s'_def xdd_init_barrier_def link_barrier_def Let_def bar_frame)
  have d: "distinct bs" "open_ring (nx s) (pv s) bs" using inv by (simp_all add: chain_inv_def)
  have "open_ring (nx s') (pv s') (bs @ [b])"
    by (rule ring_snoc [OF d(2) False d(1) b]) (use bkw False bar' lb in auto)
  moreover have "\<forall>c\<in>set (bs @ [b]). bflags (bar s' c) = 1 \<and> counter (bar s' c) \<noteq> -1"
    using inv bar' lb by (auto simp: chain_inv_def)
  ultimately show ?thesis
    unfolding s'_def [symmetric] using d(1) b rest inv False by (simp add: chain_inv_def)
qed

lemma unlink_fields:
  assumes "barrier_count s \<noteq> 1" and "pv s b = Some p" and "nx s b = Some q"
  shows "nx (unlink_barrier b s) = cut_next b p q (nx s)"
    and "pv (unlink_barrier b s) = cut_next b q p (pv s)"
    and "barrier_chain_first (unlink_barrier b s) = (if barrier_chain_first s = Some b then Some q else barrier_chain_first s)"
    and "barrier_chain_last (unlink_barrier b s) = (if barrier_chain_last s = Some b then Some p else barrier_chain_last s)"
    and "barrier_count (unlink_barrier b s) = barrier_count s - 1"
    and "bflags (bar (unlink_barrier b s) c) = bflags (bar s c)" and "counter (bar (unlink_barrier b s) c) = counter (bar s c)"
proof -
  define t where "t = s\<lparr>barrier_chain_first := (if barrier_chain_first s = Some b then Some q else barrier_chain_first s),
      barrier_chain_last := (if barrier_chain_last s = Some b then Some p else barrier_chain_last s)\<rparr>"
  define u where "u = on_bar q (\<lambda>x. x\<lparr>prev_barrier := Some p\<rparr>) (on_bar p (\<lambda>x. x\<lparr>next_barrier := Some q\<rparr>) t)"
  have t: "bar t = bar s" by (simp add: t_def)
  have 1: "relink_next b (relink_prev b t) = u"
    using assms(2,3) t by (cases "b = p") (auto simp: relink_prev_def relink_next_def u_def bar_frame)
  have 2: "unlink_barrier b s = (on_bar b (\<lambda>x. x\<lparr>prev_barrier := None, next_barrier := None\<rparr>) u)\<lparr>
      barrier_count := barrier_count s - 1\<rparr>"
  proof -
    have "(let s0 = (if barrier_chain_first s = Some b then s\<lparr>barrier_chain_first := next_barrier (bar s b)\<rparr> else s)
          in if barrier_chain_last s0 = Some b then s0\<lparr>barrier_chain_last := prev_barrier (bar s0 b)\<rparr> else s0) = t"
      using assms(2,3) by (simp add: t_def Let_def)
    moreover have "barrier_count u = barrier_count s" by (simp add: u_def bar_frame t_def)
    ultimately show ?thesis using assms(1) 1 by (simp add: unlink_barrier_def Let_def bar_frame)
  qed
  show "nx (unlink_barrier b s) = cut_next b p q (nx s)" "pv (unlink_barrier b s) = cut_next b q p (pv s)"
    unfolding 2 by (rule ext, simp add: u_def bar_frame t cut_next_def)+
  show "barrier_chain_first (unlink_barrier b s) = (if barrier_chain_first s = Some b then Some q else barrier_chain_first s)"
    "barrier_chain_last (unlink_barrier b s) = (if barrier_chain_last s = Some b then Some p else barrier_chain_last s)"
    "barrier_count (unlink_barrier b s) = barrier_count s - 1"
    unfolding 2 by (simp_all add: u_def bar_frame t_def)
  show "bflags (bar (unlink_barrier b s) c) = bflags (bar s c)" "counter (bar (unlink_barrier b s) c) = counter (bar s c)"
    unfolding 2 by (simp_all add: u_def bar_frame t)
qed

lemma destroy_live:
  assumes "bflags (bar s b) = 1" and "counter (bar s b) \<noteq> -1"
  shows "xdd_destroy_barrier b s = unlink_barrier b (on_bar b (\<lambda>x. x\<lparr>bflags := 0, counter := -1, bname := ''DESTROYED''\<rparr>) s)"
  using assms by (simp add: xdd_destroy_barrier_def Let_def bar_frame on_bar_def clear_flag_def)

text \<open>The neighbours of an element of an open ring.\<close>

lemma ring_neighbours:
  assumes "open_ring n p (as @ b # cs)"
  obtains q r where "p b = Some q" "n b = Some r" "as \<noteq> [] \<Longrightarrow> q = last as" "cs \<noteq> [] \<Longrightarrow> r = hd cs"
proof -
  have "\<exists>q. p b = Some q \<and> (as \<noteq> [] \<longrightarrow> q = last as)"
  proof (cases as rule: rev_cases)
    case (snoc a' a)
    then show ?thesis using assms linked_append [of n p a' a b cs] by (simp add: open_ring_def)
  qed (use assms in \<open>auto simp: open_ring_def\<close>)
  moreover have "\<exists>r. n b = Some r \<and> (cs \<noteq> [] \<longrightarrow> r = hd cs)"
  proof (cases cs)
    case (Cons c cs')
    then show ?thesis using assms linked_append [of n p as b c cs'] by (simp add: open_ring_def)
  qed (use assms in \<open>auto simp: open_ring_def\<close>)
  ultimately show ?thesis using that by blast
qed

lemma ring_cut:
  assumes "open_ring n p (as @ b # cs)" and "distinct (as @ b # cs)" and "p b = Some q" and "n b = Some r"
    and "as \<noteq> [] \<or> cs \<noteq> []"
  shows "open_ring (cut_next b q r n) (cut_next b r q p) (as @ cs)"
  using assms cut_first [of n p b cs q r] cut_last [of n p as b q r] cut_middle [of n p as b cs q r]
  by (cases "as = []"; cases "cs = []") simp_all

text \<open>Taking \<open>b\<close> out of \<open>as @ b # cs\<close>.\<close>

lemma destroy_inv:
  assumes inv: "chain_inv (as @ b # cs) s"
  shows "chain_inv (as @ cs) (xdd_destroy_barrier b s)"
proof -
  define t where "t = on_bar b (\<lambda>x. x\<lparr>bflags := 0, counter := -1, bname := ''DESTROYED''\<rparr>) s"
  have live: "bflags (bar s b) = 1" "counter (bar s b) \<noteq> -1" using inv by (auto simp: chain_inv_def)
  have dst: "xdd_destroy_barrier b s = unlink_barrier b t" unfolding t_def by (rule destroy_live [OF live])
  have nt: "nx t = nx s" "pv t = pv s" by (auto simp: t_def bar_frame fun_eq_iff)
  have t: "barrier_chain_first t = barrier_chain_first s" "barrier_chain_last t = barrier_chain_last s"
    "barrier_count t = barrier_count s" and tc: "c \<noteq> b \<Longrightarrow> bar t c = bar s c" for c
    by (simp_all add: t_def bar_frame)
  have d: "distinct (as @ b # cs)" and rg: "open_ring (nx t) (pv t) (as @ b # cs)"
    and cnt: "barrier_count s = int (length (as @ b # cs))"
    and fl: "barrier_chain_first s = Some (hd (as @ b # cs))" "barrier_chain_last s = Some (last (as @ b # cs))"
    and fin: "\<forall>c\<in>set (as @ cs). bflags (bar s c) = 1 \<and> counter (bar s c) \<noteq> -1"
    unfolding nt using inv by (simp_all add: chain_inv_def)
  show ?thesis
  proof (cases "as = [] \<and> cs = []")
    case True
    then show ?thesis
      unfolding dst using cnt t by (simp add: chain_inv_def open_ring_def unlink_barrier_def Let_def bar_frame)
  next
    case False
    have c1: "barrier_count t \<noteq> 1" using False cnt t by (cases as; cases cs) auto
    obtain q r where qr: "pv t b = Some q" "nx t b = Some r" "as \<noteq> [] \<Longrightarrow> q = last as" "cs \<noteq> [] \<Longrightarrow> r = hd cs"
      using ring_neighbours [OF rg] by metis
    note u = unlink_fields [OF c1 qr(1,2)]
    have ring: "open_ring (nx (unlink_barrier b t)) (pv (unlink_barrier b t)) (as @ cs)"
      unfolding u(1,2) by (rule ring_cut [OF rg d qr(1,2)]) (use False in blast)
    have "bflags (bar (unlink_barrier b t) c) = 1 \<and> counter (bar (unlink_barrier b t) c) \<noteq> -1" if "c \<in> set (as @ cs)" for c
    proof -
      have "c \<noteq> b" using that d by auto
      then show ?thesis using that fin u(6,7) tc by simp
    qed
    moreover have "barrier_chain_first (unlink_barrier b t) = Some (hd (as @ cs))"
      using u(3) t fl d qr(4) False by (cases as) auto
    moreover have "barrier_chain_last (unlink_barrier b t) = Some (last (as @ cs))"
    proof (cases "cs = []")
      case True
      then show ?thesis using u(4) t fl qr(3) False by simp
    next
      case ne: False
      then have "last cs \<noteq> b" using d last_in_set [OF ne] by auto
      then show ?thesis using u(4) t fl ne by simp
    qed
    ultimately show ?thesis
      unfolding dst using ring d u(5) t(3) cnt False by (auto simp: chain_inv_def)
  qed
qed

subsection \<open>Destroying all barriers\<close>

lemma destroy_all_ends:
  "chain_inv bs s \<Longrightarrow> \<exists>s'. xdd_destroy_all_barriers s = Some s' \<and> chain_inv [] s'"
proof (induction bs arbitrary: s)
  case Nil
  then show ?case by (simp add: chain_inv_def xdd_destroy_all_barriers.simps)
next
  case (Cons b bs)
  have "chain_inv ([] @ bs) (xdd_destroy_barrier b s)" by (rule destroy_inv) (use Cons.prems in simp)
  with Cons.IH obtain s' where "xdd_destroy_all_barriers (xdd_destroy_barrier b s) = Some s'" "chain_inv [] s'" by auto
  moreover have "barrier_chain_first s = Some b" using Cons.prems by (simp add: chain_inv_def)
  ultimately show ?case by (simp add: xdd_destroy_all_barriers.simps [of s])
qed

text \<open>A first barrier that is no longer initialised keeps the loop going for ever.\<close>

lemma destroy_all_stuck:
  assumes "barrier_chain_first s = Some b" and "bflags (bar s b) = 0"
  shows "xdd_destroy_all_barriers s = None"
proof (rule ccontr)
  have same: "xdd_destroy_barrier b s = s"
    using assms(2) by (simp add: xdd_destroy_barrier_def on_bar_def Let_def fun_upd_idem)
  assume "xdd_destroy_all_barriers s \<noteq> None"
  then obtain s' where "xdd_destroy_all_barriers s = Some s'" by blast
  then have "s \<noteq> s"
    by (rule xdd_destroy_all_barriers.raw_induct [of "\<lambda>t _. t \<noteq> s", rotated])
       (use assms(1) same in \<open>fastforce split: option.splits\<close>)
  then show False by simp
qed

subsection \<open>Properties\<close>


definition no_barriers :: barriers where
  "no_barriers = \<lparr>barrier_chain_first = None, barrier_chain_last = None, barrier_count = 0,
     bar = (\<lambda>_. \<lparr>prev_barrier = None, next_barrier = None, first_occupant = None, last_occupant = None, bflags = 0,
                 bname = [], counter = 0, threads = 0\<rparr>),
     occ = (\<lambda>_. \<lparr>prev_occupant = None, next_occupant = None, occupant_type = XDD_OCCUPANT_TYPE_WORKER_THREAD,
                 occupant_name = [], occupant_state = 0, occupant_barrier = None\<rparr>)\<rparr>"

definition init3 :: barriers where
  "init3 = snd (xdd_init_barrier 0 0 2 4 ''c'' (snd (xdd_init_barrier 0 0 1 4 ''b'' (snd (xdd_init_barrier 0 0 0 4 ''a'' no_barriers)))))"

lemmas barrier_defs = xdd_init_barrier_def link_barrier_def xdd_destroy_barrier_def unlink_barrier_def relink_prev_def
  relink_next_def on_bar_def on_occ_def Let_def set_flag_def clear_flag_def

lemma init3_inv: "chain_inv [0, 1, 2] init3"
proof -
  have 0: "chain_inv [] no_barriers" by (simp add: chain_inv_def open_ring_def no_barriers_def)
  define s1 where "s1 = snd (xdd_init_barrier 0 0 0 4 ''a'' no_barriers)"
  define s2 where "s2 = snd (xdd_init_barrier 0 0 1 4 ''b'' s1)"
  have 1: "chain_inv [0] s1" using init_inv [OF 0, of 0 4 "''a''"] by (simp add: s1_def)
  have p1: "prev_barrier (bar s1 0) = Some 0" by (simp add: s1_def barrier_defs no_barriers_def)
  have 2: "chain_inv [0, 1] s2" using init_inv [OF 1, of 1 4 "''b''"] by (simp add: s2_def)
  have "prev_barrier (bar s2 0) = Some 0" using p1 1 by (simp add: s2_def barrier_defs chain_inv_def)
  then show ?thesis using init_inv [OF 2, of 2 4 "''c''"] by (simp add: init3_def s1_def s2_def)
qed


text \<open>Initialising a barrier does not set the backward link of the first one, so that after three
  initialisations, the destruction of the last, another initialisation and the destruction of
  the first, the chain is broken: one more destruction leaves a destroyed barrier first on it, and the loop that
  destroys all barriers does not end.\<close>

lemma destroy_all_barriers_hangs:
  "xdd_destroy_all_barriers (xdd_destroy_barrier 0 (snd (xdd_init_barrier 0 0 3 4 ''d'' (xdd_destroy_barrier 2 init3)))) = None"
proof -
  let ?s = "xdd_destroy_barrier 0 (snd (xdd_init_barrier 0 0 3 4 ''d'' (xdd_destroy_barrier 2 init3)))"
  have 1: "barrier_chain_first ?s = Some 1"
    by (simp add: init3_def no_barriers_def barrier_defs)
  have "barrier_chain_first (xdd_destroy_barrier 1 ?s) = Some 1 \<and> bflags (bar (xdd_destroy_barrier 1 ?s) 1) = 0"
    by (simp add: init3_def no_barriers_def barrier_defs)
  then have "xdd_destroy_all_barriers (xdd_destroy_barrier 1 ?s) = None" using destroy_all_stuck by blast
  then show ?thesis by (simp only: xdd_destroy_all_barriers.simps [of ?s] 1 option.case)
qed

subsection \<open>The occupants of a barrier\<close>

definition occ_inv :: "nat \<Rightarrow> nat list \<Rightarrow> barriers \<Rightarrow> bool" where
  "occ_inv b os s \<longleftrightarrow> distinct os \<and> counter (bar s b) = int (length os) \<and>
     (os \<noteq> [] \<longrightarrow> first_occupant (bar s b) = Some (hd os) \<and> last_occupant (bar s b) = Some (last os)) \<and>
     linked (\<lambda>x. next_occupant (occ s x)) (\<lambda>x. prev_occupant (occ s x)) os"

lemma enter_fields:
  assumes inv: "occ_inv b os s" and t: "threads (bar s b) \<noteq> 1" and oc: "oc \<notin> set os"
  shows "next_occupant (occ (barrier_enter b oc s) x) =
      (if os \<noteq> [] \<and> x = last os then Some oc else if x = oc then Some (if os = [] then oc else hd os) else next_occupant (occ s x))"
    and "prev_occupant (occ (barrier_enter b oc s) x) =
      (if x = oc then Some (if os = [] then oc else last os) else prev_occupant (occ s x))"
    and "first_occupant (bar (barrier_enter b oc s) b) = Some (if os = [] then oc else hd os)"
    and "last_occupant (bar (barrier_enter b oc s) b) = Some oc"
    and "counter (bar (barrier_enter b oc s) b) = counter (bar s b) + 1"
proof -
  have l: "os \<noteq> [] \<Longrightarrow> last os \<noteq> oc" using oc last_in_set by metis
  have c: "counter (bar s b) = 0 \<longleftrightarrow> os = []" using inv by (simp add: occ_inv_def)
  have m: "next_occupant (mark_occupant b y) = next_occupant y" "prev_occupant (mark_occupant b y) = prev_occupant y" for y
    by (simp_all add: mark_occupant_def)
  have f: "os \<noteq> [] \<Longrightarrow> first_occupant (bar s b) = Some (hd os)" "os \<noteq> [] \<Longrightarrow> last_occupant (bar s b) = Some (last os)"
    using inv by (simp_all add: occ_inv_def)
  note defs = barrier_enter_def Let_def on_occ_def on_bar_def
  show "next_occupant (occ (barrier_enter b oc s) x) =
      (if os \<noteq> [] \<and> x = last os then Some oc else if x = oc then Some (if os = [] then oc else hd os) else next_occupant (occ s x))"
    using t c f l by (cases "os = []") (simp_all add: defs m)
  show "prev_occupant (occ (barrier_enter b oc s) x) =
      (if x = oc then Some (if os = [] then oc else last os) else prev_occupant (occ s x))"
    using t c f l by (cases "os = []") (simp_all add: defs m)
  show "first_occupant (bar (barrier_enter b oc s) b) = Some (if os = [] then oc else hd os)"
    using t c f by (cases "os = []") (simp_all add: defs)
  show "last_occupant (bar (barrier_enter b oc s) b) = Some oc"
    using t c f by (cases "os = []") (simp_all add: defs)
  show "counter (bar (barrier_enter b oc s) b) = counter (bar s b) + 1"
    using t c f by (cases "os = []") (simp_all add: defs)
qed

lemma enter_inv:
  assumes "occ_inv b os s" and "threads (bar s b) \<noteq> 1" and "oc \<notin> set os"
  shows "occ_inv b (os @ [oc]) (barrier_enter b oc s)"
proof -
  note f = enter_fields [OF assms]
  let ?s = "barrier_enter b oc s"
  let ?n = "\<lambda>x. next_occupant (occ ?s x)" and ?p = "\<lambda>x. prev_occupant (occ ?s x)"
  have "linked ?n ?p (os @ [oc])"
  proof (cases os rule: rev_cases)
    case (snoc as l)
    have d: "l \<notin> set as" "oc \<notin> set as" "l \<noteq> oc" using assms(1,3) snoc by (auto simp: occ_inv_def)
    have t: "set (tl (as @ [l])) \<subseteq> set (as @ [l])" by (cases as) auto
    have "linked ?n ?p os = linked (\<lambda>x. next_occupant (occ s x)) (\<lambda>x. prev_occupant (occ s x)) os"
      by (rule linked_cong) (use d snoc t in \<open>auto simp: f\<close>)
    then show ?thesis
      using assms(1) snoc d linked_append [of ?n ?p as l oc "[]"] by (simp add: occ_inv_def f)
  qed simp
  then show ?thesis using assms(1,3) f(3-5) by (simp add: occ_inv_def)
qed

text \<open>The threads in a barrier are on its chain of occupants in the order they entered, and the counter counts
  them; when the owner leaves, the chain and the counter are cleared.\<close>

lemma barrier_occupants:
  assumes "occ_inv b [] s" and "threads (bar s b) \<noteq> 1" and "distinct os"
  shows "occ_inv b os (fold (barrier_enter b) os s) \<and>
    occ_inv b [] (barrier_leave True b oc (fold (barrier_enter b) os s))"
proof -
  have t: "threads (bar (barrier_enter b x u) b) = threads (bar u b)" for x u
    by (simp add: barrier_enter_def Let_def on_occ_def on_bar_def split: option.split)
  have "occ_inv b os (fold (barrier_enter b) os s) \<and> threads (bar (fold (barrier_enter b) os s) b) \<noteq> 1"
    using assms(3)
  proof (induction os rule: rev_induct)
    case (snoc x os)
    then show ?case using enter_inv [of b os "fold (barrier_enter b) os s" x] t by simp
  qed (use assms in simp)
  then show ?thesis by (simp add: occ_inv_def barrier_leave_def Let_def on_occ_def on_bar_def)
qed

lemma barrier_occupants_witness:
  "occ_inv 1 [5, 3, 4] (fold (barrier_enter 1) [5, 3, 4] init3) \<and>
   occ_inv 1 [] (barrier_leave True 1 5 (fold (barrier_enter 1) [5, 3, 4] init3))"
  by (rule barrier_occupants) (simp_all add: occ_inv_def init3_def no_barriers_def barrier_defs)

subsection \<open>The condition-variable barrier\<close>

fun xint_waits :: "nat list \<Rightarrow> xint_barrier \<Rightarrow> (nat list list \<times> xint_barrier) option" where
  "xint_waits [] x = Some ([], x)"
| "xint_waits (t # ts) x =
     (case xint_barrier_wait t x of
        None \<Rightarrow> None
      | Some (r, x') \<Rightarrow> (case xint_waits ts x' of None \<Rightarrow> None | Some (rs, x'') \<Rightarrow> Some (r # rs, x'')))"

lemma xint_waits_partial:
  assumes "k + length ts = n" and "ts \<noteq> []" and "length bl = k"
  shows "xint_waits ts \<lparr>xb_count = n, xb_waiters = k, xb_blocked = bl\<rparr> =
    Some (replicate (length ts - 1) [] @ [bl @ ts], xint_barrier_init n)"
  using assms
proof (induction ts arbitrary: k bl)
  case (Cons t ts)
  show ?case
  proof (cases "ts = []")
    case True
    then show ?thesis using Cons.prems by (simp add: xint_barrier_wait_def xint_barrier_init_def)
  next
    case False
    then have "xint_waits ts \<lparr>xb_count = n, xb_waiters = Suc k, xb_blocked = bl @ [t]\<rparr> =
        Some (replicate (length ts - 1) [] @ [(bl @ [t]) @ ts], xint_barrier_init n)"
      using Cons.prems by (intro Cons.IH) simp_all
    moreover have "length ts = Suc (length ts - 1)" using False by simp
    ultimately show ?thesis
      using Cons.prems False by (cases ts) (simp_all add: xint_barrier_wait_def)
  qed
qed simp

text \<open>C32: The condition-variable barrier for \<open>n\<close> threads: if no wait ends by itself, the first \<open>n - 1\<close> threads block,
  the last lets all of them go and the barrier is as it was. But a wait that ends
  without a broadcast, which the system may do, lets a thread through alone, since the code
  does not test whether the barrier has opened.\<close>

theorem xint_barrier_group:
  assumes "length ts = n" and "0 < n"
  shows "xint_waits ts (xint_barrier_init n) = Some (replicate (n - 1) [] @ [ts], xint_barrier_init n) \<and>
    (1 < n \<longrightarrow> (\<exists>x y. xint_barrier_wait t (xint_barrier_init n) = Some ([], x) \<and> xint_barrier_wakeup t x = Some ([t], y)))"
  using xint_waits_partial [of 0 ts n "[]"] assms
  by (auto simp: xint_barrier_init_def xint_barrier_wait_def xint_barrier_wakeup_def)

theorem xint_barrier_group_witness:
  "xint_waits [7, 8, 9] (xint_barrier_init 3) = Some (replicate (3 - 1) [] @ [[7, 8, 9]], xint_barrier_init 3)"
  using xint_barrier_group [of "[7, 8, 9]" 3 0] by simp

end
