(* ===== verification/Run_Sync.thy ===== *)
theory Run_Sync
  imports Xdd_Prelude
begin

text \<open>
  A run as a whole: the threads of the targets (\<^verbatim>\<open>base/target_thread.c\<close>, \<^verbatim>\<open>xdd_target_pass\<close> of
  \<^verbatim>\<open>base/target_pass.c\<close>), the results manager (\<^verbatim>\<open>client/results_manager.c\<close>) and the end of the main program
  (\<^verbatim>\<open>client/xdd.c\<close>), which meet at barriers.  A pass itself is a parameter here: whether it stops its target
  (\<^verbatim>\<open>td_abort\<close>), cancels the run, or finds the run time expired, and what it counted.  Interactive mode is left out.
\<close>

subsection \<open>Threads, barriers and results\<close>

text \<open>
  The counters of a result.  Rates and times, which are floating-point numbers, are left out; the counters of 64 bits
  are taken not to overflow.
\<close>

record result_counters =
  bytes_xfered :: int
  bytes_read :: int
  bytes_written :: int
  op_count :: int
  read_op_count :: int
  write_op_count :: int
  error_count :: int

record pass_outcome =
  po_abort :: bool
  po_canceled :: bool
  po_expired :: bool
  po_results :: result_counters

text \<open>
  What the run is given: the outcome of each pass of each target, which targets are end-to-end and
  which are reopened for each pass, whether that fails, and whether there is a run time.
\<close>

record run_env =
  env_pass :: "nat \<Rightarrow> int \<Rightarrow> pass_outcome"
  env_endtoend :: "nat \<Rightarrow> bool"
  env_reopen :: "nat \<Rightarrow> bool"
  env_reopen_fails :: "nat \<Rightarrow> int \<Rightarrow> bool"
  env_run_time :: bool

datatype run_barrier = Startpass | Endpass | Display | Waitforcleanup

text \<open>
  Where a target thread is: at the barrier that starts a pass, behind it, in the pass, at the barriers behind the
  pass, between two passes, at the end of its loop; the \<open>F\<close> places are the barriers of the last round, for the
  results of the run.
\<close>

datatype target_pc = T_Startpass | T_Checks | T_Pass | T_Endpass | T_Display | T_After | T_Leave
  | F_Startpass | F_Endpass | F_Display | T_Cleanup | F_Cleanup | T_Done

datatype manager_pc = M_Startpass | M_Endpass | M_Decide | M_Pass | M_Run | M_Cleanup | M_Final | M_Done | M_Abort | M_Aborted

record target_run =
  tr_pc :: target_pc
  tr_pass_number :: int
  tr_abort :: bool
  tr_results :: result_counters
  tr_average :: result_counters

record run_state =
  rs_targets :: "target_run list"
  rs_manager :: manager_pc
  rs_abort :: bool
  rs_canceled :: bool
  rs_expired :: bool
  rs_complete :: bool
  rs_exited :: bool
  rs_passes :: int
  rs_current_pass_number :: int
  rs_shown :: "int list list"
  rs_combined :: "result_counters option"

definition waits_at :: "target_pc \<Rightarrow> run_barrier option" where
  "waits_at pc = (case pc of T_Startpass \<Rightarrow> Some Startpass | F_Startpass \<Rightarrow> Some Startpass
     | T_Endpass \<Rightarrow> Some Endpass | F_Endpass \<Rightarrow> Some Endpass | T_Display \<Rightarrow> Some Display | F_Display \<Rightarrow> Some Display
     | F_Cleanup \<Rightarrow> Some Waitforcleanup | _ \<Rightarrow> None)"

definition released :: "target_pc \<Rightarrow> target_pc" where
  "released pc = (case pc of T_Startpass \<Rightarrow> T_Checks | F_Startpass \<Rightarrow> F_Endpass
     | T_Endpass \<Rightarrow> T_Display | F_Endpass \<Rightarrow> F_Display | T_Display \<Rightarrow> T_After | F_Display \<Rightarrow> T_Cleanup
     | F_Cleanup \<Rightarrow> T_Done | _ \<Rightarrow> pc)"

definition manager_waits_at :: "manager_pc \<Rightarrow> run_barrier option" where
  "manager_waits_at pc = (case pc of M_Startpass \<Rightarrow> Some Startpass | M_Endpass \<Rightarrow> Some Endpass
     | M_Pass \<Rightarrow> Some Display | M_Run \<Rightarrow> Some Display | M_Abort \<Rightarrow> Some Display | M_Cleanup \<Rightarrow> Some Waitforcleanup | _ \<Rightarrow> None)"

definition manager_released :: "manager_pc \<Rightarrow> manager_pc" where
  "manager_released pc = (case pc of M_Startpass \<Rightarrow> M_Endpass | M_Endpass \<Rightarrow> M_Decide
     | M_Pass \<Rightarrow> M_Startpass | M_Run \<Rightarrow> M_Cleanup | M_Abort \<Rightarrow> M_Aborted | M_Cleanup \<Rightarrow> M_Final | _ \<Rightarrow> pc)"

subsection \<open>The steps of a target\<close>

definition put_target :: "nat \<Rightarrow> (target_run \<Rightarrow> target_run) \<Rightarrow> run_state \<Rightarrow> run_state" where
  "put_target i f s = s\<lparr>rs_targets := (rs_targets s)[i := f (rs_targets s ! i)]\<rparr>"

definition goto :: "target_pc \<Rightarrow> target_run \<Rightarrow> target_run" where
  "goto pc t = t\<lparr>tr_pc := pc\<rparr>"

text \<open>A pass: the reset before it clears the abort flag.  A canceled end-to-end target skips the barriers behind the pass.\<close>

definition do_pass :: "run_env \<Rightarrow> nat \<Rightarrow> run_state \<Rightarrow> run_state" where
  "do_pass env i s =
     (let r = env_pass env i (tr_pass_number (rs_targets s ! i));
          s1 = s\<lparr>rs_canceled := (rs_canceled s \<or> po_canceled r), rs_expired := (rs_expired s \<or> po_expired r)\<rparr>
      in put_target i (\<lambda>t. (goto (if env_endtoend env i \<and> rs_canceled s1 then T_After else T_Endpass) t)
                           \<lparr>tr_abort := po_abort r, tr_results := po_results r\<rparr>) s1)"

text \<open>The rest of the loop of a target thread: the loop is left, or the next pass is set up.\<close>

definition after_pass :: "run_env \<Rightarrow> nat \<Rightarrow> run_state \<Rightarrow> run_state" where
  "after_pass env i s =
     (let t = rs_targets s ! i; n = tr_pass_number t
      in if rs_canceled s \<or> rs_abort s \<or> tr_abort t then put_target i (goto T_Leave) s
         else if env_run_time env \<and> rs_expired s then put_target i (goto T_Leave) s
         else let s1 = (if env_run_time env \<and> n = rs_passes s then s\<lparr>rs_passes := rs_passes s + 1\<rparr> else s)
              in if rs_passes s1 \<le> n then put_target i (goto T_Leave) s1
                 else put_target i (\<lambda>t. (goto T_Startpass t)\<lparr>tr_pass_number := n + 1\<rparr>)
                        (s1\<lparr>rs_abort := (rs_abort s1 \<or> env_reopen env i \<and> env_reopen_fails env i (n + 1))\<rparr>))"

definition target_step :: "run_env \<Rightarrow> nat \<Rightarrow> run_state \<Rightarrow> run_state option" where
  "target_step env i s =
     (case tr_pc (rs_targets s ! i) of
        T_Checks \<Rightarrow> Some (put_target i (goto (if rs_abort s \<or> rs_complete s then T_After else T_Pass)) s)
      | T_Pass \<Rightarrow> Some (do_pass env i s)
      | T_After \<Rightarrow> Some (after_pass env i s)
      | T_Leave \<Rightarrow> Some (if env_endtoend env i \<and> rs_canceled s then s\<lparr>rs_exited := True\<rparr>
                         else put_target i (goto F_Startpass) (s\<lparr>rs_complete := True\<rparr>))
      | T_Cleanup \<Rightarrow> Some (put_target i (goto F_Cleanup) s)
      | _ \<Rightarrow> None)"

subsection \<open>The steps of the results manager\<close>

definition combine_counters :: "result_counters \<Rightarrow> result_counters \<Rightarrow> result_counters" where
  "combine_counters to from =
     \<lparr>bytes_xfered = bytes_xfered to + bytes_xfered from, bytes_read = bytes_read to + bytes_read from,
      bytes_written = bytes_written to + bytes_written from, op_count = op_count to + op_count from,
      read_op_count = read_op_count to + read_op_count from, write_op_count = write_op_count to + write_op_count from,
      error_count = error_count to + error_count from\<rparr>"

definition no_results :: result_counters where
  "no_results = \<lparr>bytes_xfered = 0, bytes_read = 0, bytes_written = 0, op_count = 0, read_op_count = 0, write_op_count = 0,
     error_count = 0\<rparr>"

text \<open>The results of a pass are added to the average of the target, which starts afresh with the first pass.\<close>

definition average_pass :: "target_run \<Rightarrow> target_run" where
  "average_pass t = t\<lparr>tr_average :=
     combine_counters (if tr_pass_number t = 1 then no_results else tr_average t) (tr_results t)\<rparr>"

definition show_pass_results :: "run_state \<Rightarrow> run_state" where
  "show_pass_results s =
     s\<lparr>rs_targets := map average_pass (rs_targets s), rs_shown := rs_shown s @ [map tr_pass_number (rs_targets s)]\<rparr>"

definition show_run_results :: "run_state \<Rightarrow> run_state" where
  "show_run_results s =
     s\<lparr>rs_abort := (rs_abort s \<or> (\<exists>t\<in>set (rs_targets s). tr_abort t)),
       rs_combined := Some (foldl combine_counters no_results (map tr_average (rs_targets s)))\<rparr>"

text \<open>At the end the main program waits for the manager.\<close>

definition manager_step :: "run_state \<Rightarrow> run_state option" where
  "manager_step s =
     (case rs_manager s of
        M_Decide \<Rightarrow>
          Some (if rs_abort s then (show_run_results s)\<lparr>rs_manager := M_Abort\<rparr>
                else if rs_complete s then (show_run_results s)\<lparr>rs_manager := M_Run\<rparr>
                else (show_pass_results s)\<lparr>rs_manager := M_Pass, rs_current_pass_number := rs_current_pass_number s + 1\<rparr>)
      | M_Final \<Rightarrow> Some (s\<lparr>rs_manager := M_Done\<rparr>)
      | _ \<Rightarrow> None)"

subsection \<open>Runs\<close>

text \<open>A barrier opens when all targets and the manager wait at it.\<close>

definition open_barrier :: "run_barrier \<Rightarrow> run_state \<Rightarrow> run_state option" where
  "open_barrier b s =
     (if manager_waits_at (rs_manager s) = Some b \<and> (\<forall>t\<in>set (rs_targets s). waits_at (tr_pc t) = Some b)
      then Some (s\<lparr>rs_targets := map (\<lambda>t. goto (released (tr_pc t)) t) (rs_targets s), rs_manager := manager_released (rs_manager s)\<rparr>)
      else None)"

inductive run_step :: "run_env \<Rightarrow> run_state \<Rightarrow> run_state \<Rightarrow> bool" for env where
  target: "\<not> rs_exited s \<Longrightarrow> i < length (rs_targets s) \<Longrightarrow> target_step env i s = Some s' \<Longrightarrow> run_step env s s'"
| manager: "\<not> rs_exited s \<Longrightarrow> manager_step s = Some s' \<Longrightarrow> run_step env s s'"
| barrier: "\<not> rs_exited s \<Longrightarrow> open_barrier b s = Some s' \<Longrightarrow> run_step env s s'"

text \<open>The state when main has released the targets.\<close>

definition run_start :: "nat \<Rightarrow> int \<Rightarrow> run_state" where
  "run_start n passes =
     \<lparr>rs_targets = replicate n \<lparr>tr_pc = T_Startpass, tr_pass_number = 1, tr_abort = False, tr_results = no_results, tr_average = no_results\<rparr>,
      rs_manager = M_Startpass, rs_abort = False, rs_canceled = False, rs_expired = False, rs_complete = False,
      rs_exited = False, rs_passes = passes, rs_current_pass_number = 0, rs_shown = [], rs_combined = None\<rparr>"

subsection \<open>Runs that end\<close>

text \<open>Every execution from a state is finite and ends in a final state.\<close>

inductive must_end :: "('s \<Rightarrow> 's \<Rightarrow> bool) \<Rightarrow> ('s \<Rightarrow> bool) \<Rightarrow> 's \<Rightarrow> bool" for step final where
  stop: "final s \<Longrightarrow> must_end step final s"
| more: "step s s' \<Longrightarrow> (\<And>s'. step s s' \<Longrightarrow> must_end step final s') \<Longrightarrow> must_end step final s"

text \<open>
  The contract of a system of threads that cannot hang: an invariant under which no state is stuck before the end
  and every step goes down in a well-founded order.
\<close>

locale ending_system =
  fixes step :: "'s \<Rightarrow> 's \<Rightarrow> bool" and final :: "'s \<Rightarrow> bool" and ok :: "'s \<Rightarrow> bool" and R :: "('s \<times> 's) set"
  assumes keeps: "ok s \<Longrightarrow> step s s' \<Longrightarrow> ok s'"
    and progress: "ok s \<Longrightarrow> final s \<or> (\<exists>s'. step s s')"
    and down: "ok s \<Longrightarrow> step s s' \<Longrightarrow> (s', s) \<in> R"
    and wf_R: "wf R"
begin

lemma ends: "ok s \<Longrightarrow> must_end step final s"
proof (induction s rule: wf_induct_rule [OF wf_R])
  case (1 s)
  consider "final s" | s' where "step s s'" using progress [OF 1(2)] by blast
  then show ?case
  proof cases
    case 2
    then show ?thesis using 1 keeps down by (blast intro: must_end.more)
  qed (rule must_end.stop)
qed

end

subsection \<open>A run without a stopped target\<close>

definition total_results :: "run_env \<Rightarrow> nat \<Rightarrow> int \<Rightarrow> result_counters" where
  "total_results env i k = foldl combine_counters no_results (map (\<lambda>p. po_results (env_pass env i p)) [1..k])"

definition run_totals :: "run_env \<Rightarrow> nat \<Rightarrow> int \<Rightarrow> result_counters" where
  "run_totals env n k = foldl combine_counters no_results (map (\<lambda>i. total_results env i k) [0..<n])"

text \<open>Nothing goes wrong with a single target only: no pass stops its target and no target fails to reopen.\<close>

definition clean_env :: "run_env \<Rightarrow> bool" where
  "clean_env env \<longleftrightarrow> (\<forall>i p. \<not> po_abort (env_pass env i p) \<and> \<not> env_reopen_fails env i p) \<and> \<not> env_run_time env"

text \<open>The results of every pass, shown once and in order, for all targets together.\<close>

definition shown_in_order :: "nat \<Rightarrow> int list list \<Rightarrow> bool" where
  "shown_in_order n xs \<longleftrightarrow> xs = map (\<lambda>p. replicate n p) [1..int (length xs)]"

text \<open>
  The end of a run: the program has exited because an end-to-end target was canceled, or all threads are done, the
  results of the passes were shown once each and in order for all targets together, and the combined results are the
  totals of these passes.  All passes are done, or the run was canceled.
\<close>

definition run_finished :: "run_env \<Rightarrow> nat \<Rightarrow> int \<Rightarrow> run_state \<Rightarrow> bool" where
  "run_finished env n passes s \<longleftrightarrow>
     rs_exited s \<and> rs_canceled s \<and> (\<exists>i<n. env_endtoend env i)
     \<or> rs_manager s = M_Done \<and> (\<forall>t\<in>set (rs_targets s). tr_pc t = T_Done) \<and> shown_in_order n (rs_shown s)
       \<and> (let k = int (length (rs_shown s))
          in (k = passes \<or> rs_canceled s \<and> 1 \<le> k \<and> k \<le> passes) \<and> rs_combined s = Some (run_totals env n k))"

definition place_ok :: "manager_pc \<Rightarrow> int \<Rightarrow> bool \<Rightarrow> bool \<Rightarrow> bool \<Rightarrow> bool \<Rightarrow> target_pc \<Rightarrow> int \<Rightarrow> bool" where
  "place_ok m k d complete quits counted pc n \<longleftrightarrow>
     (case m of
        M_Startpass \<Rightarrow> pc = T_After \<and> n = k \<and> 1 \<le> k \<or> pc = T_Startpass \<and> n = k + 1 \<and> \<not> d
          \<or> pc = T_Leave \<and> d \<or> pc = F_Startpass \<and> d \<and> complete
      | M_Endpass \<Rightarrow> if complete then pc = F_Endpass
          else n = k + 1 \<and> (pc = T_Checks \<or> pc = T_Pass \<or> pc = T_Endpass \<and> counted) \<or> (pc = T_After \<or> pc = T_Leave) \<and> quits
      | M_Decide \<Rightarrow> if complete then pc = F_Display else n = k + 1 \<and> pc = T_Display \<and> counted
      | M_Pass \<Rightarrow> pc = T_Display \<and> n = k
      | M_Run \<Rightarrow> pc = F_Display
      | M_Cleanup \<Rightarrow> pc = T_Cleanup \<or> pc = F_Cleanup
      | M_Final \<Rightarrow> pc = T_Done
      | M_Done \<Rightarrow> pc = T_Done
      | _ \<Rightarrow> False)"

definition target_inv :: "run_env \<Rightarrow> int \<Rightarrow> manager_pc \<Rightarrow> int \<Rightarrow> bool \<Rightarrow> bool \<Rightarrow> nat \<Rightarrow> target_run \<Rightarrow> bool" where
  "target_inv env passes m k canceled complete i t \<longleftrightarrow>
     \<not> tr_abort t \<and> (1 \<le> k \<longrightarrow> tr_average t = total_results env i k)
     \<and> place_ok m k (1 \<le> k \<and> (canceled \<or> passes \<le> k)) complete (env_endtoend env i \<and> canceled)
         (tr_results t = po_results (env_pass env i (tr_pass_number t))) (tr_pc t) (tr_pass_number t)"

definition run_inv :: "run_env \<Rightarrow> nat \<Rightarrow> int \<Rightarrow> run_state \<Rightarrow> bool" where
  "run_inv env n passes s \<longleftrightarrow>
     (let k = int (length (rs_shown s)); m = rs_manager s
      in length (rs_targets s) = n \<and> 0 < n \<and> \<not> rs_abort s \<and> rs_passes s = passes \<and> 1 \<le> passes \<and> k \<le> passes
         \<and> shown_in_order n (rs_shown s)
         \<and> (rs_complete s \<longrightarrow> 1 \<le> k \<and> (rs_canceled s \<or> passes \<le> k))
         \<and> (m \<in> {M_Endpass, M_Decide} \<longrightarrow> \<not> rs_complete s \<longrightarrow> k < passes)
         \<and> (k = 0 \<longrightarrow> m = M_Startpass \<longrightarrow> \<not> rs_canceled s)
         \<and> (m = M_Pass \<longrightarrow> \<not> rs_complete s \<and> 1 \<le> k) \<and> (m \<in> {M_Run, M_Cleanup, M_Final, M_Done} \<longrightarrow> rs_complete s)
         \<and> (m \<in> {M_Run, M_Cleanup, M_Final, M_Done} \<longrightarrow> rs_combined s = Some (run_totals env n k))
         \<and> (rs_exited s \<longrightarrow> rs_canceled s \<and> (\<exists>i<n. env_endtoend env i))
         \<and> (\<forall>i<n. target_inv env passes m k (rs_canceled s) (rs_complete s) i (rs_targets s ! i)))"

definition pc_rank :: "target_pc \<Rightarrow> nat" where
  "pc_rank pc = (case pc of T_Checks \<Rightarrow> 5 | T_Pass \<Rightarrow> 4 | T_After \<Rightarrow> 3 | T_Leave \<Rightarrow> 2 | T_Cleanup \<Rightarrow> 1 | _ \<Rightarrow> 0)"

definition manager_rank :: "manager_pc \<Rightarrow> nat" where
  "manager_rank m = (case m of M_Startpass \<Rightarrow> 7 | M_Endpass \<Rightarrow> 6 | M_Decide \<Rightarrow> 5 | M_Pass \<Rightarrow> 4 | M_Run \<Rightarrow> 3 | M_Cleanup \<Rightarrow> 2
     | M_Final \<Rightarrow> 1 | M_Abort \<Rightarrow> 1 | _ \<Rightarrow> 0)"

definition run_order :: "int \<Rightarrow> (run_state \<times> run_state) set" where
  "run_order passes = measures
     [\<lambda>s. nat (passes - (int (length (rs_shown s)) - (if rs_manager s = M_Pass then 1 else 0))),
      \<lambda>s. manager_rank (rs_manager s),
      \<lambda>s. sum_list (map (\<lambda>t. pc_rank (tr_pc t)) (rs_targets s)) + (if rs_exited s then 0 else 1)]"

lemma put_target_simps [simp]:
  "rs_targets (put_target i f s) = (rs_targets s)[i := f (rs_targets s ! i)]"
  "rs_manager (put_target i f s) = rs_manager s" "rs_abort (put_target i f s) = rs_abort s"
  "rs_canceled (put_target i f s) = rs_canceled s" "rs_expired (put_target i f s) = rs_expired s"
  "rs_complete (put_target i f s) = rs_complete s" "rs_exited (put_target i f s) = rs_exited s"
  "rs_passes (put_target i f s) = rs_passes s" "rs_shown (put_target i f s) = rs_shown s"
  "rs_combined (put_target i f s) = rs_combined s" "rs_current_pass_number (put_target i f s) = rs_current_pass_number s"
  by (simp_all add: put_target_def)

lemma goto_simps [simp]:
  "tr_pc (goto pc t) = pc" "tr_pass_number (goto pc t) = tr_pass_number t" "tr_abort (goto pc t) = tr_abort t"
  "tr_results (goto pc t) = tr_results t" "tr_average (goto pc t) = tr_average t"
  by (simp_all add: goto_def)

text \<open>A step of one target keeps the invariant if it keeps it for this target and its changes of flags do for the others.\<close>

lemma target_keeps:
  assumes inv: "run_inv env n passes s" and i: "i < n"
    and same: "rs_targets s1 = rs_targets s" "rs_manager s1 = rs_manager s" "rs_abort s1 = rs_abort s" "rs_passes s1 = rs_passes s"
      "rs_shown s1 = rs_shown s" "rs_combined s1 = rs_combined s"
    and me: "target_inv env passes (rs_manager s) (int (length (rs_shown s))) (rs_canceled s1) (rs_complete s1) i (f (rs_targets s ! i))"
    and flags: "rs_complete s1 = rs_complete s \<and> rs_canceled s1 = rs_canceled s
      \<or> rs_manager s = M_Endpass \<and> \<not> rs_complete s \<and> \<not> rs_complete s1 \<and> (rs_canceled s \<longrightarrow> rs_canceled s1)
      \<or> rs_manager s = M_Startpass \<and> rs_complete s1 \<and> rs_canceled s1 = rs_canceled s
          \<and> 1 \<le> length (rs_shown s) \<and> (rs_canceled s \<or> passes \<le> int (length (rs_shown s)))"
    and ex: "rs_exited s1 \<longrightarrow> rs_canceled s1 \<and> (\<exists>i<n. env_endtoend env i)"
  shows "run_inv env n passes (put_target i f s1)"
proof -
  let ?k = "int (length (rs_shown s))"
  have others: "target_inv env passes (rs_manager s) ?k (rs_canceled s1) (rs_complete s1) j t"
    if "target_inv env passes (rs_manager s) ?k (rs_canceled s) (rs_complete s) j t" for j t
    using flags that by (elim disjE) (auto simp: target_inv_def place_ok_def)
  have "\<forall>j<n. target_inv env passes (rs_manager s) ?k (rs_canceled s1) (rs_complete s1) j ((rs_targets s)[i := f (rs_targets s ! i)] ! j)"
    using inv me others i by (auto simp: nth_list_update run_inv_def Let_def)
  then show ?thesis using inv flags ex unfolding run_inv_def Let_def by (elim disjE) (auto simp: same)
qed

lemma place_simps:
  "place_ok m k d c q cnt T_Startpass n \<longleftrightarrow> m = M_Startpass \<and> n = k + 1 \<and> \<not> d"
  "place_ok m k d c q cnt T_Checks n \<longleftrightarrow> m = M_Endpass \<and> \<not> c \<and> n = k + 1"
  "place_ok m k d c q cnt T_Pass n \<longleftrightarrow> m = M_Endpass \<and> \<not> c \<and> n = k + 1"
  "place_ok m k d c q cnt T_Endpass n \<longleftrightarrow> m = M_Endpass \<and> \<not> c \<and> n = k + 1 \<and> cnt"
  "place_ok m k d c q cnt T_Display n \<longleftrightarrow> m = M_Decide \<and> \<not> c \<and> n = k + 1 \<and> cnt \<or> m = M_Pass \<and> n = k"
  "place_ok m k d c q cnt T_After n \<longleftrightarrow> m = M_Startpass \<and> n = k \<and> 1 \<le> k \<or> m = M_Endpass \<and> \<not> c \<and> q"
  "place_ok m k d c q cnt T_Leave n \<longleftrightarrow> m = M_Startpass \<and> d \<or> m = M_Endpass \<and> \<not> c \<and> q"
  "place_ok m k d c q cnt F_Startpass n \<longleftrightarrow> m = M_Startpass \<and> d \<and> c"
  "place_ok m k d c q cnt F_Endpass n \<longleftrightarrow> m = M_Endpass \<and> c"
  "place_ok m k d c q cnt F_Display n \<longleftrightarrow> m = M_Decide \<and> c \<or> m = M_Run"
  "place_ok m k d c q cnt T_Cleanup n \<longleftrightarrow> m = M_Cleanup"
  "place_ok m k d c q cnt F_Cleanup n \<longleftrightarrow> m = M_Cleanup"
  "place_ok m k d c q cnt T_Done n \<longleftrightarrow> m = M_Final \<or> m = M_Done"
  by (cases m; simp add: place_ok_def)+

lemma run_invD:
  assumes "run_inv env n passes s" and "i < n"
  shows "length (rs_targets s) = n" and "\<not> rs_abort s" and "rs_passes s = passes"
    and "target_inv env passes (rs_manager s) (int (length (rs_shown s))) (rs_canceled s) (rs_complete s) i (rs_targets s ! i)"
  using assms by (simp_all add: run_inv_def Let_def)

lemma run_inv_exited:
  assumes "run_inv env n passes s"
  shows "rs_exited s \<longrightarrow> rs_canceled s \<and> (\<exists>i<n. env_endtoend env i)"
  using assms by (simp add: run_inv_def Let_def)

lemma checks_keeps:
  assumes inv: "run_inv env n passes s" and i: "i < n" and pc: "tr_pc (rs_targets s ! i) = T_Checks"
  shows "run_inv env n passes (put_target i (goto (if rs_abort s \<or> rs_complete s then T_After else T_Pass)) s)"
proof -
  note d = run_invD [OF inv i, unfolded target_inv_def pc place_simps]
  show ?thesis
    by (rule target_keeps [OF inv i]) (use d run_inv_exited [OF inv] in \<open>simp_all add: target_inv_def place_simps\<close>)
qed

lemma pass_keeps:
  assumes clean: "clean_env env" and inv: "run_inv env n passes s" and i: "i < n" and pc: "tr_pc (rs_targets s ! i) = T_Pass"
  shows "run_inv env n passes (do_pass env i s)"
proof -
  note d = run_invD [OF inv i, unfolded target_inv_def pc place_simps]
  have noab: "\<not> po_abort (env_pass env i p)" for p using clean by (simp add: clean_env_def)
  show ?thesis unfolding do_pass_def Let_def
    by (rule target_keeps [OF inv i]) (use d run_inv_exited [OF inv] noab in \<open>simp_all add: target_inv_def place_simps\<close>)
qed

lemma after_keeps:
  assumes clean: "clean_env env" and inv: "run_inv env n passes s" and i: "i < n" and pc: "tr_pc (rs_targets s ! i) = T_After"
  shows "run_inv env n passes (after_pass env i s)"
proof -
  let ?t = "rs_targets s ! i"
  note d = run_invD [OF inv i, unfolded target_inv_def pc place_simps]
  have e: "\<not> env_run_time env" "\<not> env_reopen_fails env i p" for p using clean by (simp_all add: clean_env_def)
  have same: "s\<lparr>rs_abort := False\<rparr> = s" using d(2) by simp
  show ?thesis
  proof (cases "rs_canceled s \<or> passes \<le> tr_pass_number ?t")
    case True
    then have "after_pass env i s = put_target i (goto T_Leave) s" using d e by (auto simp: after_pass_def Let_def)
    moreover have "run_inv env n passes (put_target i (goto T_Leave) s)"
      by (rule target_keeps [OF inv i]) (use True d run_inv_exited [OF inv] in \<open>auto simp: target_inv_def place_simps\<close>)
    ultimately show ?thesis by simp
  next
    case False
    then have "after_pass env i s = put_target i (\<lambda>t. (goto T_Startpass t)\<lparr>tr_pass_number := tr_pass_number ?t + 1\<rparr>) s"
      using d e same by (simp add: after_pass_def Let_def)
    moreover have "run_inv env n passes (put_target i (\<lambda>t. (goto T_Startpass t)\<lparr>tr_pass_number := tr_pass_number ?t + 1\<rparr>) s)"
      by (rule target_keeps [OF inv i]) (use False d run_inv_exited [OF inv] in \<open>auto simp: target_inv_def place_simps\<close>)
    ultimately show ?thesis by simp
  qed
qed

lemma leave_keeps:
  assumes inv: "run_inv env n passes s" and i: "i < n" and pc: "tr_pc (rs_targets s ! i) = T_Leave"
    and quits: "\<not> (env_endtoend env i \<and> rs_canceled s)"
  shows "run_inv env n passes (put_target i (goto F_Startpass) (s\<lparr>rs_complete := True\<rparr>))"
proof -
  note d = run_invD [OF inv i, unfolded target_inv_def pc place_simps]
  show ?thesis
    by (rule target_keeps [OF inv i]) (use d quits run_inv_exited [OF inv] in \<open>auto simp: target_inv_def place_simps\<close>)
qed

lemma cleanup_keeps:
  assumes inv: "run_inv env n passes s" and i: "i < n" and pc: "tr_pc (rs_targets s ! i) = T_Cleanup"
  shows "run_inv env n passes (put_target i (goto F_Cleanup) s)"
proof -
  note d = run_invD [OF inv i, unfolded target_inv_def pc place_simps]
  show ?thesis
    by (rule target_keeps [OF inv i]) (use d run_inv_exited [OF inv] in \<open>simp_all add: target_inv_def place_simps\<close>)
qed

lemma quit_keeps:
  assumes "run_inv env n passes s" and "i < n" and "env_endtoend env i" and "rs_canceled s"
  shows "run_inv env n passes (s\<lparr>rs_exited := True\<rparr>)"
proof -
  have "\<exists>i<n. env_endtoend env i" using assms by blast
  with assms(1,4) show ?thesis unfolding run_inv_def Let_def by simp
qed

lemma target_step_keeps:
  assumes clean: "clean_env env" and inv: "run_inv env n passes s" and i: "i < n" and step: "target_step env i s = Some s'"
  shows "run_inv env n passes s'"
proof -
  note quit = quit_keeps [OF inv i]
  show ?thesis
  proof (cases "tr_pc (rs_targets s ! i)")
    case T_Checks
    with step checks_keeps [OF inv i T_Checks] show ?thesis by (simp add: target_step_def)
  next
    case T_Pass
    with step pass_keeps [OF clean inv i T_Pass] show ?thesis by (simp add: target_step_def)
  next
    case T_After
    with step after_keeps [OF clean inv i T_After] show ?thesis by (simp add: target_step_def)
  next
    case T_Leave
    with step leave_keeps [OF inv i T_Leave] quit show ?thesis by (cases "env_endtoend env i \<and> rs_canceled s") (simp_all add: target_step_def)
  next
    case T_Cleanup
    with step cleanup_keeps [OF inv i T_Cleanup] show ?thesis by (simp add: target_step_def)
  qed (use step in \<open>simp_all add: target_step_def\<close>)
qed

text \<open>The manager adds the results of a pass, and at the end those of the targets.\<close>

lemma total_results_step:
  "0 \<le> k \<Longrightarrow> total_results env i (k + 1) = combine_counters (total_results env i k) (po_results (env_pass env i (k + 1)))"
  by (simp add: total_results_def upto_rec2)

lemma total_results_first: "total_results env i 0 = no_results"
  by (simp add: total_results_def)

lemma shown_in_order_snoc:
  assumes "shown_in_order n xs"
  shows "shown_in_order n (xs @ [replicate n (int (length xs) + 1)])"
  using assms unfolding shown_in_order_def by (simp add: upto_rec2)

lemma same_pass_numbers:
  assumes "\<forall>i<length ts. tr_pass_number (ts ! i) = m"
  shows "map tr_pass_number ts = replicate (length ts) m"
  using assms by (auto intro!: nth_equalityI)

lemma manager_step_keeps:
  assumes inv: "run_inv env n passes s" and step: "manager_step s = Some s'"
  shows "run_inv env n passes s'"
proof (cases "rs_manager s")
  case M_Decide
  let ?k = "int (length (rs_shown s))"
  have t: "target_inv env passes M_Decide ?k (rs_canceled s) (rs_complete s) i (rs_targets s ! i)" if "i < n" for i
    using run_invD(4) [OF inv that] M_Decide by simp
  show ?thesis
  proof (cases "rs_complete s")
    case True
    have k: "1 \<le> ?k" using inv True by (simp add: run_inv_def Let_def)
    have len: "length (rs_targets s) = n" using inv by (simp add: run_inv_def Let_def)
    have avg: "map tr_average (rs_targets s) = map (\<lambda>i. total_results env i ?k) [0..<n]"
      using t k len by (auto intro!: nth_equalityI simp: target_inv_def)
    have noab: "\<not> (\<exists>t\<in>set (rs_targets s). tr_abort t)" using t len by (auto simp: in_set_conv_nth target_inv_def)
    have s': "s' = s\<lparr>rs_abort := False, rs_combined := Some (run_totals env n ?k), rs_manager := M_Run\<rparr>"
      using step M_Decide True inv noab
      by (simp add: manager_step_def show_run_results_def run_totals_def avg run_inv_def Let_def)
    have "target_inv env passes M_Run ?k (rs_canceled s) True i (rs_targets s ! i)" if "i < n" for i
      using t [OF that] True by (simp add: target_inv_def place_ok_def)
    then show ?thesis using inv True unfolding s' run_inv_def Let_def by auto
  next
    case False
    have g: "length (rs_targets s) = n" "\<not> rs_abort s" "?k < passes" "shown_in_order n (rs_shown s)"
      using inv False M_Decide by (auto simp: run_inv_def Let_def)
    have p: "tr_pass_number (rs_targets s ! i) = ?k + 1" if "i < n" for i
      using t [OF that] False by (simp add: target_inv_def place_ok_def)
    have nums: "map tr_pass_number (rs_targets s) = replicate n (?k + 1)"
      using same_pass_numbers [of "rs_targets s" "?k + 1"] p g(1) by simp
    have s': "s' = s\<lparr>rs_targets := map average_pass (rs_targets s), rs_shown := rs_shown s @ [replicate n (?k + 1)],
        rs_manager := M_Pass, rs_current_pass_number := rs_current_pass_number s + 1\<rparr>"
      using step M_Decide False g by (simp add: manager_step_def show_pass_results_def nums)
    have "target_inv env passes M_Pass (?k + 1) (rs_canceled s) False i (average_pass (rs_targets s ! i))" if "i < n" for i
      using t [OF that] p [OF that] False total_results_step [of ?k env i] total_results_first [of env i]
      by (cases "?k = 0") (auto simp: target_inv_def place_ok_def average_pass_def)
    then show ?thesis using inv False g shown_in_order_snoc [OF g(4)] unfolding s' run_inv_def Let_def by (auto simp: add.commute)
  qed
next
  case M_Final
  then have s': "s' = s\<lparr>rs_manager := M_Done\<rparr>" using step by (simp add: manager_step_def)
  have "target_inv env passes M_Done (int (length (rs_shown s))) (rs_canceled s) (rs_complete s) i (rs_targets s ! i)" if "i < n" for i
    using run_invD(4) [OF inv that] M_Final by (simp add: target_inv_def place_ok_def)
  then show ?thesis using inv M_Final unfolding s' run_inv_def Let_def by auto
qed (use step in \<open>simp_all add: manager_step_def\<close>)

text \<open>A barrier that opens.\<close>

lemma open_target:
  assumes "target_inv env passes m k canceled complete i t" and "waits_at (tr_pc t) = Some b" and "manager_waits_at m = Some b"
    and "complete \<longrightarrow> 1 \<le> k \<and> (canceled \<or> passes \<le> k)" and "m = M_Pass \<longrightarrow> 1 \<le> k"
  shows "target_inv env passes (manager_released m) k canceled complete i (goto (released (tr_pc t)) t)"
  using assms unfolding target_inv_def
  by (cases "tr_pc t"; cases m) (simp_all add: place_simps waits_at_def manager_waits_at_def manager_released_def released_def)

lemma open_barrier_keeps:
  assumes inv: "run_inv env n passes s" and op: "open_barrier b s = Some s'"
  shows "run_inv env n passes s'"
proof -
  let ?k = "int (length (rs_shown s))" and ?m = "rs_manager s"
  have w: "manager_waits_at ?m = Some b" "\<forall>t\<in>set (rs_targets s). waits_at (tr_pc t) = Some b"
    and s': "s' = s\<lparr>rs_targets := map (\<lambda>t. goto (released (tr_pc t)) t) (rs_targets s), rs_manager := manager_released ?m\<rparr>"
    using op by (auto simp: open_barrier_def split: if_splits)
  have g: "length (rs_targets s) = n" "0 < n" "rs_complete s \<longrightarrow> 1 \<le> ?k \<and> (rs_canceled s \<or> passes \<le> ?k)" "?m = M_Pass \<longrightarrow> 1 \<le> ?k"
    "1 \<le> passes"
    using inv by (auto simp: run_inv_def Let_def)
  have t: "target_inv env passes ?m ?k (rs_canceled s) (rs_complete s) i (rs_targets s ! i)" if "i < n" for i
    using run_invD(4) [OF inv that] .
  have wt: "waits_at (tr_pc (rs_targets s ! i)) = Some b" if "i < n" for i using w(2) that g(1) by simp
  have all: "\<forall>i<n. target_inv env passes (manager_released ?m) ?k (rs_canceled s) (rs_complete s) i (rs_targets s' ! i)"
    using open_target [OF t wt w(1) g(3,4)] g(1) unfolding s' by simp
  have start: "?k < passes" if "?m = M_Startpass" "\<not> rs_complete s"
    using t [OF g(2)] wt [OF g(2)] that g(5) unfolding target_inv_def that(1)
    by (cases "tr_pc (rs_targets s ! 0)") (auto simp: place_simps waits_at_def)
  show ?thesis
    using inv w(1) all start unfolding run_inv_def Let_def s'
    by (cases ?m; simp add: manager_waits_at_def manager_released_def) auto
qed

lemma run_step_keeps:
  assumes "clean_env env" and "run_inv env n passes s" and "run_step env s s'"
  shows "run_inv env n passes s'"
  using assms(3)
proof cases
  case (target i)
  then have "i < n" using assms(2) by (simp add: run_inv_def Let_def)
  with target show ?thesis using target_step_keeps [OF assms(1,2)] by blast
qed (use assms(2) manager_step_keeps open_barrier_keeps in blast)+

text \<open>Every step goes down.\<close>

lemma rank_decreases:
  assumes "i < length ts" and "pc_rank (tr_pc t) < pc_rank (tr_pc (ts ! i))"
  shows "sum_list (map (\<lambda>t. pc_rank (tr_pc t)) (ts[i := t])) < sum_list (map (\<lambda>t. pc_rank (tr_pc t)) ts)"
proof -
  have "sum_list (map (\<lambda>t. pc_rank (tr_pc t)) ts) = pc_rank (tr_pc (ts ! i)) + sum_list (map (\<lambda>t. pc_rank (tr_pc t)) (take i ts @ drop (Suc i) ts))"
    by (subst id_take_nth_drop [OF assms(1)]) simp
  moreover have "sum_list (map (\<lambda>t. pc_rank (tr_pc t)) (ts[i := t])) = pc_rank (tr_pc t) + sum_list (map (\<lambda>t. pc_rank (tr_pc t)) (take i ts @ drop (Suc i) ts))"
    using assms(1) by (simp add: upd_conv_take_nth_drop)
  ultimately show ?thesis using assms(2) by linarith
qed

lemma put_target_down:
  assumes "i < length (rs_targets s)" and "pc_rank (tr_pc (f (rs_targets s ! i))) < pc_rank (tr_pc (rs_targets s ! i))"
    and "rs_targets s1 = rs_targets s" "rs_manager s1 = rs_manager s" "rs_shown s1 = rs_shown s" "rs_exited s1 = rs_exited s"
  shows "(put_target i f s1, s) \<in> run_order passes"
  using rank_decreases [OF assms(1,2)] assms(3-6) by (simp add: run_order_def)

lemma target_step_down:
  assumes "i < length (rs_targets s)" and "target_step env i s = Some s'" and "\<not> rs_exited s"
  shows "(s', s) \<in> run_order passes"
proof (cases "tr_pc (rs_targets s ! i)")
  case T_Checks
  then have "s' = put_target i (goto (if rs_abort s \<or> rs_complete s then T_After else T_Pass)) s" using assms(2) by (simp add: target_step_def)
  then show ?thesis using T_Checks by (auto intro!: put_target_down [OF assms(1)] simp: pc_rank_def)
next
  case T_Pass
  then have "s' = do_pass env i s" using assms(2) by (simp add: target_step_def)
  then show ?thesis using T_Pass by (auto intro!: put_target_down [OF assms(1)] simp: pc_rank_def do_pass_def Let_def)
next
  case T_After
  then have "s' = after_pass env i s" using assms(2) by (simp add: target_step_def)
  then show ?thesis using T_After by (auto intro!: put_target_down [OF assms(1)] simp: pc_rank_def after_pass_def Let_def)
next
  case T_Leave
  then have "s' = (if env_endtoend env i \<and> rs_canceled s then s\<lparr>rs_exited := True\<rparr> else put_target i (goto F_Startpass) (s\<lparr>rs_complete := True\<rparr>))"
    using assms(2) by (simp add: target_step_def)
  moreover have "(s\<lparr>rs_exited := True\<rparr>, s) \<in> run_order passes" using assms(3) by (simp add: run_order_def)
  ultimately show ?thesis using T_Leave by (auto intro!: put_target_down [OF assms(1)] simp: pc_rank_def)
next
  case T_Cleanup
  then have "s' = put_target i (goto F_Cleanup) s" using assms(2) by (simp add: target_step_def)
  then show ?thesis using T_Cleanup by (auto intro!: put_target_down [OF assms(1)] simp: pc_rank_def)
qed (use assms(2) in \<open>simp_all add: target_step_def\<close>)

lemma manager_down:
  assumes "int (length (rs_shown s')) - (if rs_manager s' = M_Pass then 1 else 0)
      = int (length (rs_shown s)) - (if rs_manager s = M_Pass then 1 else 0)"
    and "manager_rank (rs_manager s') < manager_rank (rs_manager s)"
  shows "(s', s) \<in> run_order passes"
  using assms(2) unfolding run_order_def by (simp only: measures_less measures_lesseq assms(1))

lemma manager_step_down:
  assumes "manager_step s = Some s'"
  shows "(s', s) \<in> run_order passes"
proof (rule manager_down)
  show "int (length (rs_shown s')) - (if rs_manager s' = M_Pass then 1 else 0)
      = int (length (rs_shown s)) - (if rs_manager s = M_Pass then 1 else 0)"
    using assms by (cases "rs_manager s") (auto simp: manager_step_def show_run_results_def show_pass_results_def split: if_splits)
  show "manager_rank (rs_manager s') < manager_rank (rs_manager s)"
    using assms by (cases "rs_manager s") (auto simp: manager_step_def manager_rank_def split: if_splits)
qed

lemma open_barrier_down:
  assumes inv: "run_inv env n passes s" and op: "open_barrier b s = Some s'"
  shows "(s', s) \<in> run_order passes"
proof -
  have w: "manager_waits_at (rs_manager s) = Some b" and m: "rs_manager s' = manager_released (rs_manager s)" "rs_shown s' = rs_shown s"
    using op by (auto simp: open_barrier_def split: if_splits)
  have "int (length (rs_shown s)) \<le> passes" "rs_manager s = M_Pass \<longrightarrow> 1 \<le> int (length (rs_shown s))"
    using inv by (auto simp: run_inv_def Let_def)
  then show ?thesis using w m
    by (cases "rs_manager s") (simp_all add: run_order_def manager_rank_def manager_released_def manager_waits_at_def)
qed

lemma run_step_down:
  assumes "run_inv env n passes s" and "run_step env s s'"
  shows "(s', s) \<in> run_order passes"
  using assms(2) target_step_down manager_step_down open_barrier_down [OF assms(1)] by cases blast+

text \<open>No state before the end is stuck: a target can go on, or all threads are at the same barrier, or the manager can.\<close>

lemma target_goes_on: "waits_at (tr_pc (rs_targets s ! i)) = None \<Longrightarrow> tr_pc (rs_targets s ! i) \<noteq> T_Done \<Longrightarrow> \<exists>s'. target_step env i s = Some s'"
  by (cases "tr_pc (rs_targets s ! i)") (simp_all add: target_step_def waits_at_def)

lemma same_barrier:
  assumes "target_inv env passes m k canceled complete i t" and "waits_at (tr_pc t) = Some b"
  shows "manager_waits_at m = Some b \<or> m = M_Decide"
  using assms unfolding target_inv_def
  by (cases "tr_pc t") (auto simp: place_simps waits_at_def manager_waits_at_def)

lemma run_progress:
  assumes inv: "run_inv env n passes s"
  shows "run_finished env n passes s \<or> (\<exists>s'. run_step env s s')"
proof (cases "rs_exited s \<or> rs_manager s = M_Done")
  case True
  have g: "length (rs_targets s) = n" using inv by (simp add: run_inv_def Let_def)
  have "\<forall>t\<in>set (rs_targets s). tr_pc t = T_Done" if "rs_manager s = M_Done"
    using run_invD(4) [OF inv] g that by (auto simp: in_set_conv_nth target_inv_def place_ok_def)
  moreover have "rs_manager s = M_Done \<Longrightarrow> rs_complete s \<and> rs_combined s = Some (run_totals env n (int (length (rs_shown s))))"
    "shown_in_order n (rs_shown s)" "rs_complete s \<longrightarrow> 1 \<le> int (length (rs_shown s)) \<and> (rs_canceled s \<or> passes \<le> int (length (rs_shown s)))"
    "int (length (rs_shown s)) \<le> passes"
    using inv by (simp_all add: run_inv_def Let_def)
  ultimately show ?thesis using True run_inv_exited [OF inv] unfolding run_finished_def Let_def by (blast intro: order_antisym)
next
  case False
  have g: "length (rs_targets s) = n" "0 < n" using inv by (auto simp: run_inv_def Let_def)
  show ?thesis
  proof (cases "rs_manager s = M_Decide \<or> rs_manager s = M_Final")
    case True
    then have "\<exists>s'. manager_step s = Some s'" by (auto simp: manager_step_def)
    then show ?thesis using False by (blast intro: run_step.manager)
  next
    case nm: False
    show ?thesis
    proof (cases "\<exists>i<n. waits_at (tr_pc (rs_targets s ! i)) = None")
      case True
      then obtain i where i: "i < n" "waits_at (tr_pc (rs_targets s ! i)) = None" by blast
      have "tr_pc (rs_targets s ! i) \<noteq> T_Done"
        using run_invD(4) [OF inv i(1)] nm False by (auto simp: target_inv_def place_simps)
      then obtain s' where "target_step env i s = Some s'" using target_goes_on [OF i(2)] by blast
      then show ?thesis using False i(1) g(1) by (blast intro: run_step.target)
    next
      case all: False
      then obtain b where b: "waits_at (tr_pc (rs_targets s ! 0)) = Some b" using g(2) by fastforce
      have m: "manager_waits_at (rs_manager s) = Some b" using same_barrier [OF run_invD(4) [OF inv g(2)] b] nm by blast
      have "waits_at (tr_pc (rs_targets s ! i)) = Some b" if i: "i < n" for i
      proof -
        obtain c where c: "waits_at (tr_pc (rs_targets s ! i)) = Some c" using all i by fastforce
        then show ?thesis using same_barrier [OF run_invD(4) [OF inv i] c] nm m by simp
      qed
      then have "\<exists>s'. open_barrier b s = Some s'" using m g(1) by (auto simp: open_barrier_def in_set_conv_nth)
      then show ?thesis using False by (blast intro: run_step.barrier)
    qed
  qed
qed

interpretation run: ending_system "run_step env" "run_finished env n passes" "\<lambda>s. clean_env env \<and> run_inv env n passes s" "run_order passes"
  for env n passes
proof unfold_locales
  show "wf (run_order passes)" by (simp add: run_order_def)
qed (use run_step_keeps run_progress run_step_down in blast)+

lemma run_start_inv:
  assumes "0 < n" and "1 \<le> passes"
  shows "run_inv env n passes (run_start n passes)"
  using assms by (simp add: run_inv_def run_start_def shown_in_order_def target_inv_def place_simps)

text \<open>C8: A run whose passes do not stop a target on their own, with no failing reopen and no run time limit, always ends, whatever the
  order in which the threads run: no thread is left waiting at a barrier.  At the end
  the results of every pass were shown exactly once, in order, for all targets together, and the combined results
  are the totals over all targets and passes.  A canceled run ends, too, after the passes shown by then, and exits at once
  when an end-to-end target notices.\<close>

theorem run_ends:
  assumes "clean_env env" and "0 < n" and "1 \<le> passes"
  shows "must_end (run_step env) (run_finished env n passes) (run_start n passes)"
  using run.ends assms(1) run_start_inv [OF assms(2,3)] by blast

text \<open>Two targets; every pass of target 0 moves 10 bytes in a write, of target 1 20 bytes in a read.\<close>

definition sample_pass :: "nat \<Rightarrow> int \<Rightarrow> pass_outcome" where
  "sample_pass i p = \<lparr>po_abort = False, po_canceled = False, po_expired = False,
     po_results = (if i = 0 then no_results\<lparr>bytes_xfered := 10, bytes_written := 10, op_count := 1, write_op_count := 1\<rparr>
                   else no_results\<lparr>bytes_xfered := 20, bytes_read := 20, op_count := 1, read_op_count := 1\<rparr>)\<rparr>"

definition sample_run_env :: run_env where
  "sample_run_env = \<lparr>env_pass = sample_pass, env_endtoend = (\<lambda>_. False), env_reopen = (\<lambda>_. True), env_reopen_fails = (\<lambda>_ _. False),
     env_run_time = False\<rparr>"

theorem run_ends_witness:
  "must_end (run_step sample_run_env) (run_finished sample_run_env 2 3) (run_start 2 3)
   \<and> bytes_xfered (run_totals sample_run_env 2 3) = 90"
proof
  have "clean_env sample_run_env" by (simp add: clean_env_def sample_run_env_def sample_pass_def)
  then show "must_end (run_step sample_run_env) (run_finished sample_run_env 2 3) (run_start 2 3)" by (rule run_ends) simp_all
  have "[1..(3::int)] = [1, 2, 3]" by (simp add: upto.simps)
  then show "bytes_xfered (run_totals sample_run_env 2 3) = 90"
    by (simp add: run_totals_def total_results_def sample_run_env_def sample_pass_def combine_counters_def no_results_def numeral_2_eq_2)
qed

subsection \<open>Runs that hang\<close>

definition stuck :: "run_env \<Rightarrow> run_state \<Rightarrow> bool" where
  "stuck env s \<longleftrightarrow> \<not> rs_exited s \<and> rs_manager s \<noteq> M_Done \<and> (\<forall>s'. \<not> run_step env s s')"

text \<open>A schedule as a list of choices, and the state it leads to.\<close>

datatype choice = Target nat | Manager | Barrier run_barrier

fun take_turn :: "run_env \<Rightarrow> choice \<Rightarrow> run_state \<Rightarrow> run_state option" where
  "take_turn env (Target i) s = (if rs_exited s \<or> length (rs_targets s) \<le> i then None else target_step env i s)"
| "take_turn env Manager s = (if rs_exited s then None else manager_step s)"
| "take_turn env (Barrier b) s = (if rs_exited s then None else open_barrier b s)"

primrec schedule :: "run_env \<Rightarrow> choice list \<Rightarrow> run_state \<Rightarrow> run_state option" where
  "schedule env [] s = Some s"
| "schedule env (c # cs) s = Option.bind (take_turn env c s) (schedule env cs)"

lemma schedule_runs: "schedule env cs s = Some s' \<Longrightarrow> (run_step env)\<^sup>*\<^sup>* s s'"
proof (induction cs arbitrary: s)
  case (Cons c cs)
  then obtain s1 where s1: "take_turn env c s = Some s1" "schedule env cs s1 = Some s'" by (auto split: bind_splits)
  have "run_step env s s1" using s1(1) by (cases c) (auto split: if_splits intro: run_step.intros simp: not_le)
  then show ?case using Cons.IH [OF s1(2)] by (rule converse_rtranclp_into_rtranclp)
qed simp

lemma stuckI:
  assumes "\<not> rs_exited s" and "rs_manager s = M_Endpass \<or> rs_manager s = M_Aborted"
    and "\<And>t. t \<in> set (rs_targets s) \<Longrightarrow> waits_at (tr_pc t) \<noteq> None"
    and "\<exists>t\<in>set (rs_targets s). waits_at (tr_pc t) = Some Startpass \<or> waits_at (tr_pc t) = Some Waitforcleanup"
  shows "stuck env s"
proof -
  have "\<not> run_step env s s'" for s'
  proof
    assume "run_step env s s'"
    then show False
    proof cases
      case (target i)
      then have "waits_at (tr_pc (rs_targets s ! i)) \<noteq> None" using assms(3) nth_mem by blast
      then show ?thesis using target by (cases "tr_pc (rs_targets s ! i)") (simp_all add: target_step_def waits_at_def)
    next
      case manager
      then show ?thesis using assms(2) by (auto simp: manager_step_def)
    next
      case (barrier b)
      then show ?thesis using assms(2,4) by (auto simp: open_barrier_def manager_waits_at_def split: if_splits)
    qed
  qed
  then show ?thesis using assms(1,2) by (auto simp: stuck_def)
qed

lemmas schedule_simps = target_step_def do_pass_def after_pass_def Let_def put_target_def goto_def manager_step_def
  show_pass_results_def average_pass_def open_barrier_def waits_at_def manager_waits_at_def released_def manager_released_def

text \<open>C40: When a pass stops one of two targets (as with stop-on-error) and not the other, and there are passes left, the run
  can hang: the stopped target and the manager wait at the barrier behind a pass, while the other target, which
  sees that the run is complete, goes on to the barrier before the next pass.\<close>

theorem stopped_target_hangs:
  assumes "po_abort (env_pass env 0 1)" and "\<not> po_abort (env_pass env 1 1)"
    and "\<And>i. \<not> po_canceled (env_pass env i 1)" and "\<And>p. \<not> env_reopen_fails env 1 p" and "\<not> env_run_time env" and "2 \<le> passes"
  shows "\<exists>s. (run_step env)\<^sup>*\<^sup>* (run_start 2 passes) s \<and> stuck env s"
proof -
  let ?cs = "[Barrier Startpass, Target 0, Target 0, Target 1, Target 1, Barrier Endpass, Manager, Barrier Display,
    Target 0, Target 0, Target 1, Barrier Startpass, Target 1, Target 1]"
  obtain cs s where s: "schedule env cs (run_start 2 passes) = Some s"
    "map tr_pc (rs_targets s) = [F_Endpass, T_Startpass] \<or> map tr_pc (rs_targets s) = [F_Endpass, F_Startpass]"
    "rs_manager s = M_Endpass" "\<not> rs_exited s"
  proof (cases "passes = 2")
    case True
    have "\<exists>s. schedule env (?cs @ [Target 1]) (run_start 2 passes) = Some s \<and> map tr_pc (rs_targets s) = [F_Endpass, F_Startpass]
        \<and> rs_manager s = M_Endpass \<and> \<not> rs_exited s"
      using assms(1-5) True by (simp add: run_start_def schedule_simps numeral_2_eq_2)
    then show thesis by (elim exE conjE) (rule that, assumption, simp_all)
  next
    case False
    then have "2 < passes" using assms(6) by simp
    then have "\<exists>s. schedule env ?cs (run_start 2 passes) = Some s \<and> map tr_pc (rs_targets s) = [F_Endpass, T_Startpass]
        \<and> rs_manager s = M_Endpass \<and> \<not> rs_exited s"
      using assms(1-5) by (simp add: run_start_def schedule_simps numeral_2_eq_2)
    then show thesis by (elim exE conjE) (rule that, assumption, simp_all)
  qed
  have "stuck env s" by (rule stuckI) (use s(2-4) in \<open>auto simp: map_eq_Cons_conv waits_at_def\<close>)
  then show ?thesis using schedule_runs [OF s(1)] by blast
qed

definition stopping_run_env :: run_env where
  "stopping_run_env = sample_run_env\<lparr>env_pass := (\<lambda>i p. (sample_pass i p)\<lparr>po_abort := (i = 0 \<and> p = 1)\<rparr>)\<rparr>"

theorem stopped_target_hangs_witness:
  "\<exists>s. (run_step stopping_run_env)\<^sup>*\<^sup>* (run_start 2 2) s \<and> stuck stopping_run_env s"
  by (rule stopped_target_hangs) (simp_all add: stopping_run_env_def sample_run_env_def sample_pass_def)

text \<open>
  A target that cannot be reopened for its next pass hangs the run in the same way: all targets leave before the pass,
  and wait at the barrier before a pass that the manager has passed already.
\<close>

lemma reopen_failure_hangs:
  assumes "\<not> po_abort (env_pass env 0 1)" and "\<not> po_canceled (env_pass env 0 1)" and "env_reopen env 0" and "env_reopen_fails env 0 2"
    and "\<not> env_run_time env" and "2 \<le> passes"
  shows "\<exists>s. (run_step env)\<^sup>*\<^sup>* (run_start 1 passes) s \<and> stuck env s"
proof -
  let ?cs = "[Barrier Startpass, Target 0, Target 0, Barrier Endpass, Manager, Barrier Display, Target 0, Barrier Startpass,
    Target 0, Target 0, Target 0]"
  obtain s where s: "schedule env ?cs (run_start 1 passes) = Some s" "map tr_pc (rs_targets s) = [F_Startpass]"
    "rs_manager s = M_Endpass" "\<not> rs_exited s"
    using assms by (simp add: run_start_def schedule_simps)
  have "stuck env s" by (rule stuckI) (use s(2-4) in \<open>auto simp: map_eq_Cons_conv waits_at_def\<close>)
  then show ?thesis using schedule_runs [OF s(1)] by blast
qed

end
