(* ===== verification/Xni_Tcp.thy ===== *)
theory Xni_Tcp
  imports Xdd_Prelude
begin

text \<open>
  The TCP transport of XNI (\<^verbatim>\<open>xni/xni_tcp.c\<close>): contexts with registered buffers, connections of several
  sockets, and the calls by which many threads send and receive buffers over them.  The calls are split
  where they take a lock or call the system; the threads of both hosts interleave as a step relation.  A socket
  is a stream of bytes, which the system takes and gives in pieces of any size.
\<close>

subsection \<open>Contexts, connections and buffers\<close>

record tcp_target_buffer =
  tb_data :: "u8 list"
  tb_header :: "u8 list"
  target_offset :: u64
  data_length :: int
  tb_busy :: bool

record tcp_socket =
  so_busy :: bool
  so_eof :: bool

record tcp_control_block =
  num_sockets :: nat
  congestion :: string

text \<open>One host: its registered buffers and the sockets of its connection.\<close>

record tcp_side =
  control_block :: tcp_control_block
  registered_buffers :: "tcp_target_buffer list"
  sockets :: "tcp_socket list"

definition TCP_DATA_MESSAGE_HEADER_SIZE :: nat where
  "TCP_DATA_MESSAGE_HEADER_SIZE = 12"

abbreviation (input) XNI_OK :: int where "XNI_OK \<equiv> 0"
abbreviation (input) XNI_EOF :: int where "XNI_EOF \<equiv> 1"
abbreviation (input) XNI_ERR :: int where "XNI_ERR \<equiv> 32768"
abbreviation (input) XNI_TCP_DEFAULT_NUM_SOCKETS :: int where "XNI_TCP_DEFAULT_NUM_SOCKETS \<equiv> 0"

definition xni_allocate_tcp_control_block :: "int \<Rightarrow> string \<Rightarrow> tcp_control_block option" where
  "xni_allocate_tcp_control_block n cong =
     (if n < 1 \<and> n \<noteq> XNI_TCP_DEFAULT_NUM_SOCKETS then None
      else if 16 \<le> length cong then None
      else Some \<lparr>num_sockets = nat n, congestion = cong\<rparr>)"

definition tcp_context_create :: "tcp_control_block \<Rightarrow> tcp_side" where
  "tcp_context_create cb = \<lparr>control_block = cb, registered_buffers = [], sockets = []\<rparr>"

text \<open>The buffer has \<open>reserved\<close> bytes before its data; the header takes the last of them.\<close>

definition tcp_register_buffer :: "u8 list \<Rightarrow> nat \<Rightarrow> tcp_side \<Rightarrow> int \<times> tcp_side" where
  "tcp_register_buffer buf reserved h =
     (if num_sockets (control_block h) \<le> length (registered_buffers h) then (XNI_ERR, h)
      else if reserved < TCP_DATA_MESSAGE_HEADER_SIZE then (XNI_ERR, h)
      else (XNI_OK, h\<lparr>registered_buffers := registered_buffers h @
              [\<lparr>tb_data = drop reserved buf, tb_header = drop (reserved - TCP_DATA_MESSAGE_HEADER_SIZE) (take reserved buf),
                target_offset = 0, data_length = -1, tb_busy = False\<rparr>]\<rparr>))"

text \<open>The sockets of a new connection.  Those of the accepting side can reach the end of file.\<close>

definition new_sockets :: "bool \<Rightarrow> tcp_side \<Rightarrow> tcp_side" where
  "new_sockets accepted h = h\<lparr>sockets := replicate (num_sockets (control_block h)) \<lparr>so_busy = False, so_eof = \<not> accepted\<rparr>\<rparr>"

text \<open>What the system answers to the calls that set up a connection, for each socket or port.\<close>

record tcp_calls =
  socket_works :: "nat \<Rightarrow> bool"
  congestion_works :: "string \<Rightarrow> nat \<Rightarrow> bool"
  bind_works :: "16 word \<Rightarrow> bool"
  listen_works :: "nat \<Rightarrow> bool"
  accept_works :: "nat \<Rightarrow> bool"
  connect_works :: "16 word \<Rightarrow> bool"

definition socket_made :: "tcp_calls \<Rightarrow> tcp_control_block \<Rightarrow> nat \<Rightarrow> bool" where
  "socket_made c cb i \<longleftrightarrow> socket_works c i \<and> (congestion cb = [] \<or> congestion_works c (congestion cb) i)"

definition tcp_accept_connection :: "tcp_calls \<Rightarrow> int \<Rightarrow> tcp_side \<Rightarrow> int \<times> tcp_side" where
  "tcp_accept_connection c port h =
     (let n = num_sockets (control_block h)
      in if \<not> list_all (\<lambda>i. socket_made c (control_block h) i \<and> bind_works c (word_of_int (port + int i)) \<and> listen_works c i) [0..<n] then (XNI_ERR, h)
         else if \<not> list_all (accept_works c) [0..<n] then (XNI_ERR, h)
         else (XNI_OK, new_sockets True h))"

definition tcp_connect :: "tcp_calls \<Rightarrow> int \<Rightarrow> tcp_side \<Rightarrow> int \<times> tcp_side" where
  "tcp_connect c port h =
     (if \<not> list_all (\<lambda>i. socket_made c (control_block h) i \<and> connect_works c (word_of_int (port + int i))) [0..<num_sockets (control_block h)]
      then (XNI_ERR, h) else (XNI_OK, new_sockets False h))"

text \<open>The first free one, as the loops under the mutex find it.\<close>

definition free_index :: "('a \<Rightarrow> bool) \<Rightarrow> 'a list \<Rightarrow> nat option" where
  "free_index busy xs = find (\<lambda>i. \<not> busy (xs ! i)) [0..<length xs]"

definition on_buffer :: "nat \<Rightarrow> (tcp_target_buffer \<Rightarrow> tcp_target_buffer) \<Rightarrow> tcp_side \<Rightarrow> tcp_side" where
  "on_buffer b f h = h\<lparr>registered_buffers := (registered_buffers h)[b := f (registered_buffers h ! b)]\<rparr>"

definition on_socket :: "nat \<Rightarrow> (tcp_socket \<Rightarrow> tcp_socket) \<Rightarrow> tcp_side \<Rightarrow> tcp_side" where
  "on_socket i f h = h\<lparr>sockets := (sockets h)[i := f (sockets h ! i)]\<rparr>"

text \<open>\<open>None\<close>: the caller waits at the condition variable.\<close>

definition tcp_request_target_buffer :: "tcp_side \<Rightarrow> (nat \<times> tcp_side) option" where
  "tcp_request_target_buffer h =
     map_option (\<lambda>b. (b, on_buffer b (\<lambda>t. t\<lparr>tb_busy := True\<rparr>) h)) (free_index tb_busy (registered_buffers h))"

definition free_buffer :: "nat \<Rightarrow> tcp_side \<Rightarrow> tcp_side" where
  "free_buffer b = on_buffer b (\<lambda>t. t\<lparr>tb_busy := False\<rparr>)"

definition tcp_release_target_buffer :: "nat \<Rightarrow> tcp_side \<Rightarrow> tcp_side" where
  "tcp_release_target_buffer b = on_buffer b (\<lambda>t. t\<lparr>target_offset := 0, data_length := -1, tb_busy := False\<rparr>)"

text \<open>Sending: the header in memory, a free socket, the bytes behind the header.\<close>

definition encode_tcp_header :: "tcp_target_buffer \<Rightarrow> tcp_target_buffer" where
  "encode_tcp_header t = t\<lparr>tb_header := le_bytes 8 (uint (target_offset t)) @ le_bytes 4 (data_length t)\<rparr>"

definition claim_socket :: "tcp_side \<Rightarrow> (nat \<times> tcp_side) option" where
  "claim_socket h = map_option (\<lambda>i. (i, on_socket i (\<lambda>k. k\<lparr>so_busy := True\<rparr>) h)) (free_index so_busy (sockets h))"

definition free_socket :: "nat \<Rightarrow> tcp_side \<Rightarrow> tcp_side" where
  "free_socket i = on_socket i (\<lambda>k. k\<lparr>so_busy := False\<rparr>)"

definition end_socket :: "nat \<Rightarrow> tcp_side \<Rightarrow> tcp_side" where
  "end_socket i = on_socket i (\<lambda>k. k\<lparr>so_busy := False, so_eof := True\<rparr>)"

definition message_bytes :: "tcp_target_buffer \<Rightarrow> u8 list" where
  "message_bytes t = tb_header t @ take (nat (data_length t)) (tb_data t)"

text \<open>Receiving: sockets that \<^verbatim>\<open>select\<close> is asked for, and the header.\<close>

definition open_sockets :: "tcp_side \<Rightarrow> nat list" where
  "open_sockets h = filter (\<lambda>i. \<not> so_eof (sockets h ! i)) [0..<length (sockets h)]"

definition claim_ready :: "nat list \<Rightarrow> tcp_side \<Rightarrow> (nat \<times> tcp_side) option" where
  "claim_ready ready h =
     map_option (\<lambda>i. (i, on_socket i (\<lambda>k. k\<lparr>so_busy := True\<rparr>) h))
       (find (\<lambda>i. i \<in> set ready \<and> \<not> so_busy (sockets h ! i) \<and> \<not> so_eof (sockets h ! i)) [0..<length (sockets h)])"

definition header_offset :: "u8 list \<Rightarrow> u64" where
  "header_offset bs = word_of_int (le_value (take 8 bs))"

definition header_length :: "u8 list \<Rightarrow> nat" where
  "header_length bs = nat (le_value (take 4 (drop 8 bs)))"

text \<open>Bytes that arrive at a position in memory; \<open>None\<close> is an access behind its end.\<close>

definition store_at :: "nat \<Rightarrow> u8 list \<Rightarrow> u8 list \<Rightarrow> u8 list option" where
  "store_at k bs mem = (if length mem < k + length bs then None else Some (take k mem @ bs @ drop (k + length bs) mem))"

subsection \<open>Threads of both hosts\<close>

text \<open>
  Where a thread is in its call: a sender has a buffer to fill, waits for a socket, or has sent a number of bytes; a
  receiver has a buffer, has collected the sockets to select from, has those that are ready, has received a part of a header or of the data, or has a full buffer.
\<close>

datatype send_job = S_Idle | S_Fill nat | S_Claim nat | S_Send nat nat nat | S_Failed nat nat

datatype recv_job = R_Idle | R_Select nat | R_Wait nat "nat list" | R_Ready nat "nat list" | R_Header nat nat nat | R_Data nat nat u64 nat nat | R_Full nat

type_synonym message = "u64 \<times> u8 list"

text \<open>The message in a buffer.\<close>

definition queued :: "tcp_target_buffer \<Rightarrow> message" where
  "queued tb = (target_offset tb, take (nat (data_length tb)) (tb_data tb))"

text \<open>
  The state of both hosts and of the network between them.  The last two members record, for each
  socket, the messages whose sending has begun and those received; the program does not have them.
\<close>

record xni_net =
  src :: tcp_side
  dst :: tcp_side
  wire :: "nat \<Rightarrow> u8 list"
  closed :: bool
  sender :: "nat \<Rightarrow> send_job"
  receiver :: "nat \<Rightarrow> recv_job"
  sent_log :: "nat \<Rightarrow> message list"
  recv_log :: "nat \<Rightarrow> message list"

definition buffer_of :: "tcp_side \<Rightarrow> nat \<Rightarrow> tcp_target_buffer" where
  "buffer_of h b = registered_buffers h ! b"

text \<open>Two hosts that have registered their buffers and are connected.\<close>

definition register_buffers :: "(u8 list \<times> nat) list \<Rightarrow> tcp_side \<Rightarrow> tcp_side" where
  "register_buffers bufs h = fold (\<lambda>(buf, reserved) h. snd (tcp_register_buffer buf reserved h)) bufs h"

definition tcp_connected :: "tcp_side \<Rightarrow> tcp_side \<Rightarrow> xni_net" where
  "tcp_connected a b = \<lparr>src = a, dst = b, wire = \<lambda>i. [], closed = False, sender = \<lambda>t. S_Idle, receiver = \<lambda>t. R_Idle,
     sent_log = \<lambda>i. [], recv_log = \<lambda>i. []\<rparr>"

inductive tcp_step :: "bool \<Rightarrow> xni_net \<Rightarrow> xni_net \<Rightarrow> bool" for faults where
  request: "sender s t = S_Idle \<Longrightarrow> tcp_request_target_buffer (src s) = Some (b, h) \<Longrightarrow>
    tcp_step faults s (s\<lparr>src := h, sender := (sender s)(t := S_Fill b)\<rparr>)"
| fill: "sender s t = S_Fill b \<Longrightarrow> length d = length (tb_data (buffer_of (src s) b)) \<Longrightarrow> n \<le> int (length d) \<Longrightarrow> - (2 ^ 31) \<le> n \<Longrightarrow> n < 2 ^ 31 \<Longrightarrow>
    tcp_step faults s (s\<lparr>src := on_buffer b (\<lambda>tb. tb\<lparr>tb_data := d, target_offset := off, data_length := n\<rparr>) (src s)\<rparr>)"
| send: "sender s t = S_Fill b \<Longrightarrow> 1 \<le> data_length (buffer_of (src s) b) \<Longrightarrow>
    tcp_step faults s (s\<lparr>src := on_buffer b encode_tcp_header (src s), sender := (sender s)(t := S_Claim b)\<rparr>)"
| claim: "sender s t = S_Claim b \<Longrightarrow> claim_socket (src s) = Some (i, h) \<Longrightarrow> \<not> closed s \<Longrightarrow>
    tcp_step faults s (s\<lparr>src := h, sender := (sender s)(t := S_Send b i 0),
      sent_log := (sent_log s)(i := sent_log s i @ [queued (buffer_of h b)])\<rparr>)"
| sent: "sender s t = S_Send b i k \<Longrightarrow> 1 \<le> cnt \<Longrightarrow> k + cnt \<le> length (message_bytes (buffer_of (src s) b)) \<Longrightarrow>
    tcp_step faults s (s\<lparr>wire := (wire s)(i := wire s i @ take cnt (drop k (message_bytes (buffer_of (src s) b)))),
      sender := (sender s)(t := S_Send b i (k + cnt))\<rparr>)"
| send_done: "sender s t = S_Send b i k \<Longrightarrow> k = length (message_bytes (buffer_of (src s) b)) \<Longrightarrow>
    tcp_step faults s (s\<lparr>src := free_buffer b (free_socket i (src s)), sender := (sender s)(t := S_Idle)\<rparr>)"
| send_error: "faults \<Longrightarrow> sender s t = S_Send b i k \<Longrightarrow>
    tcp_step faults s (s\<lparr>sender := (sender s)(t := S_Failed b i)\<rparr>)"
| close: "(\<forall>t. sender s t = S_Idle \<or> (\<exists>b i. sender s t = S_Failed b i)) \<Longrightarrow> tcp_step faults s (s\<lparr>closed := True\<rparr>)"
| grab: "receiver s t = R_Idle \<Longrightarrow> tcp_request_target_buffer (dst s) = Some (b, h) \<Longrightarrow>
    tcp_step faults s (s\<lparr>dst := h, receiver := (receiver s)(t := R_Select b)\<rparr>)"
| no_sockets: "receiver s t = R_Select b \<Longrightarrow> open_sockets (dst s) = [] \<Longrightarrow>
    tcp_step faults s (s\<lparr>dst := free_buffer b (dst s), receiver := (receiver s)(t := R_Idle)\<rparr>)"
| collect: "receiver s t = R_Select b \<Longrightarrow> open_sockets (dst s) \<noteq> [] \<Longrightarrow>
    tcp_step faults s (s\<lparr>receiver := (receiver s)(t := R_Wait b (open_sockets (dst s)))\<rparr>)"
| select: "receiver s t = R_Wait b fds \<Longrightarrow> ready \<noteq> [] \<Longrightarrow> set ready \<subseteq> {i \<in> set fds. wire s i \<noteq> [] \<or> closed s} \<Longrightarrow>
    tcp_step faults s (s\<lparr>receiver := (receiver s)(t := R_Ready b ready)\<rparr>)"
| select_error: "faults \<Longrightarrow> receiver s t = R_Wait b fds \<Longrightarrow>
    tcp_step faults s (s\<lparr>dst := free_buffer b (dst s), receiver := (receiver s)(t := R_Idle)\<rparr>)"
| all_busy: "receiver s t = R_Ready b ready \<Longrightarrow> claim_ready ready (dst s) = None \<Longrightarrow>
    tcp_step faults s (s\<lparr>receiver := (receiver s)(t := R_Select b)\<rparr>)"
| ready: "receiver s t = R_Ready b ready \<Longrightarrow> claim_ready ready (dst s) = Some (i, h) \<Longrightarrow>
    tcp_step faults s (s\<lparr>dst := h, receiver := (receiver s)(t := R_Header b i 0)\<rparr>)"
| recv_header: "receiver s t = R_Header b i k \<Longrightarrow> k < TCP_DATA_MESSAGE_HEADER_SIZE \<Longrightarrow> 1 \<le> cnt \<Longrightarrow>
    cnt \<le> min (TCP_DATA_MESSAGE_HEADER_SIZE - k) (length (wire s i)) \<Longrightarrow> store_at k (take cnt (wire s i)) (tb_header (buffer_of (dst s) b)) = Some m \<Longrightarrow>
    tcp_step faults s (s\<lparr>dst := on_buffer b (\<lambda>tb. tb\<lparr>tb_header := m\<rparr>) (dst s), wire := (wire s)(i := drop cnt (wire s i)),
      receiver := (receiver s)(t := R_Header b i (k + cnt))\<rparr>)"
| header_eof: "receiver s t = R_Header b i k \<Longrightarrow> k < TCP_DATA_MESSAGE_HEADER_SIZE \<Longrightarrow> wire s i = [] \<Longrightarrow> closed s \<Longrightarrow>
    tcp_step faults s (s\<lparr>dst := free_buffer b (end_socket i (dst s)), receiver := (receiver s)(t := R_Idle)\<rparr>)"
| header_done: "receiver s t = R_Header b i TCP_DATA_MESSAGE_HEADER_SIZE \<Longrightarrow>
    tcp_step faults s (s\<lparr>receiver := (receiver s)(t := R_Data b i (header_offset (tb_header (buffer_of (dst s) b)))
      (header_length (tb_header (buffer_of (dst s) b))) 0)\<rparr>)"
| recv_data: "receiver s t = R_Data b i off n k \<Longrightarrow> k < n \<Longrightarrow> 1 \<le> cnt \<Longrightarrow> cnt \<le> min (n - k) (length (wire s i)) \<Longrightarrow>
    store_at k (take cnt (wire s i)) (tb_data (buffer_of (dst s) b)) = Some m \<Longrightarrow>
    tcp_step faults s (s\<lparr>dst := on_buffer b (\<lambda>tb. tb\<lparr>tb_data := m\<rparr>) (dst s), wire := (wire s)(i := drop cnt (wire s i)),
      receiver := (receiver s)(t := R_Data b i off n (k + cnt))\<rparr>)"
| recv_done: "receiver s t = R_Data b i off n n \<Longrightarrow>
    tcp_step faults s (s\<lparr>dst := free_socket i (on_buffer b (\<lambda>tb. tb\<lparr>target_offset := off, data_length := int n\<rparr>) (dst s)),
      receiver := (receiver s)(t := R_Full b),
      recv_log := (recv_log s)(i := recv_log s i @ [(off, take n (tb_data (buffer_of (dst s) b)))])\<rparr>)"
| data_eof: "receiver s t = R_Data b i off n k \<Longrightarrow> k < n \<Longrightarrow> wire s i = [] \<Longrightarrow> closed s \<Longrightarrow>
    tcp_step faults s (s\<lparr>dst := free_buffer b (free_socket i (dst s)), receiver := (receiver s)(t := R_Idle)\<rparr>)"
| recv_header_error: "faults \<Longrightarrow> receiver s t = R_Header b i k \<Longrightarrow>
    tcp_step faults s (s\<lparr>dst := free_buffer b (free_socket i (dst s)), receiver := (receiver s)(t := R_Idle)\<rparr>)"
| recv_data_error: "faults \<Longrightarrow> receiver s t = R_Data b i off n k \<Longrightarrow>
    tcp_step faults s (s\<lparr>dst := free_buffer b (free_socket i (dst s)), receiver := (receiver s)(t := R_Idle)\<rparr>)"
| release: "receiver s t = R_Full b \<Longrightarrow>
    tcp_step faults s (s\<lparr>dst := tcp_release_target_buffer b (dst s), receiver := (receiver s)(t := R_Idle)\<rparr>)"

subsection \<open>Buffers and sockets are held by one thread\<close>

named_theorems xni_simps \<open>reading the members of a host after an operation\<close>

definition buf_busy :: "tcp_side \<Rightarrow> nat \<Rightarrow> bool" where
  "buf_busy h b \<longleftrightarrow> b < length (registered_buffers h) \<and> tb_busy (buffer_of h b)"

definition sock_busy :: "tcp_side \<Rightarrow> nat \<Rightarrow> bool" where
  "sock_busy h i \<longleftrightarrow> i < length (sockets h) \<and> so_busy (sockets h ! i)"

definition eof_at :: "tcp_side \<Rightarrow> nat \<Rightarrow> bool" where
  "eof_at h i \<longleftrightarrow> i < length (sockets h) \<and> so_eof (sockets h ! i)"

text \<open>What a thread holds is marked busy, and no two threads hold the same.\<close>

definition exclusive :: "('t \<Rightarrow> nat option) \<Rightarrow> (nat \<Rightarrow> bool) \<Rightarrow> bool" where
  "exclusive held busy \<longleftrightarrow> (\<forall>t r. held t = Some r \<longrightarrow> busy r) \<and> (\<forall>t u r. held t = Some r \<longrightarrow> held u = Some r \<longrightarrow> t = u)"

lemma exclusive_busy: "exclusive held busy \<Longrightarrow> held t = Some r \<Longrightarrow> busy r"
  by (simp add: exclusive_def)

lemma exclusive_unique: "exclusive held busy \<Longrightarrow> held t = Some r \<Longrightarrow> held u = Some r \<Longrightarrow> t = u"
  by (simp add: exclusive_def)

lemma exclusive_same: "exclusive held busy \<Longrightarrow> held t = x \<Longrightarrow> exclusive (held(t := x)) busy"
  by (simp add: fun_upd_idem)

text \<open>
  What a client of a pool relies on: the one it takes was free and is busy after it, and giving
  one back frees this one alone.
\<close>

locale pool =
  fixes acquire :: "'h \<Rightarrow> (nat \<times> 'h) option"
    and give :: "nat \<Rightarrow> 'h \<Rightarrow> 'h"
    and busy :: "'h \<Rightarrow> nat \<Rightarrow> bool"
  assumes acquire_free: "acquire h = Some (r, h') \<Longrightarrow> \<not> busy h r"
    and acquire_busy: "acquire h = Some (r, h') \<Longrightarrow> busy h' = (busy h)(r := True)"
    and give_busy: "busy (give r h) = (busy h)(r := False)"
begin

lemma acquire_exclusive:
  assumes "exclusive held (busy h)" and "acquire h = Some (r, h')"
  shows "exclusive (held(t := Some r)) (busy h')"
proof -
  have "held u \<noteq> Some r" for u using assms acquire_free [OF assms(2)] by (auto simp: exclusive_def)
  then show ?thesis using assms(1) by (auto simp: exclusive_def acquire_busy [OF assms(2)])
qed

lemma give_exclusive:
  assumes "exclusive held (busy h)" and "held t = Some r"
  shows "exclusive (held(t := None)) (busy (give r h))"
  using assms by (auto simp: exclusive_def give_busy)

end

lemma host_simps [xni_simps]:
  "length (registered_buffers (on_buffer b f h)) = length (registered_buffers h)" "sockets (on_buffer b f h) = sockets h"
  "registered_buffers (on_socket i g h) = registered_buffers h" "length (sockets (on_socket i g h)) = length (sockets h)"
  "buffer_of (on_socket i g h) = buffer_of h" "sock_busy (on_buffer b f h) = sock_busy h" "eof_at (on_buffer b f h) = eof_at h"
  "buf_busy (on_socket i g h) = buf_busy h" "open_sockets (on_buffer b f h) = open_sockets h"
  by (auto simp: on_buffer_def on_socket_def buffer_of_def sock_busy_def eof_at_def buf_busy_def open_sockets_def fun_eq_iff)

lemma buffer_of_on_buffer [xni_simps]:
  "buffer_of (on_buffer b f h) c = (if c = b \<and> b < length (registered_buffers h) then f (buffer_of h b) else buffer_of h c)"
  by (cases "b < length (registered_buffers h)") (simp_all add: on_buffer_def buffer_of_def nth_list_update not_less list_update_beyond)

lemma buf_busy_on_buffer:
  "buf_busy (on_buffer b f h) = (buf_busy h)(b := b < length (registered_buffers h) \<and> tb_busy (f (buffer_of h b)))"
  by (auto simp: buf_busy_def xni_simps fun_eq_iff)

lemma sock_busy_on_socket:
  "sock_busy (on_socket i g h) = (sock_busy h)(i := i < length (sockets h) \<and> so_busy (g (sockets h ! i)))"
  by (auto simp: sock_busy_def on_socket_def nth_list_update fun_eq_iff)

lemma eof_at_on_socket:
  "eof_at (on_socket i g h) = (eof_at h)(i := i < length (sockets h) \<and> so_eof (g (sockets h ! i)))"
  by (auto simp: eof_at_def on_socket_def nth_list_update fun_eq_iff)

lemma buf_busy_keep: "(\<And>x. tb_busy (f x) = tb_busy x) \<Longrightarrow> buf_busy (on_buffer b f h) = buf_busy h"
  by (auto simp: buf_busy_on_buffer buf_busy_def fun_eq_iff)

lemma free_index_Some: "free_index busy xs = Some r \<Longrightarrow> r < length xs \<and> \<not> busy (xs ! r)"
  by (auto simp: free_index_def find_Some_iff)

lemma tcp_request_target_buffer_Some:
  "tcp_request_target_buffer h = Some (b, h') \<longleftrightarrow>
     free_index tb_busy (registered_buffers h) = Some b \<and> h' = on_buffer b (\<lambda>t. t\<lparr>tb_busy := True\<rparr>) h"
  by (auto simp: tcp_request_target_buffer_def)

lemma claim_socket_Some:
  "claim_socket h = Some (i, h') \<longleftrightarrow> free_index so_busy (sockets h) = Some i \<and> h' = on_socket i (\<lambda>k. k\<lparr>so_busy := True\<rparr>) h"
  by (auto simp: claim_socket_def)

lemma claim_ready_Some:
  "claim_ready ready h = Some (i, h') \<Longrightarrow> i < length (sockets h) \<and> \<not> so_busy (sockets h ! i) \<and> \<not> so_eof (sockets h ! i) \<and>
     h' = on_socket i (\<lambda>k. k\<lparr>so_busy := True\<rparr>) h"
  by (auto simp: claim_ready_def find_Some_iff)

interpretation buffers: pool tcp_request_target_buffer free_buffer buf_busy
  by unfold_locales (auto simp: tcp_request_target_buffer_Some free_buffer_def buf_busy_on_buffer buf_busy_def buffer_of_def fun_eq_iff dest!: free_index_Some)

interpretation released_buffers: pool tcp_request_target_buffer tcp_release_target_buffer buf_busy
  by unfold_locales (auto simp: buffers.acquire_free buffers.acquire_busy tcp_release_target_buffer_def buf_busy_on_buffer)

interpretation send_sockets: pool claim_socket free_socket sock_busy
  by unfold_locales (auto simp: claim_socket_Some free_socket_def sock_busy_on_socket sock_busy_def fun_eq_iff dest!: free_index_Some)

interpretation ready_sockets: pool "claim_ready ready" free_socket sock_busy for ready
  by unfold_locales (auto simp: free_socket_def sock_busy_on_socket sock_busy_def on_socket_def nth_list_update fun_eq_iff dest!: claim_ready_Some)

interpretation ended_sockets: pool "claim_ready ready" end_socket sock_busy for ready
  by unfold_locales (auto simp: ready_sockets.acquire_free ready_sockets.acquire_busy end_socket_def sock_busy_on_socket)

text \<open>What a thread holds at each point of its call.\<close>

fun send_buffer :: "send_job \<Rightarrow> nat option" where
  "send_buffer S_Idle = None"
| "send_buffer (S_Fill b) = Some b"
| "send_buffer (S_Claim b) = Some b"
| "send_buffer (S_Send b i k) = Some b"
| "send_buffer (S_Failed b i) = Some b"

fun send_socket :: "send_job \<Rightarrow> nat option" where
  "send_socket (S_Send b i k) = Some i"
| "send_socket (S_Failed b i) = Some i"
| "send_socket _ = None"

fun recv_buffer :: "recv_job \<Rightarrow> nat option" where
  "recv_buffer R_Idle = None"
| "recv_buffer (R_Select b) = Some b"
| "recv_buffer (R_Wait b fds) = Some b"
| "recv_buffer (R_Ready b ready) = Some b"
| "recv_buffer (R_Header b i k) = Some b"
| "recv_buffer (R_Data b i off n k) = Some b"
| "recv_buffer (R_Full b) = Some b"

fun recv_socket :: "recv_job \<Rightarrow> nat option" where
  "recv_socket (R_Header b i k) = Some i"
| "recv_socket (R_Data b i off n k) = Some i"
| "recv_socket _ = None"

definition one_holder :: "xni_net \<Rightarrow> bool" where
  "one_holder s \<longleftrightarrow>
     exclusive (send_buffer \<circ> sender s) (buf_busy (src s)) \<and> exclusive (send_socket \<circ> sender s) (sock_busy (src s)) \<and>
     exclusive (recv_buffer \<circ> receiver s) (buf_busy (dst s)) \<and> exclusive (recv_socket \<circ> receiver s) (sock_busy (dst s))"

lemma request_keeps_sockets:
  "tcp_request_target_buffer h = Some (b, h') \<Longrightarrow> sock_busy h' = sock_busy h"
  by (auto simp: tcp_request_target_buffer_Some xni_simps)

lemma claim_keeps_buffers:
  "claim_socket h = Some (i, h') \<Longrightarrow> buf_busy h' = buf_busy h" "claim_ready ready h = Some (i, h') \<Longrightarrow> buf_busy h' = buf_busy h"
  by (auto simp: claim_socket_Some xni_simps dest: claim_ready_Some)

lemma free_keeps [xni_simps]:
  "sock_busy (free_buffer b h) = sock_busy h" "sock_busy (tcp_release_target_buffer b h) = sock_busy h"
  "buf_busy (free_socket i h) = buf_busy h" "buf_busy (end_socket i h) = buf_busy h"
  "buf_busy (on_buffer b encode_tcp_header h) = buf_busy h"
  by (simp_all add: free_buffer_def tcp_release_target_buffer_def free_socket_def end_socket_def xni_simps buf_busy_keep encode_tcp_header_def)

lemmas holder_rules = buffers.acquire_exclusive buffers.give_exclusive released_buffers.give_exclusive
  send_sockets.acquire_exclusive send_sockets.give_exclusive ready_sockets.acquire_exclusive ended_sockets.give_exclusive exclusive_same

lemma one_holder_step:
  assumes "tcp_step faults s s'" and "one_holder s"
  shows "one_holder s'"
  using assms
  by (induction rule: tcp_step.induct)
    (simp_all add: one_holder_def fun_upd_comp xni_simps buf_busy_keep request_keeps_sockets claim_keeps_buffers holder_rules, (blast intro: holder_rules)+)

subsection \<open>Messages as bytes\<close>

definition enc :: "message \<Rightarrow> u8 list" where
  "enc m = le_bytes 8 (uint (fst m)) @ le_bytes 4 (int (length (snd m))) @ snd m"

definition stream :: "message list \<Rightarrow> u8 list" where
  "stream ms = concat (map enc ms)"

lemma stream_simps [simp]: "stream [] = []" "stream (m # ms) = enc m @ stream ms" "stream (ms @ ns) = stream ms @ stream ns"
  by (simp_all add: stream_def)

definition short :: "message list \<Rightarrow> bool" where
  "short ms \<longleftrightarrow> (\<forall>m\<in>set ms. length (snd m) < 2 ^ 32)"

lemma short_simps [simp]: "short []" "short (m # ms) \<longleftrightarrow> length (snd m) < 2 ^ 32 \<and> short ms" "short (ms @ ns) \<longleftrightarrow> short ms \<and> short ns"
  by (auto simp: short_def)

lemma le_bytes_inj: "le_bytes n v = le_bytes n w \<Longrightarrow> 0 \<le> v \<Longrightarrow> v < 256 ^ n \<Longrightarrow> 0 \<le> w \<Longrightarrow> w < 256 ^ n \<Longrightarrow> v = w"
  by (metis le_value_le_bytes mod_pos_pos_trivial)

text \<open>The length in the header separates a message from what follows it.\<close>

lemma enc_prefix_free:
  assumes "enc m @ xs = enc m' @ ys" and "length (snd m) < 2 ^ 32" "length (snd m') < 2 ^ 32"
  shows "m = m' \<and> xs = ys"
proof -
  have h: "le_bytes 8 (uint (fst m)) = le_bytes 8 (uint (fst m'))"
    "le_bytes 4 (int (length (snd m))) = le_bytes 4 (int (length (snd m')))" "snd m @ xs = snd m' @ ys"
    using assms(1) by (simp_all add: enc_def)
  have "int (length (snd m)) < 256 ^ 4" "int (length (snd m')) < 256 ^ 4" using assms(2,3) by simp_all
  then have "length (snd m) = length (snd m')" using le_bytes_inj [OF h(2)] by simp
  moreover have "fst m = fst m'" using arg_cong [OF h(1), of "\<lambda>bs. word_of_int (le_value bs) :: u64"] by (simp only: le_unsigned)
  ultimately show ?thesis using h(3) by (auto simp: prod_eq_iff)
qed

lemma enc_not_Nil [simp]: "enc m \<noteq> []"
  by (auto simp: enc_def dest: arg_cong [where f = length])

lemma stream_prefix:
  assumes "stream ms = stream ns @ rest" and "short ms" "short ns"
  shows "\<exists>ms'. ms = ns @ ms' \<and> rest = stream ms'"
  using assms
proof (induction ns arbitrary: ms)
  case Nil
  then show ?case by simp
next
  case (Cons n ns)
  then obtain m ms' where m: "ms = m # ms'" by (cases ms) (auto simp: append_eq_Cons_conv)
  then have "m = n \<and> stream ms' = stream ns @ rest"
    using Cons.prems enc_prefix_free [of m "stream ms'" n "stream ns @ rest"] by simp
  then show ?case using Cons.IH [of ms'] Cons.prems m by auto
qed

text \<open>A stream cannot end inside a header or inside the data of a message.\<close>

lemma stream_Nil [simp]: "stream ms = [] \<longleftrightarrow> ms = []"
  by (cases ms) auto

lemma length_enc: "length (enc m) = 12 + length (snd m)"
  by (simp add: enc_def)

lemma stream_cut_header: "stream ms = part \<Longrightarrow> length part < 12 \<Longrightarrow> part = []"
  by (cases ms) (auto simp: length_enc)

lemma stream_cut_data:
  assumes "stream ms = le_bytes 8 (uint off) @ le_bytes 4 (int n) @ d" and "short ms" and "n < 2 ^ 32"
  shows "n \<le> length d"
proof -
  obtain m ms' where m: "ms = m # ms'" using assms(1) by (cases ms) (auto dest: arg_cong [where f = length])
  then have h: "le_bytes 4 (int (length (snd m))) = le_bytes 4 (int n)" "snd m @ stream ms' = d"
    using assms(1) by (simp_all add: enc_def)
  have "int (length (snd m)) < 256 ^ 4" "int n < 256 ^ 4" using assms(2,3) m by simp_all
  then have "length (snd m) = n" using le_bytes_inj [OF h(1)] by simp
  then show ?thesis using h(2) by auto
qed

subsection \<open>What is under way on a socket\<close>

fun outgoing :: "tcp_side \<Rightarrow> send_job \<Rightarrow> u8 list" where
  "outgoing h (S_Send b i k) = drop k (message_bytes (buffer_of h b))"
| "outgoing h _ = []"

fun incoming :: "tcp_side \<Rightarrow> recv_job \<Rightarrow> u8 list" where
  "incoming h (R_Header b i k) = take k (tb_header (buffer_of h b))"
| "incoming h (R_Data b i off n k) = le_bytes 8 (uint off) @ le_bytes 4 (int n) @ take k (tb_data (buffer_of h b))"
| "incoming h _ = []"

definition bytes_at :: "(nat \<Rightarrow> nat option) \<Rightarrow> (nat \<Rightarrow> u8 list) \<Rightarrow> nat \<Rightarrow> u8 list" where
  "bytes_at held bytes i = (if \<exists>t. held t = Some i then bytes (THE t. held t = Some i) else [])"

lemma bytes_at_held: "exclusive held busy \<Longrightarrow> held t = Some i \<Longrightarrow> bytes_at held bytes i = bytes t"
  by (auto simp: bytes_at_def exclusive_def intro!: arg_cong [where f = bytes] the_equality)

lemma bytes_at_none: "(\<And>t. held t \<noteq> Some i) \<Longrightarrow> bytes_at held bytes i = []"
  by (simp add: bytes_at_def)

lemma bytes_at_upd:
  assumes "exclusive held busy" and "exclusive (held(t := r)) busy'" and "\<And>u. u \<noteq> t \<Longrightarrow> held u = Some i \<Longrightarrow> bytes' u = bytes u"
  shows "bytes_at (held(t := r)) bytes' i = (if r = Some i then bytes' t else if held t = Some i then [] else bytes_at held bytes i)"
proof -
  consider "r = Some i" | "r \<noteq> Some i" "\<exists>u. u \<noteq> t \<and> held u = Some i" | "r \<noteq> Some i" "\<nexists>u. u \<noteq> t \<and> held u = Some i" by blast
  then show ?thesis
  proof cases
    case 1
    then show ?thesis using bytes_at_held [OF assms(2), of t i] by simp
  next
    case 2
    then obtain u where u: "u \<noteq> t" "held u = Some i" by blast
    then have "held t \<noteq> Some i" using exclusive_unique [OF assms(1)] by blast
    then show ?thesis
      using u 2 assms(3) bytes_at_held [OF assms(1), of u i] bytes_at_held [OF assms(2), of u i] by simp
  next
    case 3
    then have "(held(t := r)) u \<noteq> Some i" for u by auto
    then have "bytes_at (held(t := r)) bytes' i = []" by (rule bytes_at_none)
    moreover have "held t \<noteq> Some i \<Longrightarrow> bytes_at held bytes i = []" using 3 by (intro bytes_at_none) metis
    ultimately show ?thesis using 3 by simp
  qed
qed

definition out_bytes :: "xni_net \<Rightarrow> nat \<Rightarrow> u8 list" where
  "out_bytes s = bytes_at (send_socket \<circ> sender s) (outgoing (src s) \<circ> sender s)"

definition in_bytes :: "xni_net \<Rightarrow> nat \<Rightarrow> u8 list" where
  "in_bytes s = bytes_at (recv_socket \<circ> receiver s) (incoming (dst s) \<circ> receiver s)"

lemma outgoing_cong:
  "(\<And>b. send_buffer j = Some b \<Longrightarrow> message_bytes (buffer_of h' b) = message_bytes (buffer_of h b)) \<Longrightarrow> outgoing h' j = outgoing h j"
  by (cases j) auto

lemma incoming_cong:
  "(\<And>b. recv_buffer j = Some b \<Longrightarrow> tb_header (buffer_of h' b) = tb_header (buffer_of h b) \<and> tb_data (buffer_of h' b) = tb_data (buffer_of h b)) \<Longrightarrow>
   incoming h' j = incoming h j"
  by (cases j) auto

lemma out_bytes_upd:
  assumes "one_holder s" "one_holder s'" and j: "sender s' = (sender s)(t := j)"
    and "\<And>u b. u \<noteq> t \<Longrightarrow> send_buffer (sender s u) = Some b \<Longrightarrow> message_bytes (buffer_of (src s') b) = message_bytes (buffer_of (src s) b)"
  shows "out_bytes s' i = (if send_socket j = Some i then outgoing (src s') j
    else if send_socket (sender s t) = Some i then [] else out_bytes s i)"
proof -
  have e: "exclusive (send_socket \<circ> sender s) (sock_busy (src s))" "exclusive ((send_socket \<circ> sender s)(t := send_socket j)) (sock_busy (src s'))"
    using assms(1,2) by (simp_all add: one_holder_def j fun_upd_comp)
  have "out_bytes s' i = bytes_at ((send_socket \<circ> sender s)(t := send_socket j)) (outgoing (src s') \<circ> (sender s)(t := j)) i"
    by (simp add: out_bytes_def j fun_upd_comp)
  also have "\<dots> = (if send_socket j = Some i then outgoing (src s') j else if send_socket (sender s t) = Some i then [] else out_bytes s i)"
    by (subst bytes_at_upd [OF e, where bytes = "outgoing (src s) \<circ> sender s"])
      (auto simp: out_bytes_def intro!: outgoing_cong assms(4))
  finally show ?thesis .
qed

lemma in_bytes_upd:
  assumes "one_holder s" "one_holder s'" and j: "receiver s' = (receiver s)(t := j)"
    and "\<And>u b. u \<noteq> t \<Longrightarrow> recv_buffer (receiver s u) = Some b \<Longrightarrow>
      tb_header (buffer_of (dst s') b) = tb_header (buffer_of (dst s) b) \<and> tb_data (buffer_of (dst s') b) = tb_data (buffer_of (dst s) b)"
  shows "in_bytes s' i = (if recv_socket j = Some i then incoming (dst s') j
    else if recv_socket (receiver s t) = Some i then [] else in_bytes s i)"
proof -
  have e: "exclusive (recv_socket \<circ> receiver s) (sock_busy (dst s))" "exclusive ((recv_socket \<circ> receiver s)(t := recv_socket j)) (sock_busy (dst s'))"
    using assms(1,2) by (simp_all add: one_holder_def j fun_upd_comp)
  have "in_bytes s' i = bytes_at ((recv_socket \<circ> receiver s)(t := recv_socket j)) (incoming (dst s') \<circ> (receiver s)(t := j)) i"
    by (simp add: in_bytes_def j fun_upd_comp)
  also have "\<dots> = (if recv_socket j = Some i then incoming (dst s') j else if recv_socket (receiver s t) = Some i then [] else in_bytes s i)"
    by (subst bytes_at_upd [OF e, where bytes = "incoming (dst s) \<circ> receiver s"])
      (auto simp: in_bytes_def intro!: incoming_cong assms(4))
  finally show ?thesis .
qed

text \<open>
  Senders have a buffer whose data are there and, from the claim of a socket on, whose header is
  written; receivers have read no more than the header or the data hold.
\<close>

definition src_ok :: "tcp_side \<Rightarrow> bool" where
  "src_ok h \<longleftrightarrow> (\<forall>b<length (registered_buffers h). data_length (buffer_of h b) \<le> int (length (tb_data (buffer_of h b))) \<and>
     data_length (buffer_of h b) < 2 ^ 31)"

definition dst_ok :: "tcp_side \<Rightarrow> bool" where
  "dst_ok h \<longleftrightarrow> (\<forall>b<length (registered_buffers h). length (tb_header (buffer_of h b)) = TCP_DATA_MESSAGE_HEADER_SIZE)"

fun send_ok :: "tcp_side \<Rightarrow> send_job \<Rightarrow> bool" where
  "send_ok h (S_Claim b) \<longleftrightarrow> message_bytes (buffer_of h b) = enc (queued (buffer_of h b)) \<and> length (snd (queued (buffer_of h b))) < 2 ^ 32"
| "send_ok h (S_Failed b i) \<longleftrightarrow> False"
| "send_ok h _ \<longleftrightarrow> True"

fun recv_ok :: "tcp_side \<Rightarrow> recv_job \<Rightarrow> bool" where
  "recv_ok h (R_Header b i k) \<longleftrightarrow> k \<le> TCP_DATA_MESSAGE_HEADER_SIZE"
| "recv_ok h (R_Data b i off n k) \<longleftrightarrow> k \<le> n \<and> n < 2 ^ 32 \<and> k \<le> length (tb_data (buffer_of h b))"
| "recv_ok h _ \<longleftrightarrow> True"

definition jobs_ok :: "xni_net \<Rightarrow> bool" where
  "jobs_ok s \<longleftrightarrow> src_ok (src s) \<and> dst_ok (dst s) \<and> (\<forall>t. send_ok (src s) (sender s t)) \<and> (\<forall>t. recv_ok (dst s) (receiver s t))"

lemma send_ok_cong:
  "send_ok h j \<Longrightarrow> (\<And>b. send_buffer j = Some b \<Longrightarrow> message_bytes (buffer_of h' b) = message_bytes (buffer_of h b) \<and> queued (buffer_of h' b) = queued (buffer_of h b)) \<Longrightarrow>
   send_ok h' j"
  by (cases j) auto

lemma recv_ok_cong:
  "recv_ok h j \<Longrightarrow> (\<And>b. recv_buffer j = Some b \<Longrightarrow> length (tb_data (buffer_of h' b)) = length (tb_data (buffer_of h b))) \<Longrightarrow> recv_ok h' j"
  by (cases j) auto

lemma message_keep [xni_simps]:
  "message_bytes (tb\<lparr>tb_busy := x\<rparr>) = message_bytes tb" "queued (tb\<lparr>tb_busy := x\<rparr>) = queued tb"
  by (simp_all add: message_bytes_def queued_def)

lemma store_at_length: "store_at k bs mem = Some m \<Longrightarrow> length m = length mem"
  by (auto simp: store_at_def split: if_splits)

lemma store_at_take: "store_at k bs mem = Some m \<Longrightarrow> take (k + length bs) m = take k mem @ bs"
  by (auto simp: store_at_def split: if_splits)

lemma store_at_fits: "store_at k bs mem = Some m \<Longrightarrow> k + length bs \<le> length mem"
  by (auto simp: store_at_def split: if_splits)

lemma encode_ok:
  assumes "1 \<le> data_length tb" "data_length tb \<le> int (length (tb_data tb))" "data_length tb < 2 ^ 31"
  shows "message_bytes (encode_tcp_header tb) = enc (queued (encode_tcp_header tb)) \<and> length (snd (queued (encode_tcp_header tb))) < 2 ^ 32"
proof -
  have "length (take (nat (data_length tb)) (tb_data tb)) = nat (data_length tb)" using assms by simp
  then show ?thesis using assms by (simp add: message_bytes_def enc_def queued_def encode_tcp_header_def nat_less_iff)
qed

lemma send_holds: "one_holder s \<Longrightarrow> send_buffer (sender s t) = Some b \<Longrightarrow> b < length (registered_buffers (src s))"
  by (auto simp: one_holder_def buf_busy_def dest!: exclusive_busy [where t = t and r = b])

lemma recv_holds: "one_holder s \<Longrightarrow> recv_buffer (receiver s t) = Some b \<Longrightarrow> b < length (registered_buffers (dst s))"
  using exclusive_busy [of "recv_buffer \<circ> receiver s" "buf_busy (dst s)" t b] by (simp add: one_holder_def buf_busy_def)

lemma send_others:
  "one_holder s \<Longrightarrow> send_buffer (sender s t) = Some b \<Longrightarrow> u \<noteq> t \<Longrightarrow> send_buffer (sender s u) = Some c \<Longrightarrow> c \<noteq> b"
  using exclusive_unique [of "send_buffer \<circ> sender s" "buf_busy (src s)" t b u] by (auto simp: one_holder_def)

lemma recv_others:
  "one_holder s \<Longrightarrow> recv_buffer (receiver s t) = Some b \<Longrightarrow> u \<noteq> t \<Longrightarrow> recv_buffer (receiver s u) = Some c \<Longrightarrow> c \<noteq> b"
  using exclusive_unique [of "recv_buffer \<circ> receiver s" "buf_busy (dst s)" t b u] by (auto simp: one_holder_def)

lemma acquired_simps:
  "tcp_request_target_buffer h = Some (b, h') \<Longrightarrow> buffer_of h' c = (if c = b \<and> b < length (registered_buffers h) then (buffer_of h b)\<lparr>tb_busy := True\<rparr> else buffer_of h c)"
  "tcp_request_target_buffer h = Some (b, h') \<Longrightarrow> length (registered_buffers h') = length (registered_buffers h)"
  "claim_socket h = Some (i, h') \<Longrightarrow> buffer_of h' = buffer_of h" "claim_socket h = Some (i, h') \<Longrightarrow> registered_buffers h' = registered_buffers h"
  "claim_ready ready h = Some (i, h') \<Longrightarrow> buffer_of h' = buffer_of h" "claim_ready ready h = Some (i, h') \<Longrightarrow> registered_buffers h' = registered_buffers h"
  by (auto simp: tcp_request_target_buffer_Some claim_socket_Some xni_simps dest!: claim_ready_Some)

lemma freed_simps [xni_simps]:
  "buffer_of (free_buffer b h) c = (if c = b \<and> b < length (registered_buffers h) then (buffer_of h b)\<lparr>tb_busy := False\<rparr> else buffer_of h c)"
  "buffer_of (tcp_release_target_buffer b h) c = (if c = b \<and> b < length (registered_buffers h)
     then (buffer_of h b)\<lparr>target_offset := 0, data_length := -1, tb_busy := False\<rparr> else buffer_of h c)"
  "length (registered_buffers (free_buffer b h)) = length (registered_buffers h)"
  "length (registered_buffers (tcp_release_target_buffer b h)) = length (registered_buffers h)"
  "buffer_of (free_socket i h) = buffer_of h" "buffer_of (end_socket i h) = buffer_of h"
  "registered_buffers (free_socket i h) = registered_buffers h" "registered_buffers (end_socket i h) = registered_buffers h"
  by (auto simp: free_buffer_def tcp_release_target_buffer_def free_socket_def end_socket_def xni_simps)

lemma src_ok_step: "tcp_step faults s s' \<Longrightarrow> src_ok (src s) \<Longrightarrow> src_ok (src s')"
  by (induction rule: tcp_step.induct) (auto simp: src_ok_def xni_simps acquired_simps encode_tcp_header_def)

lemma dst_ok_step: "tcp_step faults s s' \<Longrightarrow> dst_ok (dst s) \<Longrightarrow> dst_ok (dst s')"
  by (induction rule: tcp_step.induct) (auto simp: dst_ok_def xni_simps acquired_simps dest!: store_at_length)

lemma send_ok_others:
  assumes "one_holder s" "send_buffer (sender s t) = Some b" "u \<noteq> t" "send_ok (src s) (sender s u)"
  shows "send_ok (on_buffer b f (src s)) (sender s u)"
  using assms(4) send_others [OF assms(1-3)] by (auto intro!: send_ok_cong [OF assms(4)] simp: xni_simps)

lemma recv_ok_free [xni_simps]:
  "recv_ok (free_buffer b h) j = recv_ok h j" "recv_ok (free_socket i h) j = recv_ok h j" "recv_ok (end_socket i h) j = recv_ok h j"
  by (cases j; simp add: xni_simps)+

lemma header_length_less: "header_length bs < 2 ^ 32"
proof -
  have "(256 :: int) ^ length (take 4 (drop 8 bs)) \<le> 256 ^ 4" by (rule power_increasing) auto
  then have "le_value (take 4 (drop 8 bs)) < 2 ^ 32" using le_value_range(2) [of "take 4 (drop 8 bs)"] by simp
  then show ?thesis by (simp add: header_length_def nat_less_iff)
qed

lemma header_again:
  assumes "length bs = TCP_DATA_MESSAGE_HEADER_SIZE"
  shows "le_bytes 8 (uint (header_offset bs)) @ le_bytes 4 (int (header_length bs)) = bs"
proof -
  let ?o = "take 8 bs" and ?n = "take 4 (drop 8 bs)"
  have l: "length ?o = 8" "length ?n = 4" "?o @ ?n = bs" using assms
    by (simp_all add: TCP_DATA_MESSAGE_HEADER_SIZE_def flip: take_add)
  have "uint (word_of_int (le_value ?o) :: u64) = le_value ?o"
    using le_value_range [of ?o] l(1) by (simp add: uint_word_of_int take_bit_eq_mod)
  moreover have "int (nat (le_value ?n)) = le_value ?n" using le_value_range(1) by simp
  ultimately show ?thesis using le_bytes_le_value [OF l(1)] le_bytes_le_value [OF l(2)] l(3)
    by (simp add: header_offset_def header_length_def)
qed

lemma send_ok_step:
  assumes "tcp_step False s s'" and "one_holder s" and "src_ok (src s)" and "\<And>t. send_ok (src s) (sender s t)"
  shows "send_ok (src s') (sender s' u)"
  using assms
proof (induction rule: tcp_step.induct)
  case (request s t b h)
  then show ?case by (auto intro!: send_ok_cong [OF request.prems(3)] simp: acquired_simps xni_simps)
next
  case (fill s t b d n off)
  then show ?case using send_ok_others [of s t b u] by (cases "u = t") simp_all
next
  case (send s t b)
  have "b < length (registered_buffers (src s))" using send.hyps(1) send.prems(1) by (simp add: send_holds [of s t])
  then show ?case using send send_ok_others [of s t b u] encode_ok [of "buffer_of (src s) b"]
    by (cases "u = t") (simp_all add: src_ok_def xni_simps)
next
  case (claim s t b i h)
  then show ?case by (auto intro!: send_ok_cong [OF claim.prems(3)] simp: acquired_simps)
next
  case (send_done s t b i k)
  then show ?case by (auto intro!: send_ok_cong [OF send_done.prems(3)] simp: xni_simps)
qed simp_all

lemma recv_ok_step:
  assumes "tcp_step faults s s'" and "one_holder s" and "dst_ok (dst s)" and "\<And>t. recv_ok (dst s) (receiver s t)"
  shows "recv_ok (dst s') (receiver s' u)"
  using assms
proof (induction rule: tcp_step.induct)
  case (recv_header s t b i k cnt m)
  then show ?case by (auto intro!: recv_ok_cong [OF recv_header.prems(3)] simp: xni_simps)
next
  case (header_done s t b i)
  then show ?case using header_length_less [of "tb_header (buffer_of (dst s) b)"] by simp
next
  case (recv_data s t b i off n k cnt m)
  have "recv_ok (dst s) (R_Data b i off n k)" using recv_data.prems(3) [of t] recv_data.hyps(1) by simp
  moreover have "k + cnt \<le> length (tb_data (buffer_of (dst s) b))" "length m = length (tb_data (buffer_of (dst s) b))"
    using store_at_fits [OF recv_data.hyps(5)] store_at_length [OF recv_data.hyps(5)] recv_data.hyps(4) by simp_all
  ultimately show ?case using recv_data.hyps by (auto intro!: recv_ok_cong [OF recv_data.prems(3)] simp: xni_simps)
next
  case (ready s t b ready i h)
  then show ?case by (auto intro!: recv_ok_cong [OF ready.prems(3)] simp: acquired_simps)
next
  case (grab s t b h)
  then show ?case by (auto intro!: recv_ok_cong [OF grab.prems(3)] simp: acquired_simps)
next
  case (recv_done s t b i off n)
  then show ?case by (auto intro!: recv_ok_cong [OF recv_done.prems(3)] simp: xni_simps)
next
  case (release s t b)
  then show ?case by (auto intro!: recv_ok_cong [OF release.prems(3)] simp: xni_simps)
qed (simp_all add: xni_simps)

lemma jobs_ok_step: "tcp_step False s s' \<Longrightarrow> one_holder s \<Longrightarrow> jobs_ok s \<Longrightarrow> jobs_ok s'"
  by (simp add: jobs_ok_def src_ok_step dst_ok_step send_ok_step recv_ok_step)

subsection \<open>Nothing is lost, added or changed\<close>

text \<open>
  The bytes of the messages sent are those of the messages received, then those the receiver
  has of the next one, those on the way, and those the sender has still to send.
\<close>

definition bytes_balanced :: "xni_net \<Rightarrow> nat \<Rightarrow> bool" where
  "bytes_balanced s i \<longleftrightarrow> short (sent_log s i) \<and> short (recv_log s i) \<and>
     stream (sent_log s i) = stream (recv_log s i) @ in_bytes s i @ wire s i @ out_bytes s i"

lemma out_bytes_same: "sender s' = sender s \<Longrightarrow> src s' = src s \<Longrightarrow> out_bytes s' = out_bytes s"
  by (simp add: out_bytes_def)

lemma in_bytes_same: "receiver s' = receiver s \<Longrightarrow> dst s' = dst s \<Longrightarrow> in_bytes s' = in_bytes s"
  by (simp add: in_bytes_def)

lemma out_bytes_held: "one_holder s \<Longrightarrow> sender s t = S_Send b i k \<Longrightarrow> out_bytes s i = drop k (message_bytes (buffer_of (src s) b))"
  using bytes_at_held [of "send_socket \<circ> sender s" "sock_busy (src s)" t i] by (simp add: out_bytes_def one_holder_def)

lemma in_bytes_held: "one_holder s \<Longrightarrow> recv_socket (receiver s t) = Some i \<Longrightarrow> in_bytes s i = incoming (dst s) (receiver s t)"
  using bytes_at_held [of "recv_socket \<circ> receiver s" "sock_busy (dst s)" t i] by (simp add: in_bytes_def one_holder_def)

lemma out_bytes_free: "one_holder s \<Longrightarrow> \<not> sock_busy (src s) i \<Longrightarrow> out_bytes s i = []"
  unfolding out_bytes_def by (rule bytes_at_none) (auto simp: one_holder_def exclusive_def)

lemma in_bytes_free: "one_holder s \<Longrightarrow> \<not> sock_busy (dst s) i \<Longrightarrow> in_bytes s i = []"
  unfolding in_bytes_def by (rule bytes_at_none) (auto simp: one_holder_def exclusive_def)

text \<open>A sender's step and a receiver's step, seen on the wires.\<close>

lemma send_balanced:
  assumes h: "one_holder s" "one_holder s'" and "bytes_balanced s i" and "dst s' = dst s" "receiver s' = receiver s" "recv_log s' = recv_log s"
    and j: "sender s' = (sender s)(t := j)"
    and o: "\<And>u b. u \<noteq> t \<Longrightarrow> send_buffer (sender s u) = Some b \<Longrightarrow> message_bytes (buffer_of (src s') b) = message_bytes (buffer_of (src s) b)"
    and "sent_log s' i = sent_log s i @ new" "short new"
    and "wire s i @ out_bytes s i @ stream new = wire s' i @
      (if send_socket j = Some i then outgoing (src s') j else if send_socket (sender s t) = Some i then [] else out_bytes s i)"
  shows "bytes_balanced s' i"
  using assms(3,4,5,6,9,10,11) out_bytes_upd [OF h j o, where i = i] by (simp add: bytes_balanced_def in_bytes_same [of s' s])

lemma recv_balanced:
  assumes h: "one_holder s" "one_holder s'" and "bytes_balanced s i" and "src s' = src s" "sender s' = sender s" "sent_log s' = sent_log s"
    and j: "receiver s' = (receiver s)(t := j)"
    and o: "\<And>u b. u \<noteq> t \<Longrightarrow> recv_buffer (receiver s u) = Some b \<Longrightarrow>
      tb_header (buffer_of (dst s') b) = tb_header (buffer_of (dst s) b) \<and> tb_data (buffer_of (dst s') b) = tb_data (buffer_of (dst s) b)"
    and "recv_log s' i = recv_log s i @ new" "short new"
    and eq: "in_bytes s i @ wire s i = stream new @
      (if recv_socket j = Some i then incoming (dst s') j else if recv_socket (receiver s t) = Some i then [] else in_bytes s i) @ wire s' i"
  shows "bytes_balanced s' i"
proof -
  have "in_bytes s i @ wire s i @ out_bytes s i = stream new @ in_bytes s' i @ wire s' i @ out_bytes s i"
    using arg_cong [OF eq, of "\<lambda>x. x @ out_bytes s i"] in_bytes_upd [OF h j o, where i = i] by simp
  then show ?thesis using assms(3-6,9,10) by (simp add: bytes_balanced_def out_bytes_same [of s' s])
qed

text \<open>No message is under way on a closed connection.\<close>

definition closed_quiet :: "xni_net \<Rightarrow> bool" where
  "closed_quiet s \<longleftrightarrow> (closed s \<longrightarrow> (\<forall>t. send_socket (sender s t) = None))"

lemma closed_quiet_step: "tcp_step False s s' \<Longrightarrow> jobs_ok s \<Longrightarrow> closed_quiet s \<Longrightarrow> closed_quiet s'"
proof (induction rule: tcp_step.induct)
  case (close s)
  have "sender s t = S_Idle" for t
    using close.hyps [THEN spec, of t] close.prems(1) by (auto simp: jobs_ok_def dest!: spec [where x = t])
  then show ?case by (simp add: closed_quiet_def)
next
  case (sent s t b i k cnt)
  then show ?case by (auto simp: closed_quiet_def dest!: spec [where x = t])
qed (auto simp: closed_quiet_def)

lemma quiet_out: "closed_quiet s \<Longrightarrow> closed s \<Longrightarrow> out_bytes s i = []"
  unfolding out_bytes_def by (rule bytes_at_none) (simp add: closed_quiet_def)

text \<open>The end of the stream comes between two messages.\<close>

lemma eof_between:
  assumes "bytes_balanced s i" "closed_quiet s" "closed s" "wire s i = []" "one_holder s"
  shows "receiver s t = R_Header b i k \<Longrightarrow> k < TCP_DATA_MESSAGE_HEADER_SIZE \<Longrightarrow> in_bytes s i = [] \<and> recv_log s i = sent_log s i"
    and "jobs_ok s \<Longrightarrow> receiver s t = R_Data b i off n k \<Longrightarrow> n \<le> k"
proof -
  obtain rest where rest: "sent_log s i = recv_log s i @ rest" "in_bytes s i = stream rest"
    using stream_prefix [of "sent_log s i" "recv_log s i" "in_bytes s i"] assms by (auto simp: bytes_balanced_def quiet_out)
  {
    assume "receiver s t = R_Header b i k" "k < TCP_DATA_MESSAGE_HEADER_SIZE"
    then have "length (in_bytes s i) < 12" using in_bytes_held [OF assms(5), of t i] by (simp add: TCP_DATA_MESSAGE_HEADER_SIZE_def)
    then show "in_bytes s i = [] \<and> recv_log s i = sent_log s i" using stream_cut_header [of rest "in_bytes s i"] rest by simp
  next
    assume j: "jobs_ok s" and d: "receiver s t = R_Data b i off n k"
    have "n < 2 ^ 32" using j d unfolding jobs_ok_def by (metis recv_ok.simps(2))
    moreover have "short rest" using assms(1) rest(1) by (simp add: bytes_balanced_def)
    ultimately show "n \<le> k"
      using stream_cut_data [of rest off n "take k (tb_data (buffer_of (dst s) b))"] rest(2) in_bytes_held [OF assms(5), of t i] d by simp
  }
qed

lemma bytes_balanced_step:
  assumes "tcp_step False s s'" and "one_holder s" and "one_holder s'" and "jobs_ok s" and "closed_quiet s" and "bytes_balanced s i"
  shows "bytes_balanced s' i"
  using assms
proof (induction rule: tcp_step.induct)
  case (request s t b h)
  show ?case using request.hyps
    by (intro send_balanced [OF request.prems(1,2,5), of t "S_Fill b" "[]"]) (auto simp: acquired_simps xni_simps)
next
  case (fill s t b d n off)
  show ?case using fill.hyps(1) send_others [OF fill.prems(1), of t b]
    by (intro send_balanced [OF fill.prems(1,2,5), of t "S_Fill b" "[]"]) (auto simp: xni_simps fun_upd_idem)
next
  case (send s t b)
  show ?case using send.hyps(1) send_others [OF send.prems(1), of t b]
    by (intro send_balanced [OF send.prems(1,2,5), of t "S_Claim b" "[]"]) (auto simp: xni_simps)
next
  case (claim s t b j h)
  let ?m = "queued (buffer_of h b)"
  have "send_ok (src s) (S_Claim b)" using claim.prems(3) claim.hyps(1) unfolding jobs_ok_def by metis
  then have ok: "message_bytes (buffer_of h b) = enc ?m" "length (snd ?m) < 2 ^ 32"
    by (simp_all add: acquired_simps(3) [OF claim.hyps(2)])
  have "out_bytes s j = []" using out_bytes_free [OF claim.prems(1)] send_sockets.acquire_free [OF claim.hyps(2)] by blast
  then show ?case using claim.hyps(1) ok acquired_simps(3) [OF claim.hyps(2)]
    by (cases "i = j") (intro send_balanced [OF claim.prems(1,2,5), of t "S_Send b j 0" "if i = j then [?m] else []"]; simp)+
next
  case (sent s t b j k cnt)
  have "out_bytes s j = drop k (message_bytes (buffer_of (src s) b))" by (rule out_bytes_held [OF sent.prems(1) sent.hyps(1)])
  moreover have "take cnt (drop k xs) @ drop (k + cnt) xs = drop k xs" for xs :: "u8 list"
    by (metis add.commute append_take_drop_id drop_drop)
  ultimately show ?case using sent.hyps(1)
    by (intro send_balanced [OF sent.prems(1,2,5), of t "S_Send b j (k + cnt)" "[]"]) auto
next
  case (send_done s t b j k)
  have "out_bytes s j = []" using out_bytes_held [OF send_done.prems(1) send_done.hyps(1)] send_done.hyps(2) by simp
  then show ?case using send_done.hyps(1)
    by (intro send_balanced [OF send_done.prems(1,2,5), of t "S_Idle" "[]"]) (auto simp: xni_simps)
next
  case (close s)
  then show ?case by (simp add: bytes_balanced_def in_bytes_def out_bytes_def)
next
  case (grab s t b h)
  show ?case using grab.hyps
    by (intro recv_balanced [OF grab.prems(1,2,5), of t "R_Select b" "[]"]) (auto simp: acquired_simps xni_simps)
next
  case (no_sockets s t b)
  show ?case using no_sockets.hyps(1)
    by (intro recv_balanced [OF no_sockets.prems(1,2,5), of t "R_Idle" "[]"]) (auto simp: xni_simps)
next
  case (collect s t b)
  show ?case using collect.hyps(1)
    by (intro recv_balanced [OF collect.prems(1,2,5), of t "R_Wait b (open_sockets (dst s))" "[]"]) (auto simp: xni_simps)
next
  case (select s t b fds ready)
  show ?case using select.hyps(1)
    by (intro recv_balanced [OF select.prems(1,2,5), of t "R_Ready b ready" "[]"]) (auto simp: xni_simps)
next
  case (all_busy s t b ready)
  show ?case using all_busy.hyps(1)
    by (intro recv_balanced [OF all_busy.prems(1,2,5), of t "R_Select b" "[]"]) (auto simp: xni_simps)
next
  case (release s t b)
  show ?case using release.hyps(1)
    by (intro recv_balanced [OF release.prems(1,2,5), of t "R_Idle" "[]"]) (auto simp: xni_simps)
next
  case (ready s t b ready j h)
  have "in_bytes s j = []" using in_bytes_free [OF ready.prems(1)] ready_sockets.acquire_free [OF ready.hyps(2)] by blast
  then show ?case using ready.hyps
    by (intro recv_balanced [OF ready.prems(1,2,5), of t "R_Header b j 0" "[]"]) (auto simp: acquired_simps)
next
  case (recv_header s t b j k cnt m)
  have b: "b < length (registered_buffers (dst s))" using recv_holds [of s t b] recv_header.hyps(1) recv_header.prems(1) by simp
  have "in_bytes s j = take k (tb_header (buffer_of (dst s) b))" using in_bytes_held [OF recv_header.prems(1), of t j] recv_header.hyps(1) by simp
  moreover have "take (k + cnt) m = take k (tb_header (buffer_of (dst s) b)) @ take cnt (wire s j)"
    using store_at_take [OF recv_header.hyps(5)] recv_header.hyps(4) by simp
  ultimately show ?case using recv_header.hyps(1) b recv_others [OF recv_header.prems(1), of t b]
    by (intro recv_balanced [OF recv_header.prems(1,2,5), of t "R_Header b j (k + cnt)" "[]"]) (auto simp: xni_simps)
next
  case (header_eof s t b j k)
  have "i = j \<Longrightarrow> in_bytes s i = []" using eof_between(1) [of s i t b k] header_eof by simp
  then show ?case using header_eof.hyps(1)
    by (intro recv_balanced [OF header_eof.prems(1,2,5), of t "R_Idle" "[]"]) (auto simp: xni_simps)
next
  case (header_done s t b j)
  have "b < length (registered_buffers (dst s))" using recv_holds [of s t b] header_done.hyps header_done.prems(1) by simp
  then have l: "length (tb_header (buffer_of (dst s) b)) = TCP_DATA_MESSAGE_HEADER_SIZE" using header_done.prems(3) by (simp add: jobs_ok_def dst_ok_def)
  then have "in_bytes s j = tb_header (buffer_of (dst s) b)" using in_bytes_held [OF header_done.prems(1), of t j] header_done.hyps by simp
  then show ?case using header_done.hyps header_again [OF l]
    by (intro recv_balanced [OF header_done.prems(1,2,5), of t "R_Data b j (header_offset (tb_header (buffer_of (dst s) b)))
          (header_length (tb_header (buffer_of (dst s) b))) 0" "[]"]) auto
next
  case (recv_data s t b j off n k cnt m)
  have b: "b < length (registered_buffers (dst s))" using recv_holds [of s t b] recv_data.hyps(1) recv_data.prems(1) by simp
  have "in_bytes s j = incoming (dst s) (R_Data b j off n k)" using in_bytes_held [OF recv_data.prems(1), of t j] recv_data.hyps(1) by simp
  moreover have "take (k + cnt) m = take k (tb_data (buffer_of (dst s) b)) @ take cnt (wire s j)"
    using store_at_take [OF recv_data.hyps(5)] recv_data.hyps(4) by simp
  ultimately show ?case using recv_data.hyps(1) b recv_others [OF recv_data.prems(1), of t b]
    by (intro recv_balanced [OF recv_data.prems(1,2,5), of t "R_Data b j off n (k + cnt)" "[]"]) (auto simp: xni_simps)
next
  case (recv_done s t b j off n)
  have "recv_ok (dst s) (R_Data b j off n n)" using recv_done.prems(3) recv_done.hyps unfolding jobs_ok_def by metis
  then have l: "length (take n (tb_data (buffer_of (dst s) b))) = n" "n < 2 ^ 32" by simp_all
  have "in_bytes s j = incoming (dst s) (R_Data b j off n n)" using in_bytes_held [OF recv_done.prems(1), of t j] recv_done.hyps by simp
  then have "in_bytes s j = enc (off, take n (tb_data (buffer_of (dst s) b)))" unfolding enc_def fst_conv snd_conv l(1) by simp
  then show ?case using recv_done.hyps l
    by (cases "i = j")
      (intro recv_balanced [OF recv_done.prems(1,2,5), of t "R_Full b" "if i = j then [(off, take n (tb_data (buffer_of (dst s) b)))] else []"];
        simp add: xni_simps)+
next
  case (data_eof s t b j off n k)
  have "i \<noteq> j" using eof_between(2) [of s i t b off n k] data_eof by auto
  then show ?case using data_eof.hyps(1)
    by (intro recv_balanced [OF data_eof.prems(1,2,5), of t "R_Idle" "[]"]) (auto simp: xni_simps)
qed simp_all

text \<open>A socket at its end of file has given all that was sent on it.\<close>

definition ended :: "xni_net \<Rightarrow> nat \<Rightarrow> bool" where
  "ended s i \<longleftrightarrow> (eof_at (dst s) i \<longrightarrow> closed s \<and> wire s i = [] \<and> recv_log s i = sent_log s i \<and> (\<forall>t. recv_socket (receiver s t) \<noteq> Some i))"

lemma eof_simps [xni_simps]:
  "eof_at (free_buffer b h) = eof_at h" "eof_at (tcp_release_target_buffer b h) = eof_at h" "eof_at (free_socket i h) = eof_at h"
  "eof_at (end_socket i h) = (eof_at h)(i := i < length (sockets h))"
  by (auto simp: free_buffer_def tcp_release_target_buffer_def free_socket_def end_socket_def eof_at_on_socket host_simps eof_at_def fun_eq_iff)

lemma acquire_eof:
  "tcp_request_target_buffer h = Some (b, h') \<Longrightarrow> eof_at h' = eof_at h"
  "claim_ready ready h = Some (i, h') \<Longrightarrow> eof_at h' = eof_at h \<and> \<not> eof_at h i"
  by (auto simp: tcp_request_target_buffer_Some host_simps eof_at_on_socket eof_at_def fun_eq_iff on_socket_def nth_list_update split: if_splits dest!: claim_ready_Some)

lemma ended_step:
  assumes "tcp_step False s s'" and "one_holder s" and "jobs_ok s" and "closed_quiet s" and "bytes_balanced s i" and "ended s i"
  shows "ended s' i"
  using assms
proof (induction rule: tcp_step.induct)
  case (sent s t b j k cnt)
  then show ?case by (auto simp: ended_def closed_quiet_def dest!: spec [where x = t])
next
  case (ready s t b ready j h)
  then show ?case using acquire_eof(2) [OF ready.hyps(2)] by (auto simp: ended_def)
next
  case (header_eof s t b j k)
  have "recv_socket (receiver s u) \<noteq> Some j" if "u \<noteq> t" for u
    using that header_eof.hyps(1) header_eof.prems(1) exclusive_unique [of "recv_socket \<circ> receiver s" "sock_busy (dst s)" t j u]
    by (auto simp: one_holder_def)
  then show ?case using header_eof eof_between(1) [of s j t b k] by (auto simp: ended_def xni_simps)
next
  case (header_done s t b j)
  then show ?case by (auto simp: ended_def dest!: spec [where x = t])
next
  case (recv_done s t b j off n)
  then show ?case by (auto simp: ended_def xni_simps dest!: spec [where x = t])
qed (auto simp: ended_def xni_simps acquire_eof host_simps)

definition tcp_inv :: "xni_net \<Rightarrow> bool" where
  "tcp_inv s \<longleftrightarrow> one_holder s \<and> jobs_ok s \<and> closed_quiet s \<and> (\<forall>i. bytes_balanced s i) \<and> (\<forall>i. ended s i)"

lemma tcp_inv_step: "tcp_step False s s' \<Longrightarrow> tcp_inv s \<Longrightarrow> tcp_inv s'"
  unfolding tcp_inv_def using one_holder_step jobs_ok_step closed_quiet_step bytes_balanced_step ended_step by blast

lemma tcp_inv_run: "(tcp_step False)\<^sup>*\<^sup>* s s' \<Longrightarrow> tcp_inv s \<Longrightarrow> tcp_inv s'"
  by (induction rule: rtranclp_induct) (auto intro: tcp_inv_step)

text \<open>Registered buffers have the room for a header before their data.\<close>

definition fresh_buffers :: "tcp_side \<Rightarrow> bool" where
  "fresh_buffers h \<longleftrightarrow> (\<forall>x\<in>set (registered_buffers h). length (tb_header x) = TCP_DATA_MESSAGE_HEADER_SIZE \<and> data_length x = -1)"

lemma register_fresh: "reserved \<le> length buf \<Longrightarrow> fresh_buffers h \<Longrightarrow> fresh_buffers (snd (tcp_register_buffer buf reserved h))"
  by (auto simp: tcp_register_buffer_def fresh_buffers_def TCP_DATA_MESSAGE_HEADER_SIZE_def)

lemma register_buffers_fresh: "\<forall>(buf, reserved)\<in>set bufs. reserved \<le> length buf \<Longrightarrow> fresh_buffers h \<Longrightarrow> fresh_buffers (register_buffers bufs h)"
  unfolding register_buffers_def by (induction bufs arbitrary: h) (auto intro: register_fresh)

lemma new_sockets_fresh: "fresh_buffers h \<Longrightarrow> fresh_buffers (new_sockets acc h)"
  by (simp add: new_sockets_def fresh_buffers_def)

lemma fresh_ok: "fresh_buffers h \<Longrightarrow> src_ok h" "fresh_buffers h \<Longrightarrow> dst_ok h"
  by (simp_all add: fresh_buffers_def src_ok_def dst_ok_def buffer_of_def)

lemma connected_inv:
  assumes "\<forall>(buf, reserved)\<in>set sbufs. reserved \<le> length buf" and "\<forall>(buf, reserved)\<in>set dbufs. reserved \<le> length buf"
    and a: "tcp_connect c port (register_buffers sbufs (tcp_context_create cb)) = (XNI_OK, a)"
    and b: "tcp_accept_connection c' port' (register_buffers dbufs (tcp_context_create cb')) = (XNI_OK, b)"
  shows "tcp_inv (tcp_connected a b)"
proof -
  have "fresh_buffers (tcp_context_create x)" for x by (simp add: tcp_context_create_def fresh_buffers_def)
  then have "fresh_buffers a" "fresh_buffers b"
    using assms by (auto simp: tcp_connect_def tcp_accept_connection_def Let_def split: if_splits intro!: new_sockets_fresh register_buffers_fresh)
  moreover have "\<not> eof_at b i" for i
    using b by (auto simp: eof_at_def tcp_accept_connection_def Let_def new_sockets_def split: if_splits)
  ultimately show ?thesis
    by (simp add: tcp_inv_def tcp_connected_def one_holder_def exclusive_def jobs_ok_def fresh_ok closed_quiet_def bytes_balanced_def ended_def
      in_bytes_def out_bytes_def bytes_at_def)
qed

subsection \<open>What a connection delivers\<close>

text \<open>A sample: one socket, one buffer of two bytes on each side, and one message.\<close>

definition sample_block :: tcp_control_block where
  "sample_block = \<lparr>num_sockets = 1, congestion = []\<rparr>"

definition sample_buffers :: "(u8 list \<times> nat) list" where
  "sample_buffers = [(replicate 14 0, 12)]"

definition xni_header :: "u8 list" where
  "xni_header = le_bytes 8 (uint (5 :: u64)) @ le_bytes 4 1"

definition xni_sample :: "tcp_target_buffer \<Rightarrow> bool \<Rightarrow> tcp_target_buffer \<Rightarrow> bool \<Rightarrow> bool \<Rightarrow> u8 list \<Rightarrow> bool \<Rightarrow> send_job \<Rightarrow> recv_job \<Rightarrow>
    message list \<Rightarrow> message list \<Rightarrow> xni_net" where
  "xni_sample a k b l e w c sj rj sl rl = \<lparr>src = \<lparr>control_block = sample_block, registered_buffers = [a], sockets = [\<lparr>so_busy = k, so_eof = True\<rparr>]\<rparr>,
     dst = \<lparr>control_block = sample_block, registered_buffers = [b], sockets = [\<lparr>so_busy = l, so_eof = e\<rparr>]\<rparr>, wire = (\<lambda>i. [])(0 := w), closed = c,
     sender = (\<lambda>t. S_Idle)(0 := sj), receiver = (\<lambda>t. R_Idle)(0 := rj), sent_log = (\<lambda>i. [])(0 := sl), recv_log = (\<lambda>i. [])(0 := rl)\<rparr>"

definition sample_tb :: "u8 list \<Rightarrow> u8 list \<Rightarrow> u64 \<Rightarrow> int \<Rightarrow> bool \<Rightarrow> tcp_target_buffer" where
  "sample_tb d h off n bz = \<lparr>tb_data = d, tb_header = h, target_offset = off, data_length = n, tb_busy = bz\<rparr>"

definition empty_tb :: "bool \<Rightarrow> tcp_target_buffer" where
  "empty_tb bz = sample_tb [0, 0] (replicate 12 0) 0 (-1) bz"

definition sent_tb :: "bool \<Rightarrow> tcp_target_buffer" where
  "sent_tb bz = sample_tb [7, 8] xni_header 5 1 bz"

lemma xni_header_simps: "le_bytes 8 5 @ le_bytes 4 1 = xni_header" "length xni_header = 12" "header_offset xni_header = 5" "header_length xni_header = 1"
  by (simp_all add: xni_header_def header_offset_def header_length_def le_value_le_bytes)

definition all_works :: tcp_calls where
  "all_works = \<lparr>socket_works = \<lambda>i. True, congestion_works = \<lambda>name i. True, bind_works = \<lambda>p. True, listen_works = \<lambda>i. True,
     accept_works = \<lambda>i. True, connect_works = \<lambda>p. True\<rparr>"

definition sample_connect :: "int \<times> tcp_side" where
  "sample_connect = tcp_connect all_works 40010 (register_buffers sample_buffers (tcp_context_create sample_block))"

definition sample_accept :: "int \<times> tcp_side" where
  "sample_accept = tcp_accept_connection all_works 40010 (register_buffers sample_buffers (tcp_context_create sample_block))"

lemma sample_sides:
  "sample_connect = (XNI_OK, \<lparr>control_block = sample_block, registered_buffers = [empty_tb False], sockets = [\<lparr>so_busy = False, so_eof = True\<rparr>]\<rparr>)"
  "sample_accept = (XNI_OK, \<lparr>control_block = sample_block, registered_buffers = [empty_tb False], sockets = [\<lparr>so_busy = False, so_eof = False\<rparr>]\<rparr>)"
  by (simp_all add: sample_connect_def sample_accept_def tcp_connect_def tcp_accept_connection_def new_sockets_def register_buffers_def socket_made_def all_works_def
    tcp_register_buffer_def sample_buffers_def sample_block_def empty_tb_def sample_tb_def tcp_context_create_def TCP_DATA_MESSAGE_HEADER_SIZE_def numeral_2_eq_2)

lemma sample_works:
  "\<forall>(buf, reserved)\<in>set sample_buffers. reserved \<le> length buf" "\<forall>(buf, reserved)\<in>set sample_buffers. reserved \<le> length buf"
  "tcp_connect all_works 40010 (register_buffers sample_buffers (tcp_context_create sample_block)) = (XNI_OK, snd sample_connect)"
  "tcp_accept_connection all_works 40010 (register_buffers sample_buffers (tcp_context_create sample_block)) = (XNI_OK, snd sample_accept)"
  using sample_sides by (simp_all add: sample_connect_def sample_accept_def) (simp_all add: sample_buffers_def)

lemma sample_start:
  "tcp_connected (snd sample_connect) (snd sample_accept) = xni_sample (empty_tb False) False (empty_tb False) False False [] False S_Idle R_Idle [] []"
  by (simp add: tcp_connected_def sample_sides xni_sample_def fun_eq_iff)

lemmas xni_sample_simps = xni_sample_def empty_tb_def sent_tb_def sample_tb_def tcp_request_target_buffer_def free_index_def on_buffer_def on_socket_def buffer_of_def claim_socket_def
  free_buffer_def free_socket_def end_socket_def claim_ready_def open_sockets_def message_bytes_def encode_tcp_header_def queued_def
  TCP_DATA_MESSAGE_HEADER_SIZE_def store_at_def tcp_release_target_buffer_def xni_header_simps

lemma step_to: "tcp_step faults s s' \<Longrightarrow> s' = s'' \<Longrightarrow> tcp_step faults s s''"
  by simp

lemma sample_sends:
  "(tcp_step False)\<^sup>*\<^sup>* (xni_sample (empty_tb False) False (empty_tb False) False False [] False S_Idle R_Idle [] [])
     (xni_sample (sent_tb False) False (empty_tb False) False False (xni_header @ [7]) False S_Idle R_Idle [(5, [7])] [])"
proof -
  have s0: "tcp_step False (xni_sample (empty_tb False) False (empty_tb False) False False [] False S_Idle R_Idle [] [])
      (xni_sample (empty_tb True) False (empty_tb False) False False [] False (S_Fill 0) R_Idle [] [])"
    by (rule step_to, rule tcp_step.request [where t = 0 and b = 0 and h = "src (xni_sample (empty_tb True) False (empty_tb False) False False [] False (S_Fill 0) R_Idle [] [])"])
      (simp_all add: xni_sample_simps)
  have s1: "tcp_step False (xni_sample (empty_tb True) False (empty_tb False) False False [] False (S_Fill 0) R_Idle [] [])
      (xni_sample (sample_tb [7, 8] (replicate 12 0) 5 1 True) False (empty_tb False) False False [] False (S_Fill 0) R_Idle [] [])"
    by (rule step_to, rule tcp_step.fill [where t = 0 and b = 0 and d = "[7, 8]" and n = 1 and off = 5])
      (simp_all add: xni_sample_simps)
  have s2: "tcp_step False (xni_sample (sample_tb [7, 8] (replicate 12 0) 5 1 True) False (empty_tb False) False False [] False (S_Fill 0) R_Idle [] [])
      (xni_sample (sent_tb True) False (empty_tb False) False False [] False (S_Claim 0) R_Idle [] [])"
    by (rule step_to, rule tcp_step.send [where t = 0 and b = 0])
      (simp_all add: xni_sample_simps)
  have s3: "tcp_step False (xni_sample (sent_tb True) False (empty_tb False) False False [] False (S_Claim 0) R_Idle [] [])
      (xni_sample (sent_tb True) True (empty_tb False) False False [] False (S_Send 0 0 0) R_Idle [(5, [7])] [])"
    by (rule step_to, rule tcp_step.claim [where t = 0 and b = 0 and i = 0 and h = "src (xni_sample (sent_tb True) True (empty_tb False) False False [] False (S_Send 0 0 0) R_Idle [(5, [7])] [])"])
      (simp_all add: xni_sample_simps)
  have s4: "tcp_step False (xni_sample (sent_tb True) True (empty_tb False) False False [] False (S_Send 0 0 0) R_Idle [(5, [7])] [])
      (xni_sample (sent_tb True) True (empty_tb False) False False (xni_header @ [7]) False (S_Send 0 0 13) R_Idle [(5, [7])] [])"
    by (rule step_to, rule tcp_step.sent [where t = 0 and b = 0 and i = 0 and k = 0 and cnt = 13])
      (simp_all add: xni_sample_simps)
  have s5: "tcp_step False (xni_sample (sent_tb True) True (empty_tb False) False False (xni_header @ [7]) False (S_Send 0 0 13) R_Idle [(5, [7])] [])
      (xni_sample (sent_tb False) False (empty_tb False) False False (xni_header @ [7]) False S_Idle R_Idle [(5, [7])] [])"
    by (rule step_to, rule tcp_step.send_done [where t = 0 and b = 0 and i = 0 and k = 13])
      (simp_all add: xni_sample_simps)
  show ?thesis using s0 s1 s2 s3 s4 s5 by (meson rtranclp.rtrancl_into_rtrancl rtranclp.rtrancl_refl)
qed

lemma sample_opens:
  assumes "w = [] \<longrightarrow> c"
  shows "(tcp_step False)\<^sup>*\<^sup>* (xni_sample a False (sample_tb d h off n False) False False w c S_Idle R_Idle sl rl)
     (xni_sample a False (sample_tb d h off n True) True False w c S_Idle (R_Header 0 0 0) sl rl)"
proof -
  have s0: "tcp_step False (xni_sample a False (sample_tb d h off n False) False False w c S_Idle R_Idle sl rl)
      (xni_sample a False (sample_tb d h off n True) False False w c S_Idle (R_Select 0) sl rl)"
    by (rule step_to, rule tcp_step.grab [where t = 0 and b = 0 and h = "dst (xni_sample a False (sample_tb d h off n True) False False w c S_Idle (R_Select 0) sl rl)"])
      (simp_all add: xni_sample_simps)
  have s1: "tcp_step False (xni_sample a False (sample_tb d h off n True) False False w c S_Idle (R_Select 0) sl rl)
      (xni_sample a False (sample_tb d h off n True) False False w c S_Idle (R_Wait 0 [0]) sl rl)"
    by (rule step_to, rule tcp_step.collect [where t = 0 and b = 0])
      (simp_all add: xni_sample_simps)
  have s2: "tcp_step False (xni_sample a False (sample_tb d h off n True) False False w c S_Idle (R_Wait 0 [0]) sl rl)
      (xni_sample a False (sample_tb d h off n True) False False w c S_Idle (R_Ready 0 [0]) sl rl)"
    by (rule step_to, rule tcp_step.select [where t = 0 and b = 0 and fds = "[0]" and ready = "[0]"])
      (simp_all add: xni_sample_simps assms)
  have s3: "tcp_step False (xni_sample a False (sample_tb d h off n True) False False w c S_Idle (R_Ready 0 [0]) sl rl)
      (xni_sample a False (sample_tb d h off n True) True False w c S_Idle (R_Header 0 0 0) sl rl)"
    by (rule step_to, rule tcp_step.ready [where t = 0 and b = 0 and i = 0 and ready = "[0]" and h = "dst (xni_sample a False (sample_tb d h off n True) True False w c S_Idle (R_Header 0 0 0) sl rl)"])
      (simp_all add: xni_sample_simps)
  show ?thesis using s0 s1 s2 s3 by (meson rtranclp.rtrancl_into_rtrancl rtranclp.rtrancl_refl)
qed

lemma sample_receives:
  "(tcp_step False)\<^sup>*\<^sup>* (xni_sample (sent_tb False) False (empty_tb True) True False (xni_header @ [7]) False S_Idle (R_Header 0 0 0) [(5, [7])] [])
     (xni_sample (sent_tb False) False (sample_tb [7, 0] xni_header 5 1 True) False False [] False S_Idle (R_Full 0) [(5, [7])] [(5, [7])])"
proof -
  have s0: "tcp_step False (xni_sample (sent_tb False) False (empty_tb True) True False (xni_header @ [7]) False S_Idle (R_Header 0 0 0) [(5, [7])] [])
      (xni_sample (sent_tb False) False (sample_tb [0, 0] xni_header 0 (-1) True) True False [7] False S_Idle (R_Header 0 0 12) [(5, [7])] [])"
    by (rule step_to, rule tcp_step.recv_header [where t = 0 and b = 0 and i = 0 and k = 0 and cnt = 12 and m = xni_header])
      (simp_all add: xni_sample_simps)
  have s1: "tcp_step False (xni_sample (sent_tb False) False (sample_tb [0, 0] xni_header 0 (-1) True) True False [7] False S_Idle (R_Header 0 0 12) [(5, [7])] [])
      (xni_sample (sent_tb False) False (sample_tb [0, 0] xni_header 0 (-1) True) True False [7] False S_Idle (R_Data 0 0 5 1 0) [(5, [7])] [])"
    by (rule step_to, rule tcp_step.header_done [where t = 0 and b = 0 and i = 0])
      (simp_all add: xni_sample_simps)
  have s2: "tcp_step False (xni_sample (sent_tb False) False (sample_tb [0, 0] xni_header 0 (-1) True) True False [7] False S_Idle (R_Data 0 0 5 1 0) [(5, [7])] [])
      (xni_sample (sent_tb False) False (sample_tb [7, 0] xni_header 0 (-1) True) True False [] False S_Idle (R_Data 0 0 5 1 1) [(5, [7])] [])"
    by (rule step_to, rule tcp_step.recv_data [where t = 0 and b = 0 and i = 0 and off = 5 and n = 1 and k = 0 and cnt = 1 and m = "[7, 0]"])
      (simp_all add: xni_sample_simps)
  have s3: "tcp_step False (xni_sample (sent_tb False) False (sample_tb [7, 0] xni_header 0 (-1) True) True False [] False S_Idle (R_Data 0 0 5 1 1) [(5, [7])] [])
      (xni_sample (sent_tb False) False (sample_tb [7, 0] xni_header 5 1 True) False False [] False S_Idle (R_Full 0) [(5, [7])] [(5, [7])])"
    by (rule step_to, rule tcp_step.recv_done [where t = 0 and b = 0 and i = 0 and off = 5 and n = 1])
      (simp_all add: xni_sample_simps)
  show ?thesis using s0 s1 s2 s3 by (meson rtranclp.rtrancl_into_rtrancl rtranclp.rtrancl_refl)
qed

lemma sample_closes:
  "(tcp_step False)\<^sup>*\<^sup>* (xni_sample (sent_tb False) False (sample_tb [7, 0] xni_header 5 1 True) False False [] False S_Idle (R_Full 0) [(5, [7])] [(5, [7])])
     (xni_sample (sent_tb False) False (sample_tb [7, 0] xni_header 0 (-1) False) False False [] True S_Idle R_Idle [(5, [7])] [(5, [7])])"
proof -
  have s0: "tcp_step False (xni_sample (sent_tb False) False (sample_tb [7, 0] xni_header 5 1 True) False False [] False S_Idle (R_Full 0) [(5, [7])] [(5, [7])])
      (xni_sample (sent_tb False) False (sample_tb [7, 0] xni_header 0 (-1) False) False False [] False S_Idle R_Idle [(5, [7])] [(5, [7])])"
    by (rule step_to, rule tcp_step.release [where t = 0 and b = 0])
      (simp_all add: xni_sample_simps)
  have s1: "tcp_step False (xni_sample (sent_tb False) False (sample_tb [7, 0] xni_header 0 (-1) False) False False [] False S_Idle R_Idle [(5, [7])] [(5, [7])])
      (xni_sample (sent_tb False) False (sample_tb [7, 0] xni_header 0 (-1) False) False False [] True S_Idle R_Idle [(5, [7])] [(5, [7])])"
    by (rule step_to, rule tcp_step.close)
      (simp_all add: xni_sample_simps)
  show ?thesis using s0 s1 by (meson rtranclp.rtrancl_into_rtrancl rtranclp.rtrancl_refl)
qed

lemma sample_ends:
  "(tcp_step False)\<^sup>*\<^sup>* (xni_sample (sent_tb False) False (sample_tb [7, 0] xni_header 0 (-1) True) True False [] True S_Idle (R_Header 0 0 0) [(5, [7])] [(5, [7])])
     (xni_sample (sent_tb False) False (sample_tb [7, 0] xni_header 0 (-1) False) False True [] True S_Idle R_Idle [(5, [7])] [(5, [7])])"
proof -
  have s0: "tcp_step False (xni_sample (sent_tb False) False (sample_tb [7, 0] xni_header 0 (-1) True) True False [] True S_Idle (R_Header 0 0 0) [(5, [7])] [(5, [7])])
      (xni_sample (sent_tb False) False (sample_tb [7, 0] xni_header 0 (-1) False) False True [] True S_Idle R_Idle [(5, [7])] [(5, [7])])"
    by (rule step_to, rule tcp_step.header_eof [where t = 0 and b = 0 and i = 0 and k = 0])
      (simp_all add: xni_sample_simps)
  show ?thesis using s0 by (meson rtranclp.rtrancl_into_rtrancl rtranclp.rtrancl_refl)
qed

lemma sample_received:
  "(tcp_step False)\<^sup>*\<^sup>* (tcp_connected (snd sample_connect) (snd sample_accept))
     (xni_sample (sent_tb False) False (sample_tb [7, 0] xni_header 5 1 True) False False [] False S_Idle (R_Full 0) [(5, [7])] [(5, [7])])"
  unfolding sample_start by (rule rtranclp_trans [OF rtranclp_trans [OF sample_sends sample_opens [where d = "[0, 0]" and h = "replicate 12 0" and off = 0 and n = "-1", folded empty_tb_def]] sample_receives]) simp

lemma sample_ended:
  "(tcp_step False)\<^sup>*\<^sup>* (tcp_connected (snd sample_connect) (snd sample_accept))
     (xni_sample (sent_tb False) False (sample_tb [7, 0] xni_header 0 (-1) False) False True [] True S_Idle R_Idle [(5, [7])] [(5, [7])])"
  by (rule rtranclp_trans [OF rtranclp_trans [OF rtranclp_trans [OF sample_received sample_closes] sample_opens] sample_ends]) simp

text \<open>C9: Over a connection without faults, the messages a socket has delivered are at every moment the first of those that
  were sent on it, in order, with their offsets and their data, however the threads of both hosts interleave and the
  network cuts the stream; no two threads of a host share a buffer or a socket.\<close>

theorem tcp_messages_in_order:
  assumes "\<forall>(buf, reserved)\<in>set sbufs. reserved \<le> length buf" and "\<forall>(buf, reserved)\<in>set dbufs. reserved \<le> length buf"
    and "tcp_connect c port (register_buffers sbufs (tcp_context_create cb)) = (XNI_OK, a)"
    and "tcp_accept_connection c' port' (register_buffers dbufs (tcp_context_create cb')) = (XNI_OK, b)"
    and "(tcp_step False)\<^sup>*\<^sup>* (tcp_connected a b) s"
  shows "(\<exists>rest. sent_log s i = recv_log s i @ rest) \<and>
    (\<forall>t u b. send_buffer (sender s t) = Some b \<and> send_buffer (sender s u) = Some b \<longrightarrow> t = u) \<and>
    (\<forall>t u j. send_socket (sender s t) = Some j \<and> send_socket (sender s u) = Some j \<longrightarrow> t = u) \<and>
    (\<forall>t u b. recv_buffer (receiver s t) = Some b \<and> recv_buffer (receiver s u) = Some b \<longrightarrow> t = u) \<and>
    (\<forall>t u j. recv_socket (receiver s t) = Some j \<and> recv_socket (receiver s u) = Some j \<longrightarrow> t = u)"
proof -
  have i: "tcp_inv s" using tcp_inv_run [OF assms(5) connected_inv [OF assms(1-4)]] .
  then have "bytes_balanced s i" by (simp add: tcp_inv_def)
  then have "\<exists>rest. sent_log s i = recv_log s i @ rest" using stream_prefix by (fastforce simp: bytes_balanced_def)
  moreover have "one_holder s" using i by (simp add: tcp_inv_def)
  ultimately show ?thesis by (simp add: one_holder_def exclusive_def)
qed

theorem tcp_messages_in_order_witness:
  "\<exists>s. (tcp_step False)\<^sup>*\<^sup>* (tcp_connected (snd sample_connect) (snd sample_accept)) s \<and>
     recv_log s 0 = [(5, [7])] \<and> (\<exists>rest. sent_log s 0 = recv_log s 0 @ rest) \<and>
     (\<forall>t u b. recv_buffer (receiver s t) = Some b \<and> recv_buffer (receiver s u) = Some b \<longrightarrow> t = u)"
proof -
  obtain s where s: "(tcp_step False)\<^sup>*\<^sup>* (tcp_connected (snd sample_connect) (snd sample_accept)) s" "s = xni_sample (sent_tb False) False (sample_tb [7, 0] xni_header 5 1 True) False False [] False S_Idle (R_Full 0) [(5, [7])] [(5, [7])]"
    using sample_received by blast
  have f: "recv_log s 0 = [(5, [7])]" using s(2) by (simp_all add: xni_sample_def)
  show ?thesis using s(1) f tcp_messages_in_order [OF sample_works s(1), of 0] by blast
qed



end
