(* ===== verification/Target_Setup.thy ===== *)
theory Target_Setup
  imports Pass_Loop "HOL-Library.Signed_Division"
begin

unbundle bit_operations_syntax

text \<open>
  What is computed for a target before its passes (\<^verbatim>\<open>src/common/target_data.c\<close>): the bytes and
  operations of a pass, the ports of an end-to-end operation and the chain of workers; and what is
  reset before each pass (\<^verbatim>\<open>src/base/target_ttd_before_pass.c\<close>).  The target data of the passes is
  extended by the members that only the set-up uses.  Memory allocation is a parameter; \<open>None\<close> is a
  null pointer that is followed or an access outside an array.  Signed arithmetic that overflows its
  32 bits wraps.
\<close>

abbreviation (input) RESTART_FLAG_RESUME_COPY :: u64 where "RESTART_FLAG_RESUME_COPY \<equiv> 2"

record xint_restart =
  restart_filename :: "string option"
  initial_restart_offset :: int
  byte_offset :: int
  restart_flags :: u64

record xint_target_setup = xint_target_data +
  td_reqsize :: int
  td_numreqs :: int
  td_bytes :: int
  td_start_offset :: int
  td_start_delay :: rat
  td_rwratio :: rat
  td_target_bytes_to_xfer_per_pass :: u64
  td_target_ops :: u64
  td_restartp :: "xint_restart option"
  seek_range :: int
  seek_interleave :: int
  seek_stride :: int
  seek_iosize :: u32
  seek_num_rw_ops :: int
  seek_total_ops :: int
  seek_NumSeekHistBuckets :: int
  seek_NumDistHistBuckets :: int

subsection \<open>The bytes and operations of a pass\<close>

text \<open>A resumed copy starts behind what was copied.\<close>

definition xfer_resume :: "xint_target_setup \<Rightarrow> xint_target_setup" where
  "xfer_resume t =
     (case td_restartp t of
        Some r \<Rightarrow>
          if flag_on (restart_flags r) RESTART_FLAG_RESUME_COPY
          then t\<lparr>td_start_offset := byte_offset r sdiv td_block_size t,
                 td_target_bytes_to_xfer_per_pass := td_target_bytes_to_xfer_per_pass t - word_of_int (byte_offset r)\<rparr>
          else t
      | None \<Rightarrow> t)"

definition xfer_ops :: "xint_target_setup \<Rightarrow> xint_target_setup" where
  "xfer_ops t =
     (let n = td_target_bytes_to_xfer_per_pass t; x = word_of_int (td_xfer_size t)
      in t\<lparr>td_target_ops := (if n mod x \<noteq> 0 then n div x + 1 else n div x)\<rparr>)"

definition xdd_calculate_xfer_info :: "xint_target_setup \<Rightarrow> xint_target_setup" where
  "xdd_calculate_xfer_info t =
     (let t1 = t\<lparr>td_xfer_size := int32 (td_reqsize t * td_block_size t)\<rparr> in
      if td_xfer_size t1 = 0 then t1\<lparr>td_target_bytes_to_xfer_per_pass := 0\<rparr>
      else if td_numreqs t \<noteq> 0
      then xfer_ops (xfer_resume (t1\<lparr>td_target_bytes_to_xfer_per_pass := word_of_int (td_numreqs t * td_xfer_size t1)\<rparr>))
      else if td_bytes t \<noteq> 0
      then xfer_ops (xfer_resume (t1\<lparr>td_target_bytes_to_xfer_per_pass := word_of_int (td_bytes t)\<rparr>))
      else t1\<lparr>td_target_bytes_to_xfer_per_pass := 0\<rparr>)"

subsection \<open>The ports of an end-to-end operation\<close>

text \<open>The port counts of the address table, the total of the ports and the queue depth.\<close>

record e2e_ports =
  address_table_host_count :: nat
  address_table_port_count :: int
  address_table :: "int list"
  ports_queue_depth :: int
  ports_abort :: bool

definition set_port_counts :: "int \<Rightarrow> e2e_ports \<Rightarrow> e2e_ports option" where
  "set_port_counts v p =
     (let n = address_table_host_count p in
      if length (address_table p) < n then None
      else Some (p\<lparr>address_table := replicate n v @ drop n (address_table p)\<rparr>))"

text \<open>One turn of the loop that deals out the ports: the next entry and the table.\<close>

definition deal_port :: "nat \<Rightarrow> nat \<times> int list \<Rightarrow> nat \<times> int list" where
  "deal_port hosts = (\<lambda>(entry, tab).
     (if hosts \<le> Suc entry then 0 else Suc entry, tab[entry := tab ! entry + 1]))"

definition xdd_build_target_data_substructure_e2e :: "e2e_ports \<Rightarrow> e2e_ports option" where
  "xdd_build_target_data_substructure_e2e p =
     (if address_table_host_count p = 0 then Some (p\<lparr>ports_abort := True\<rparr>)
      else if 0 < address_table_port_count p then Some (p\<lparr>ports_queue_depth := address_table_port_count p\<rparr>)
      else if ports_queue_depth p \<le> int (address_table_host_count p)
      then set_port_counts 1 (p\<lparr>ports_queue_depth := int (address_table_host_count p),
             address_table_port_count := int (address_table_host_count p)\<rparr>)
      else map_option (\<lambda>p1. p1\<lparr>address_table_port_count := ports_queue_depth p1,
               address_table := snd ((deal_port (address_table_host_count p1) ^^ nat (ports_queue_depth p1))
                                       (0, address_table p1))\<rparr>)
             (set_port_counts 0 p))"

subsection \<open>The chain of workers\<close>

text \<open>
  A new worker, all zero; \<open>mem\<close> says whether the memory for the worker and for its end-to-end structure
  was there.  The build without the SCSI generic interface refuses \<^verbatim>\<open>TO_SGIO\<close>.
\<close>

definition zero_worker :: xint_worker_data where
  "zero_worker = \<lparr>wd_next_wdp = None, wd_worker_number = 0, wd_thread_id = 0, wd_ts_entry = 0, wd_task = zero_task,
     wd_counters = zero_counters\<lparr>tc_pass_number := 0\<rparr>, wd_worker_thread_target_sync = 0, wd_e2ep = None,
     wd_current_state = 0\<rparr>"

definition xdd_create_worker_data :: "bool \<Rightarrow> xint_e2e option \<Rightarrow> nat \<Rightarrow> xdd \<Rightarrow> xint_worker_data option" where
  "xdd_create_worker_data mem e2e q s =
     (let d = zero_worker\<lparr>wd_worker_number := int q\<rparr> in
      if \<not> mem \<or> opt s TO_SGIO then None
      else if \<not> opt s TO_ENDTOEND then Some d
      else case e2e of
             None \<Rightarrow> None
           | Some p \<Rightarrow> Some (d\<lparr>wd_e2ep := Some (case td_e2ep (td s) of Some te \<Rightarrow> te | None \<Rightarrow> p)\<rparr>))"

text \<open>The loop that chains the workers; a worker is named by its number.\<close>

primrec link_workers :: "(nat \<Rightarrow> xint_worker_data option) \<Rightarrow> nat list \<Rightarrow> nat ptr \<Rightarrow> xdd \<Rightarrow> xdd option" where
  "link_workers new [] prev s = Some s"
| "link_workers new (q # qs) prev s =
     (let wdp = map_option (\<lambda>_. q) (new q);
          s1 = (case new q of Some d \<Rightarrow> on_wd q (\<lambda>_. d) s | None \<Rightarrow> s)
      in if q = 0 then link_workers new qs wdp (on_td (\<lambda>t. t\<lparr>td_next_wdp := wdp\<rparr>) s1)
         else case prev of
                None \<Rightarrow> None
              | Some v \<Rightarrow> link_workers new qs wdp (on_wd v (\<lambda>d. d\<lparr>wd_next_wdp := wdp\<rparr>) s1))"

definition build_workers :: "(nat \<Rightarrow> bool) \<Rightarrow> (nat \<Rightarrow> xint_e2e option) \<Rightarrow> xdd \<Rightarrow> xdd option" where
  "build_workers mem e2e s =
     link_workers (\<lambda>q. xdd_create_worker_data (mem q) (e2e q) q s) [0..<td_queue_depth (td s)] None s"

subsection \<open>Before a pass\<close>

definition xdd_raw_before_pass :: "xdd \<Rightarrow> xdd option" where
  "xdd_raw_before_pass s =
     (if \<not> opt s TO_READAFTERWRITE then Some s
      else case td_rawp (td s) of
             None \<Rightarrow> None
           | Some p \<Rightarrow> Some (on_td (\<lambda>t. t\<lparr>td_rawp := Some (p\<lparr>raw_msg_last_sequence := 0,
               raw_msg := (raw_msg p)\<lparr>rm_sequence := 0\<rparr>, raw_prev_loc := 0, raw_prev_len := 0,
               raw_data_ready := 0, raw_data_length := 0\<rparr>)\<rparr>) s))"

definition xdd_e2e_before_pass :: "xdd \<Rightarrow> xdd option" where
  "xdd_e2e_before_pass s =
     (if \<not> opt s TO_ENDTOEND then Some s
      else case td_e2ep (td s) of
             None \<Rightarrow> None
           | Some p \<Rightarrow> Some (on_td (\<lambda>t. t\<lparr>td_e2ep := Some (p\<lparr>e2e_msg_sequence_number := 0, e2e_sr_time := 0\<rparr>)\<rparr>) s))"

definition zero_pass_counters :: "xint_target_counters \<Rightarrow> xint_target_counters" where
  "zero_pass_counters c = c\<lparr>tc_accumulated_op_time := 0, tc_accumulated_read_op_time := 0,
     tc_accumulated_write_op_time := 0, tc_accumulated_op_count := 0, tc_accumulated_read_op_count := 0,
     tc_accumulated_write_op_count := 0, tc_accumulated_bytes_xfered := 0, tc_accumulated_bytes_read := 0,
     tc_accumulated_bytes_written := 0, tc_current_op_number := 0, tc_current_byte_offset := 0,
     tc_current_io_status := 0, tc_current_io_errno := 0, tc_current_error_count := 0\<rparr>"

definition zero_pass_stats :: "xint_extended_stats \<Rightarrow> xint_extended_stats" where
  "zero_pass_stats x = x\<lparr>my_longest_op_time := 0, my_longest_op_number := 0, my_longest_read_op_time := 0,
     my_longest_read_op_number := 0, my_longest_write_op_time := 0, my_longest_write_op_number := 0,
     my_shortest_op_time := NCLK_MAX, my_shortest_op_number := 0, my_shortest_read_op_time := NCLK_MAX,
     my_shortest_read_op_number := 0, my_shortest_write_op_time := NCLK_MAX, my_shortest_write_op_number := 0\<rparr>"

text \<open>The walk along the workers that gives each the start of the pass.\<close>

partial_function (option) set_pass_start :: "nclk \<Rightarrow> nat ptr \<Rightarrow> xdd \<Rightarrow> xdd option" where
  "set_pass_start now p s =
     (case p of
        None \<Rightarrow> Some s
      | Some w \<Rightarrow> set_pass_start now (wd_next_wdp (wd s w))
                    (on_wd w (\<lambda>d. d\<lparr>wd_counters := (wd_counters d)\<lparr>tc_pass_start_time := now\<rparr>\<rparr>) s))"

text \<open>
  The target data is the struct \<open>t\<close> whose members the passes see as \<open>td s\<close>.  The times of the
  pass that only reports use and the CPU times are left out; the target offset table is made by
  \<open>tot_init\<close>, which is modelled with it.
\<close>

definition xdd_init_target_data_before_pass :: "nclk \<Rightarrow> xint_target_setup \<Rightarrow> xdd \<Rightarrow> xdd option" where
  "xdd_init_target_data_before_pass now t s =
     (let start = (if opt s TO_ENDTOEND \<and> opt s TO_E2E_DESTINATION then NCLK_MAX else now);
          s1 = on_td (\<lambda>d. d\<lparr>td_counters := (zero_pass_counters (td_counters d))\<lparr>tc_pass_start_time := start\<rparr>,
                 td_esp := map_option zero_pass_stats (td_esp d),
                 td_time_limit_expired := False, td_abort := False,
                 td_current_bytes_issued := 0, td_current_bytes_completed := 0,
                 td_current_bytes_remaining := td_target_bytes_to_xfer_per_pass t,
                 td_xfer_size := int32 (td_reqsize t * td_block_size t)\<rparr>) s
      in set_pass_start start (td_next_wdp (td s1)) s1)"

text \<open>
  The timer calibration and the start delay before it only sleep; the lockstep part of it is in the theory of
  the lockstep.
\<close>

definition xdd_target_ttd_before_pass :: "nclk \<Rightarrow> xint_target_setup \<Rightarrow> xdd \<Rightarrow> xdd option" where
  "xdd_target_ttd_before_pass now t s =
     Option.bind (xdd_raw_before_pass s) (\<lambda>s1. Option.bind (xdd_e2e_before_pass s1)
       (xdd_init_target_data_before_pass now t))"

subsection \<open>Operations cover the bytes\<close>

lemma uint_div_mod_int:
  fixes n :: u64
  assumes "0 < x" and "x < 2 ^ 31"
  shows "uint (n div word_of_int x) = uint n div x" and "uint (n mod word_of_int x) = uint n mod x"
proof -
  have "uint (word_of_int x :: u64) = x" using assms by (simp add: uint_word_of_int)
  then show "uint (n div word_of_int x) = uint n div x" "uint (n mod word_of_int x) = uint n mod x"
    by (simp_all add: uint_div uint_mod)
qed

lemma ceiling_div:
  fixes n x :: int
  assumes "0 < x"
  shows "(n + x - 1) div x = n div x + (if n mod x = 0 then 0 else 1)"
proof -
  define r where "r = n mod x"
  have r: "0 \<le> r" "r < x" using assms by (simp_all add: r_def)
  have "n + x - 1 = (r + x - 1) + n div x * x" by (simp add: r_def)
  then have "(n + x - 1) div x = ((r + x - 1) + n div x * x) div x" by (rule arg_cong)
  also have "\<dots> = n div x + (r + x - 1) div x" using assms by (subst div_mult_self1) simp_all
  finally have "(n + x - 1) div x = n div x + (r + x - 1) div x" .
  moreover have "(r + x - 1) div x = (if r = 0 then 0 else 1)"
  proof (cases "r = 0")
    case False
    have "(r + x - 1) div x = (x + (r - 1)) div x" by (simp add: algebra_simps)
    also have "\<dots> = 1 + (r - 1) div x" using assms by simp
    also have "(r - 1) div x = 0" using r False by (intro div_pos_pos_trivial) auto
    finally show ?thesis using False by simp
  qed (use r in \<open>simp add: div_pos_pos_trivial\<close>)
  ultimately show ?thesis by (simp add: r_def)
qed

lemma xfer_ops_ceiling:
  assumes "0 < td_xfer_size t" and "td_xfer_size t < 2 ^ 31"
  shows "uint (td_target_ops (xfer_ops t)) =
    (uint (td_target_bytes_to_xfer_per_pass t) + td_xfer_size t - 1) div td_xfer_size t"
proof -
  define n x where "n = td_target_bytes_to_xfer_per_pass t" and "x = td_xfer_size t"
  have x: "0 < x" "x < 2 ^ 31" using assms by (simp_all add: x_def)
  note dm = uint_div_mod_int [OF x, of n]
  have z: "n mod word_of_int x = 0 \<longleftrightarrow> uint n mod x = 0" using dm(2) by (simp add: uint_0_iff [symmetric])
  have "uint (td_target_ops (xfer_ops t)) = uint n div x + (if uint n mod x = 0 then 0 else 1)"
  proof (cases "uint n mod x = 0")
    case True
    then show ?thesis using dm(1) z by (simp add: xfer_ops_def n_def [symmetric] x_def [symmetric])
  next
    case False
    then have "x \<noteq> 1" by auto
    with x have "uint n div x \<le> uint n div 2" by (intro zdiv_mono2) auto
    moreover have "uint n < 2 ^ 64" using uint_lt2p [of n] by simp
    ultimately have b: "uint (n div word_of_int x) + 1 < 2 ^ 64" using dm(1) by simp
    then have "uint (n div word_of_int x + 1) = uint (n div word_of_int x) + 1"
      by (simp add: uint_word_ariths)
    then show ?thesis using dm(1) z False by (simp add: xfer_ops_def n_def [symmetric] x_def [symmetric])
  qed
  then show ?thesis using ceiling_div [OF x(1), of "uint n"] by (simp add: n_def x_def)
qed

subsection \<open>The chain of workers\<close>

abbreviation next_wdp :: "xdd \<Rightarrow> nat \<Rightarrow> nat ptr" where
  "next_wdp s \<equiv> \<lambda>w. wd_next_wdp (wd s w)"

lemma link_workers_chain:
  assumes "\<And>q. k \<le> q \<Longrightarrow> q < n \<Longrightarrow> new q = Some (d q) \<and> wd_next_wdp (d q) = None"
    and "0 < k" "k \<le> n" and "chain (next_wdp s) (td_next_wdp (td s)) [0..<k] None"
  shows "\<exists>s'. link_workers new [k..<n] (Some (k - 1)) s = Some s' \<and>
    chain (next_wdp s') (td_next_wdp (td s')) [0..<n] None \<and> td s' = td s \<and>
    (\<forall>w. wd_worker_thread_target_sync (wd s' w) =
       wd_worker_thread_target_sync (if k \<le> w \<and> w < n then d w else wd s w))"
  using assms
proof (induction "n - k" arbitrary: k s)
  case 0
  then show ?case by auto
next
  case (Suc m)
  then have k: "k < n" by simp
  define s1 where "s1 = on_wd (k - 1) (\<lambda>e. e\<lparr>wd_next_wdp := Some k\<rparr>) (on_wd k (\<lambda>_. d k) s)"
  have nk: "new k = Some (d k)" "wd_next_wdp (d k) = None" using Suc.prems(1) [of k] k by auto
  have e: "link_workers new [k..<n] (Some (k - 1)) s = link_workers new [Suc k..<n] (Some k) s1"
    using k nk Suc.prems(2) by (simp add: upt_conv_Cons s1_def Let_def)
  have "next_wdp s1 = (next_wdp s)(last [0..<k] := Some k, k := None)"
    using nk Suc.prems(2) by (auto simp: s1_def on_wd_def fun_eq_iff)
  moreover have "chain ((next_wdp s)(last [0..<k] := Some k, k := None)) (td_next_wdp (td s)) ([0..<k] @ [k]) None"
    by (rule chain_snoc_link [OF Suc.prems(4)]) (use Suc.prems(2) in auto)
  moreover have t: "td s1 = td s" by (simp add: s1_def on_wd_def)
  ultimately have c: "chain (next_wdp s1) (td_next_wdp (td s1)) [0..<Suc k] None" by (simp add: t)
  have "\<And>q. Suc k \<le> q \<Longrightarrow> q < n \<Longrightarrow> new q = Some (d q) \<and> wd_next_wdp (d q) = None" using Suc.prems(1) by simp
  moreover have "m = n - Suc k" using Suc.hyps(2) by simp
  ultimately obtain s' where s': "link_workers new [Suc k..<n] (Some k) s1 = Some s'"
      "chain (next_wdp s') (td_next_wdp (td s')) [0..<n] None" "td s' = td s1"
      "\<forall>w. wd_worker_thread_target_sync (wd s' w) =
         wd_worker_thread_target_sync (if Suc k \<le> w \<and> w < n then d w else wd s1 w)"
    using Suc.hyps(1) [OF _ _ _ _ c] k by (metis Suc_leI diff_Suc_1 zero_less_Suc)
  have "wd_worker_thread_target_sync (wd s' w) =
      wd_worker_thread_target_sync (if k \<le> w \<and> w < n then d w else wd s w)" for w
    using s'(4) k Suc.prems(2) by (auto simp: s1_def on_wd_def)
  then show ?case using s'(1-3) e t by auto
qed

lemma build_workers_chain:
  assumes "\<And>q. q < td_queue_depth (td s) \<Longrightarrow> mem q" and "0 < td_queue_depth (td s)"
    and "\<not> opt s TO_SGIO" and "opt s TO_ENDTOEND \<Longrightarrow> \<forall>q. e2e q \<noteq> None"
  shows "\<exists>s'. build_workers mem e2e s = Some s' \<and> workers s' [0..<td_queue_depth (td s)] \<and>
    td s' = (td s)\<lparr>td_next_wdp := Some 0\<rparr> \<and> (\<forall>w<td_queue_depth (td s). wd_worker_thread_target_sync (wd s' w) = 0)"
proof -
  define n new where "n = td_queue_depth (td s)" and "new = (\<lambda>q. xdd_create_worker_data (mem q) (e2e q) q s)"
  have e2e: "opt s TO_ENDTOEND \<Longrightarrow> e2e q \<noteq> None" for q using assms(4) by blast
  have new: "\<exists>d. new q = Some d \<and> wd_next_wdp d = None \<and> wd_worker_thread_target_sync d = 0" if "q < n" for q
    using assms(1) [of q] assms(3) e2e [of q] that
    by (auto simp: new_def xdd_create_worker_data_def Let_def n_def zero_worker_def split: option.splits)
  define d where "d = (\<lambda>q. the (new q))"
  have d: "new q = Some (d q)" "wd_next_wdp (d q) = None" "wd_worker_thread_target_sync (d q) = 0" if "q < n" for q
    using new [OF that] by (auto simp: d_def)
  define s1 where "s1 = on_td (\<lambda>t. t\<lparr>td_next_wdp := Some 0\<rparr>) (on_wd 0 (\<lambda>_. d 0) s)"
  have n: "0 < n" using assms(2) by (simp add: n_def)
  have e: "build_workers mem e2e s = link_workers new [1..<n] (Some (1 - 1)) s1"
    using n d [OF n] by (simp add: build_workers_def n_def [symmetric] new_def [symmetric] upt_conv_Cons s1_def Let_def)
  have s1: "td s1 = (td s)\<lparr>td_next_wdp := Some 0\<rparr>" "wd s1 = (wd s)(0 := d 0)" by (simp_all add: s1_def on_td_def on_wd_def)
  have "chain (next_wdp s1) (td_next_wdp (td s1)) [0..<1] None" using d(2) [OF n] by (simp add: s1)
  with link_workers_chain [of 1 n new d s1] d n obtain s' where
    s': "link_workers new [1..<n] (Some (1 - 1)) s1 = Some s'"
      "chain (next_wdp s') (td_next_wdp (td s')) [0..<n] None" "td s' = td s1"
      "\<forall>w. wd_worker_thread_target_sync (wd s' w) = wd_worker_thread_target_sync (if 1 \<le> w \<and> w < n then d w else wd s1 w)"
    by auto
  have "wd_worker_thread_target_sync (wd s' w) = 0" if "w < n" for w
    using s'(4) d(3) [OF that] s1(2) that by (cases "w = 0") auto
  moreover have "workers s' [0..<n]" using s'(2,3) s1(1) by (simp add: workers_def n_def)
  ultimately show ?thesis using e s'(1,3) s1(1) by (auto simp: n_def)
qed

subsection \<open>The start of a pass\<close>

lemma set_pass_start_chain:
  assumes "chain (next_wdp s) p xs None"
  shows "\<exists>f. set_pass_start now p s = Some (s\<lparr>wd := f\<rparr>) \<and>
    (\<forall>w. f w = (if w \<in> set xs then (wd s w)\<lparr>wd_counters := (wd_counters (wd s w))\<lparr>tc_pass_start_time := now\<rparr>\<rparr>
                else wd s w))"
  using assms
proof (induction xs arbitrary: p s)
  case Nil
  then show ?case by (auto simp: set_pass_start.simps intro: exI [of _ "wd s"])
next
  case (Cons w xs)
  let ?g = "\<lambda>d. d\<lparr>wd_counters := (wd_counters d)\<lparr>tc_pass_start_time := now\<rparr>\<rparr>"
  define s1 where "s1 = on_wd w ?g s"
  have w: "p = Some w" "w \<notin> set xs" "chain (next_wdp s) (wd_next_wdp (wd s w)) xs None"
    using Cons.prems chain_to_null_distinct [OF Cons.prems] by auto
  have n: "next_wdp s1 = next_wdp s" by (auto simp: s1_def on_wd_def fun_eq_iff)
  then have "chain (next_wdp s1) (wd_next_wdp (wd s w)) xs None" using w(3) by simp
  from Cons.IH [OF this] obtain f where
    f: "set_pass_start now (wd_next_wdp (wd s w)) s1 = Some (s1\<lparr>wd := f\<rparr>)"
      "\<forall>v. f v = (if v \<in> set xs then ?g (wd s1 v) else wd s1 v)" by blast
  have "set_pass_start now p s = Some (s\<lparr>wd := f\<rparr>)"
    using f(1) w(1) by (subst set_pass_start.simps) (simp add: s1_def [symmetric], simp add: s1_def on_wd_def)
  moreover have "f v = (if v \<in> set (w # xs) then ?g (wd s v) else wd s v)" for v
    using f(2) w(2) by (auto simp: s1_def on_wd_def)
  ultimately show ?case by blast
qed

lemma before_pass_effect:
  assumes "workers s ws"
  obtains f where "xdd_init_target_data_before_pass now t s =
      Some (s\<lparr>td := (td s)\<lparr>td_counters := (zero_pass_counters (td_counters (td s)))\<lparr>tc_pass_start_time :=
               (if opt s TO_ENDTOEND \<and> opt s TO_E2E_DESTINATION then NCLK_MAX else now)\<rparr>,
             td_esp := map_option zero_pass_stats (td_esp (td s)), td_time_limit_expired := False, td_abort := False,
             td_current_bytes_issued := 0, td_current_bytes_completed := 0,
             td_current_bytes_remaining := td_target_bytes_to_xfer_per_pass t,
             td_xfer_size := int32 (td_reqsize t * td_block_size t)\<rparr>, wd := f\<rparr>)"
    "\<And>w. wd_e2ep (f w) = wd_e2ep (wd s w)"
proof -
  let ?start = "if opt s TO_ENDTOEND \<and> opt s TO_E2E_DESTINATION then NCLK_MAX else now"
  define s1 where "s1 = on_td (\<lambda>d. d\<lparr>td_counters := (zero_pass_counters (td_counters d))\<lparr>tc_pass_start_time := ?start\<rparr>,
                 td_esp := map_option zero_pass_stats (td_esp d),
                 td_time_limit_expired := False, td_abort := False,
                 td_current_bytes_issued := 0, td_current_bytes_completed := 0,
                 td_current_bytes_remaining := td_target_bytes_to_xfer_per_pass t,
                 td_xfer_size := int32 (td_reqsize t * td_block_size t)\<rparr>) s"
  have "chain (next_wdp s1) (td_next_wdp (td s1)) ws None" using assms by (simp add: s1_def workers_def on_td_def)
  from set_pass_start_chain [OF this, of ?start] obtain f where
    f: "set_pass_start ?start (td_next_wdp (td s1)) s1 = Some (s1\<lparr>wd := f\<rparr>)" "\<And>w. wd_e2ep (f w) = wd_e2ep (wd s1 w)"
    by auto
  show thesis
  proof (rule that)
    show "wd_e2ep (f w) = wd_e2ep (wd s w)" for w using f(2) by (simp add: s1_def on_td_def)
  qed (use f(1) in \<open>simp add: xdd_init_target_data_before_pass_def s1_def on_td_def Let_def\<close>)
qed

subsection \<open>Dealing out the ports\<close>

lemma deal_ports:
  assumes "0 < h" and "h \<le> length tab" and "\<forall>i<h. tab ! i = 0"
  shows "fst ((deal_port h ^^ n) (0, tab)) = n mod h \<and> length (snd ((deal_port h ^^ n) (0, tab))) = length tab \<and>
    (\<forall>i<h. snd ((deal_port h ^^ n) (0, tab)) ! i = int (n div h) + (if i < n mod h then 1 else 0))"
proof (induction n)
  case 0
  then show ?case using assms by simp
next
  case (Suc n)
  obtain e tb where et: "(deal_port h ^^ n) (0, tab) = (e, tb)" by fastforce
  have IH: "e = n mod h" "length tb = length tab" "\<forall>i<h. tb ! i = int (n div h) + (if i < n mod h then 1 else 0)"
    using Suc et by simp_all
  have e: "e < h" using IH(1) assms(1) by simp
  have st: "(deal_port h ^^ Suc n) (0, tab) = (if h \<le> Suc e then 0 else Suc e, tb[e := tb ! e + 1])"
    using et by (simp add: deal_port_def)
  show ?case
  proof (cases "Suc e = h")
    case True
    then have "Suc n mod h = 0" "Suc n div h = Suc (n div h)"
      using IH(1) by (simp_all add: mod_Suc div_Suc)
    then show ?thesis using st True IH e assms(2) by (auto simp: nth_list_update)
  next
    case False
    then have "Suc n mod h = Suc e" "Suc n div h = n div h"
      using IH(1) e by (simp_all add: mod_Suc div_Suc)
    then show ?thesis using st False IH e assms(2) by (auto simp: nth_list_update)
  qed
qed

subsection \<open>Properties\<close>

lemma link_workers_null:
  assumes "new q = None" and "Suc q < n" and "k \<le> q"
  shows "link_workers new [k..<n] prev s = None"
  using assms(3)
proof (induction "q - k" arbitrary: k prev s)
  case 0
  then have "k = q" by simp
  then show ?case using assms(1,2) by (auto simp: upt_conv_Cons Let_def split: option.splits)
next
  case (Suc m)
  then have k: "k < q" "k < n" "m = q - Suc k" using assms(2) by auto
  from Suc.hyps(1) [OF k(3)] k(1) have "link_workers new [Suc k..<n] p z = None" for p z by simp
  then show ?case using k(2) by (cases "k = 0"; cases prev) (simp_all add: upt_conv_Cons Let_def)
qed

text \<open>C25: With memory for all its workers (and no SCSI generic I/O) the chain built for a target holds one worker
  per unit of queue depth, in order, and from there no interleaving of a pass releases a task to a worker
  that is running one; without memory for a worker that is not the last, building it follows a null
  pointer.\<close>

theorem workers_built:
  assumes "0 < td_queue_depth (td s)" and "\<not> opt s TO_SGIO" and "opt s TO_ENDTOEND \<Longrightarrow> \<forall>q. e2e q \<noteq> None"
  shows "((\<forall>q<td_queue_depth (td s). mem q) \<longrightarrow>
      (\<exists>s'. build_workers mem e2e s = Some s' \<and> workers s' [0..<td_queue_depth (td s)] \<and>
        (\<forall>k pc ks t now pc' w t'. (pass_step k)\<^sup>*\<^sup>* (P_Top, \<lambda>_. K_Idle, s') (pc, ks, t) \<longrightarrow>
           target_step k now pc t = Some (pc', Some w, t') \<longrightarrow> ks w \<noteq> K_Running))) \<and>
    ((\<exists>q. Suc q < td_queue_depth (td s) \<and> \<not> mem q) \<longrightarrow> build_workers mem e2e s = None)"
proof (intro conjI impI)
  assume m: "\<forall>q<td_queue_depth (td s). mem q"
  obtain s' where s': "build_workers mem e2e s = Some s'" "workers s' [0..<td_queue_depth (td s)]"
    using build_workers_chain [of s mem e2e] m assms by blast
  have inv: "pass_inv [0..<td_queue_depth (td s)] (P_Top, \<lambda>_. K_Idle, s')" using s'(2) by (simp add: pass_inv_def)
  have "ks w \<noteq> K_Running" if "(pass_step k)\<^sup>*\<^sup>* (P_Top, \<lambda>_. K_Idle, s') (pc, ks, t)"
    "target_step k now pc t = Some (pc', Some w, t')" for k pc ks t now pc' w t'
    using target_step_safe [OF reachable_inv [OF that(1) inv] that(2)] by blast
  with s' show "\<exists>s'. build_workers mem e2e s = Some s' \<and> workers s' [0..<td_queue_depth (td s)] \<and>
        (\<forall>k pc ks t now pc' w t'. (pass_step k)\<^sup>*\<^sup>* (P_Top, \<lambda>_. K_Idle, s') (pc, ks, t) \<longrightarrow>
           target_step k now pc t = Some (pc', Some w, t') \<longrightarrow> ks w \<noteq> K_Running)" by blast
next
  assume "\<exists>q. Suc q < td_queue_depth (td s) \<and> \<not> mem q"
  then obtain q where q: "Suc q < td_queue_depth (td s)" "\<not> mem q" by blast
  then have "xdd_create_worker_data (mem q) (e2e q) q s = None" by (simp add: xdd_create_worker_data_def)
  with q(1) show "build_workers mem e2e s = None"
    unfolding build_workers_def by (intro link_workers_null [where q = q]) simp_all
qed

theorem workers_built_witness:
  "(\<exists>s'. build_workers (\<lambda>_. True) (\<lambda>_. None) (sample 3 0 0) = Some s' \<and> workers s' [0, 1, 2]) \<and>
   build_workers (\<lambda>q. q \<noteq> 1) (\<lambda>_. None) (sample 3 0 0) = None"
proof -
  let ?s = "sample 3 0 0"
  have h: "0 < td_queue_depth (td ?s)" "\<not> opt ?s TO_SGIO" "opt ?s TO_ENDTOEND \<Longrightarrow> \<forall>q. (\<lambda>_. None) q \<noteq> (None :: xint_e2e option)"
    by (simp_all add: sample_simps flag_on_def)
  have q: "td_queue_depth (td ?s) = 3" "[0..<3] = [0, 1, 2 :: nat]" by (simp_all add: sample_simps upt_rec)
  note w = workers_built [OF h, unfolded q]
  have "\<exists>q. Suc q < 3 \<and> \<not> (q \<noteq> 1)" by (rule exI [of _ 1]) simp
  with w [of "\<lambda>_. True"] w [of "\<lambda>q. q \<noteq> 1"] show ?thesis by auto
qed

text \<open>C35: Without port counts the ports of an end-to-end target are dealt out evenly: the queue depth becomes at
  least the number of hosts, host \<open>i\<close> gets the quotient of the two, plus one for the first hosts of
  the remainder, and the counts add up to the queue depth.\<close>

theorem ports_dealt:
  assumes "0 < address_table_host_count p" and "address_table_host_count p \<le> length (address_table p)"
    and "address_table_port_count p \<le> 0"
  shows "\<exists>p' n. xdd_build_target_data_substructure_e2e p = Some p' \<and>
    ports_queue_depth p' = int n \<and> address_table_port_count p' = int n \<and>
    int n = max (ports_queue_depth p) (int (address_table_host_count p)) \<and>
    (\<forall>i<address_table_host_count p. address_table p' ! i =
       int (n div address_table_host_count p) + (if i < n mod address_table_host_count p then 1 else 0)) \<and>
    sum_list (take (address_table_host_count p) (address_table p')) = int n"
proof -
  define h where "h = address_table_host_count p"
  have h: "0 < h" "h \<le> length (address_table p)" using assms by (simp_all add: h_def)
  have even: "sum_list (take h tb) = int n"
    if "h \<le> length tb" "\<forall>i<h. tb ! i = int (n div h) + (if i < n mod h then 1 else 0)" for tb :: "int list" and n
  proof -
    have "take h tb = map (\<lambda>i. int (n div h) + (if i < n mod h then 1 else 0)) [0..<h]"
      using that by (intro nth_equalityI) auto
    then have "sum_list (take h tb) = (\<Sum>i<h. int (n div h) + (if i < n mod h then 1 else 0))"
      by (simp add: interv_sum_list_conv_sum_set_nat atLeast0LessThan)
    also have "\<dots> = int h * int (n div h) + int (card {i. i < h \<and> i < n mod h})"
      by (simp add: sum.distrib sum.If_cases Int_def)
    also have "{i. i < h \<and> i < n mod h} = {..<n mod h}" using h(1) by (auto intro: less_trans [OF _ mod_less_divisor])
    finally show ?thesis by (simp add: of_nat_mult [symmetric] of_nat_add [symmetric] del: of_nat_mult of_nat_add)
  qed
  show ?thesis
  proof (cases "ports_queue_depth p \<le> int h")
    case True
    let ?p' = "p\<lparr>ports_queue_depth := int h, address_table_port_count := int h,
        address_table := replicate h 1 @ drop h (address_table p)\<rparr>"
    have e: "xdd_build_target_data_substructure_e2e p = Some ?p'"
      using True h assms(3)
      by (simp add: xdd_build_target_data_substructure_e2e_def set_port_counts_def Let_def h_def [symmetric])
    have c: "\<forall>i<h. address_table ?p' ! i = int (h div h) + (if i < h mod h then 1 else 0)"
      using h by (simp add: nth_append)
    show ?thesis
      by (rule exI [of _ ?p'], rule exI [of _ h])
        (use e c even [OF _ c] True h in \<open>simp add: h_def [symmetric]\<close>)
  next
    case False
    define n tb where "n = nat (ports_queue_depth p)" and "tb = snd ((deal_port h ^^ n) (0, replicate h 0 @ drop h (address_table p)))"
    have n: "ports_queue_depth p = int n" using False by (simp add: n_def)
    let ?p' = "p\<lparr>address_table := tb, address_table_port_count := int n\<rparr>"
    have e: "xdd_build_target_data_substructure_e2e p = Some ?p'"
      using False h assms(3) n
      by (simp add: xdd_build_target_data_substructure_e2e_def set_port_counts_def Let_def h_def [symmetric] tb_def)
    have "0 < h" "h \<le> length (replicate h 0 @ drop h (address_table p))" "\<forall>i<h. (replicate h 0 @ drop h (address_table p)) ! i = 0"
      using h by (simp_all add: nth_append)
    from deal_ports [OF this, of n] have c: "\<forall>i<h. tb ! i = int (n div h) + (if i < n mod h then 1 else 0)" "h \<le> length tb"
      using h by (simp_all add: tb_def)
    show ?thesis
      by (rule exI [of _ ?p'], rule exI [of _ n])
        (use e c even [OF c(2,1)] False n in \<open>simp add: h_def [symmetric]\<close>)
  qed
qed

text \<open>Sixteen ports for three hosts.\<close>

theorem ports_dealt_witness:
  "\<exists>p'. xdd_build_target_data_substructure_e2e \<lparr>address_table_host_count = 3, address_table_port_count = 0,
      address_table = [0, 0, 0, 0], ports_queue_depth = 16, ports_abort = False\<rparr> = Some p' \<and>
    address_table p' ! 0 = 6 \<and> address_table p' ! 1 = 5 \<and> address_table p' ! 2 = 5"
proof -
  let ?p = "\<lparr>address_table_host_count = 3, address_table_port_count = 0,
      address_table = [0, 0, 0, 0], ports_queue_depth = 16, ports_abort = False\<rparr>"
  have "0 < address_table_host_count ?p" "address_table_host_count ?p \<le> length (address_table ?p)"
    "address_table_port_count ?p \<le> 0" by simp_all
  from ports_dealt [OF this] obtain p' n where p': "xdd_build_target_data_substructure_e2e ?p = Some p'" "int n = 16"
    "\<forall>i<3. address_table p' ! i = int (n div 3) + (if i < n mod 3 then 1 else 0)" by auto
  have "n = 16" using p'(2) by simp
  then show ?thesis using p'(1,3) by (intro exI [of _ p']) simp
qed

text \<open>The counters that are reset before a pass do not include those of the no-op operations.\<close>

lemma noop_counters_not_reset:
  "balanced (zero_pass_counters c) \<longleftrightarrow> tc_accumulated_noop_op_count c = 0 \<and> tc_accumulated_bytes_noop c = 0"
  by (auto simp: balanced_def zero_pass_counters_def)

end
