(* ===== verification/Seek_List.thy ===== *)
theory Seek_List
  imports Target_Setup "HOL-Library.Monad_Syntax"
begin

unbundle bit_operations_syntax

text \<open>
  The list of seek locations of a target (\<^verbatim>\<open>src/common/access_pattern.c\<close>, with \<^verbatim>\<open>xdd_getnexttoken\<close> and
  \<^verbatim>\<open>xdd_random_float\<close> of \<^verbatim>\<open>src/client/utils.c\<close>): generating it, saving it to and loading it from a file.
  A \<^verbatim>\<open>double\<close> is a rational number; \<open>fl\<close> rounds the exact result of an operation to a \<^verbatim>\<open>double\<close> and is \<open>None\<close>
  where it is not finite.  A conversion to an integer drops the fraction and wraps.  \<open>rnd k\<close> is the \<open>k\<close>-th
  result of \<^verbatim>\<open>random()\<close>.  A file is the list of lines that \<^verbatim>\<open>fgets\<close> returns.  \<open>None\<close> is a division by zero, an
  access outside an array, a scan past the end of a line or the use of a variable with no value.
\<close>

abbreviation (input) SO_SEEK_SAVE :: u64 where "SO_SEEK_SAVE \<equiv> 1"
abbreviation (input) SO_SEEK_LOAD :: u64 where "SO_SEEK_LOAD \<equiv> 2"
abbreviation (input) SO_SEEK_RANDOM :: u64 where "SO_SEEK_RANDOM \<equiv> 4"
abbreviation (input) SO_SEEK_STAGGER :: u64 where "SO_SEEK_STAGGER \<equiv> 8"
abbreviation (input) SO_SEEK_DISTHIST :: u64 where "SO_SEEK_DISTHIST \<equiv> 0x20"
abbreviation (input) SO_SEEK_SEEKHIST :: u64 where "SO_SEEK_SEEKHIST \<equiv> 0x40"
abbreviation (input) XINT_THROTTLE_OPS :: u32 where "XINT_THROTTLE_OPS \<equiv> 1"
abbreviation (input) XINT_THROTTLE_BW :: u32 where "XINT_THROTTLE_BW \<equiv> 2"
abbreviation (input) MILLION :: rat where "MILLION \<equiv> 1000000"
abbreviation (input) BILLION :: rat where "BILLION \<equiv> 1000000000"

type_synonym rounding = "rat \<Rightarrow> rat option"

subsection \<open>Numbers\<close>

definition fdiv :: "rounding \<Rightarrow> rat \<Rightarrow> rat \<Rightarrow> rat option" where
  "fdiv fl a b = (if b = 0 then None else fl (a / b))"

definition ctrunc :: "rat \<Rightarrow> int" where
  "ctrunc q = (if q < 0 then - \<lfloor>- q\<rfloor> else \<lfloor>q\<rfloor>)"

definition to_u64 :: "rat \<Rightarrow> u64" where
  "to_u64 q = word_of_int (ctrunc q)"

definition DOUBLE_MAX :: rat where
  "DOUBLE_MAX = (2 ^ 53 - 1) * 2 ^ 971"

abbreviation (input) RAND_MAX :: rat where "RAND_MAX \<equiv> 2147483647"

definition xdd_random_float :: "rounding \<Rightarrow> (nat \<Rightarrow> int) \<Rightarrow> nat \<Rightarrow> rat option" where
  "xdd_random_float fl rnd k =
     do { recip \<leftarrow> fl (1 / RAND_MAX);
          rval \<leftarrow> fl (recip * of_int (rnd k));
          if 1 < rval then fl (1 / rval) else Some rval }"

subsection \<open>The time of each operation\<close>

text \<open>The nanoseconds per operation, their variance, and the shortest and longest time per operation in seconds.\<close>

definition throttle_times :: "rounding \<Rightarrow> xint_target_setup \<Rightarrow> (u64 \<times> u64 \<times> rat \<times> rat) option" where
  "throttle_times fl t =
     (case td_throtp t of
        None \<Rightarrow> Some (0, 0, DOUBLE_MAX, 0)
      | Some th \<Rightarrow>
          if throttle th \<le> 0 then Some (0, 0, DOUBLE_MAX, 0)
          else if flag_on (throttle_type th) XINT_THROTTLE_BW
          then do { bytes_per_sec \<leftarrow> fl (throttle th * MILLION);
                    bytes_per_request \<leftarrow> fl (of_int (int32 (td_reqsize t * td_block_size t)));
                    seconds_per_op \<leftarrow> fdiv fl bytes_per_request bytes_per_sec;
                    nano \<leftarrow> fl (seconds_per_op * BILLION);
                    if 0 < throttle_variance th
                    then do { low \<leftarrow> fl (throttle th - throttle_variance th);
                              low_bw \<leftarrow> fl (low * MILLION);
                              seconds_high \<leftarrow> fdiv fl bytes_per_request low_bw;
                              hi \<leftarrow> fl (throttle th + throttle_variance th);
                              hi_bw \<leftarrow> fl (hi * MILLION);
                              seconds_low \<leftarrow> fdiv fl bytes_per_request hi_bw;
                              diff \<leftarrow> fl (seconds_per_op - seconds_high);
                              variance \<leftarrow> fl (diff * BILLION);
                              Some (to_u64 nano, to_u64 variance, seconds_low, seconds_high) }
                    else Some (to_u64 nano, 0, DOUBLE_MAX, 0) }
          else if flag_on (throttle_type th) (XINT_THROTTLE_OPS OR XINT_THROTTLE_DELAY)
          then do { seconds_per_op \<leftarrow> (if flag_on (throttle_type th) XINT_THROTTLE_OPS
                                        then fdiv fl 1 (throttle th) else Some (throttle th));
                    nano \<leftarrow> fl (seconds_per_op * BILLION);
                    seconds \<leftarrow> (if 0 < throttle_variance th then fdiv fl 1 (throttle_variance th) else Some 0);
                    variance \<leftarrow> fl (seconds * BILLION);
                    Some (to_u64 nano, to_u64 variance, DOUBLE_MAX, 0) }
          else Some (0, 0, DOUBLE_MAX, 0))"

subsection \<open>The entries of the list\<close>

text \<open>
  The location of operation \<open>i\<close>, and the count of random numbers used.  A random location after the first is the
  last of \<^verbatim>\<open>seek_interleave\<close> draws.
\<close>

definition random_location :: "rounding \<Rightarrow> (nat \<Rightarrow> int) \<Rightarrow> xint_target_setup \<Rightarrow> nat \<Rightarrow> nat \<Rightarrow> (u64 \<times> nat) option" where
  "random_location fl rnd t i k =
     (let blocks = (seek_range t * 1024) sdiv td_block_size t;
          draws = (if i = 0 then 1 else nat (seek_interleave t))
      in if td_block_size t = 0 then None
         else if draws = 0 then Some (0, k)
         else do { r \<leftarrow> fl (of_int blocks);
                   f \<leftarrow> xdd_random_float fl rnd (k + draws - 1);
                   x \<leftarrow> fl (r * f);
                   Some (to_u64 x, k + draws) })"

definition seek_gap :: "xint_target_setup \<Rightarrow> int option" where
  "seek_gap t =
     (if \<not> flag_on (td_seek_options t) SO_SEEK_STAGGER then Some 0
      else if seek_num_rw_ops t = 1 then None
      else Some (if td_reqsize t < seek_stride t then seek_stride t - td_reqsize t
                 else ((seek_range t - td_reqsize t) - int32 (seek_num_rw_ops t * td_reqsize t)) sdiv
                        (seek_num_rw_ops t - 1)))"

definition sequential_location :: "xint_target_setup \<Rightarrow> nat \<Rightarrow> u64 option" where
  "sequential_location t i =
     do { gap \<leftarrow> seek_gap t;
          Some (word_of_int (td_start_offset t
            + (if 1 < seek_interleave t then int32 (seek_interleave t * td_reqsize t) else 0)
            + int i * (int32 (td_reqsize t * seek_interleave t) + gap))) }"

definition seek_location :: "rounding \<Rightarrow> (nat \<Rightarrow> int) \<Rightarrow> xint_target_setup \<Rightarrow> nat \<Rightarrow> nat \<Rightarrow> (u64 \<times> nat) option" where
  "seek_location fl rnd t i k =
     (if flag_on (td_seek_options t) SO_SEEK_RANDOM then random_location fl rnd t i k
      else map_option (\<lambda>l. (l, k)) (sequential_location t i))"

text \<open>The operation: a read when the truncated product of the ratio and the index has grown.\<close>

definition seek_operation :: "rounding \<Rightarrow> xint_target_setup \<Rightarrow> nat \<Rightarrow> int \<Rightarrow> (seek_op \<times> int) option" where
  "seek_operation fl t i prev =
     (if td_rwratio t = -1 then Some (SO_OP_NOOP, prev)
      else do { p \<leftarrow> fl (td_rwratio t * of_nat i);
                let percent = int32 (ctrunc p);
                Some (if prev < percent then SO_OP_READ else SO_OP_WRITE, percent) })"

definition seek_time :: "rounding \<Rightarrow> (nat \<Rightarrow> int) \<Rightarrow> xint_target_setup \<Rightarrow> u64 \<Rightarrow> rat \<Rightarrow> rat \<Rightarrow> u64 \<Rightarrow> nat
    \<Rightarrow> (u64 \<times> nat) option" where
  "seek_time fl rnd t variance low high rel k =
     (case td_throtp t of
        None \<Rightarrow> Some (rel, k)
      | Some th \<Rightarrow>
          if throttle_variance th \<le> 0 then Some (rel, k)
          else do { d \<leftarrow> fl (high - low);
                    f \<leftarrow> xdd_random_float fl rnd k;
                    e \<leftarrow> fl (d * f);
                    v \<leftarrow> fl (e * BILLION);
                    b \<leftarrow> fl (of_int (uint (rel - variance)));
                    x \<leftarrow> fl (b + v);
                    Some (to_u64 x, k + 1) })"

primrec gen_seeks :: "rounding \<Rightarrow> (nat \<Rightarrow> int) \<Rightarrow> xint_target_setup \<Rightarrow> u64 \<Rightarrow> u64 \<Rightarrow> rat \<Rightarrow> rat
    \<Rightarrow> nat list \<Rightarrow> int \<Rightarrow> u64 \<Rightarrow> nat \<Rightarrow> seek_t list option" where
  "gen_seeks fl rnd t nano variance low high [] prev rel k = Some []"
| "gen_seeks fl rnd t nano variance low high (i # is) prev rel k =
     do { (loc, k1) \<leftarrow> seek_location fl rnd t i k;
          (oper, prev1) \<leftarrow> seek_operation fl t i prev;
          (tm, k2) \<leftarrow> seek_time fl rnd t variance low high rel k1;
          es \<leftarrow> gen_seeks fl rnd t nano variance low high is prev1 (rel + nano) k2;
          Some (\<lparr>operation = oper, reqsize = td_reqsize t, block_location = loc, time1 = tm, time2 = 0\<rparr> # es) }"

definition generate_seek_list :: "rounding \<Rightarrow> (nat \<Rightarrow> int) \<Rightarrow> xint_target_setup \<Rightarrow> xint_target_setup option" where
  "generate_seek_list fl rnd t =
     do { (nano, variance, low, high) \<leftarrow> throttle_times fl t;
          n \<leftarrow> fl (of_int (uint nano));
          rel \<leftarrow> fl (n + td_start_delay t);
          let t1 = t\<lparr>seek_num_rw_ops := seek_total_ops t\<rparr>;
          es \<leftarrow> gen_seeks fl rnd t1 nano variance low high [0..<nat (seek_total_ops t)]
                  (if 1 / 2 \<le> td_rwratio t then -1 else 0) (to_u64 rel) 0;
          Some (t1\<lparr>td_seeks := es\<rparr>) }"

subsection \<open>Printing and scanning numbers\<close>

definition digit :: "nat \<Rightarrow> char" where
  "digit d = char_of (48 + d)"

fun dec :: "nat \<Rightarrow> string" where
  "dec n = (if n < 10 then [digit n] else dec (n div 10) @ [digit (n mod 10)])"

definition zero_pad :: "nat \<Rightarrow> string \<Rightarrow> string" where
  "zero_pad w x = replicate (w - length x) (CHR ''0'') @ x"

definition dec_int :: "int \<Rightarrow> string" where
  "dec_int i = (if i < 0 then CHR ''-'' # dec (nat (- i)) else dec (nat i))"

definition is_space :: "char \<Rightarrow> bool" where
  "is_space c \<longleftrightarrow> c = CHR '' '' \<or> c = CHR 0x09 \<or> c = CHR 0x0A \<or> c = CHR 0x0B \<or> c = CHR 0x0C \<or> c = CHR 0x0D"

definition is_digit :: "char \<Rightarrow> bool" where
  "is_digit c \<longleftrightarrow> 48 \<le> (of_char c :: nat) \<and> (of_char c :: nat) \<le> 57"

definition digits_value :: "string \<Rightarrow> int" where
  "digits_value ds = foldl (\<lambda>a c. 10 * a + (int (of_char c) - 48)) 0 ds"

text \<open>The conversions of \<^verbatim>\<open>sscanf\<close> for integers, and for a character after white space.\<close>

definition scan_int :: "string \<Rightarrow> (int \<times> string) option" where
  "scan_int x =
     (let x1 = dropWhile is_space x;
          neg = (x1 \<noteq> [] \<and> hd x1 = CHR ''-'');
          x2 = (if neg \<or> (x1 \<noteq> [] \<and> hd x1 = CHR ''+'') then tl x1 else x1);
          ds = takeWhile is_digit x2
      in if ds = [] then None
         else Some (if neg then - digits_value ds else digits_value ds, dropWhile is_digit x2))"

definition scan_char :: "string \<Rightarrow> (char \<times> string) option" where
  "scan_char x = (case dropWhile is_space x of [] \<Rightarrow> None | c # cs \<Rightarrow> Some (c, cs))"

definition to_llu :: "int \<Rightarrow> u64" where
  "to_llu v = (if 2 ^ 64 \<le> \<bar>v\<bar> then -1 else word_of_int v)"

subsection \<open>Saving the list\<close>

definition op_letter :: "seek_op \<Rightarrow> string" where
  "op_letter oper = (case oper of SO_OP_READ \<Rightarrow> ''r'' | SO_OP_WRITE \<Rightarrow> ''w'' | SO_OP_NOOP \<Rightarrow> ''n'' | _ \<Rightarrow> ''u'')"

definition seek_line :: "nat \<Rightarrow> seek_t \<Rightarrow> string" where
  "seek_line i e = zero_pad 10 (dec i) @ '' '' @ zero_pad 12 (dec (unat (block_location e))) @ '' '' @
     dec_int (reqsize e) @ '' '' @ op_letter (operation e) @ '' '' @ zero_pad 16 (dec (unat (time1 e))) @ '' '' @
     zero_pad 16 (dec (unat (time2 e))) @ [CHR 0x0A]"

definition seek_distance :: "seek_t \<Rightarrow> seek_t \<Rightarrow> u64" where
  "seek_distance a b = (if block_location a < block_location b then block_location b - block_location a
                        else block_location a - block_location b)"

definition seek_distances :: "seek_t list \<Rightarrow> u64 list" where
  "seek_distances es = map2 seek_distance es (tl es)"

definition distance_line :: "xint_target_setup \<Rightarrow> string" where
  "distance_line t =
     (let ds = seek_distances (td_seeks t);
          total = sum_list ds
      in ''# Longest seek='' @ dec (unat (foldl max 0 ds)) @
         '', Shortest seek='' @ dec (unat (foldl min (word_of_int (seek_range t)) ds)) @
         '', Average seek distance='' @ dec (unat (total div word_of_int (seek_total_ops t))) @ [CHR 0x0A])"

definition title_line :: string where
  "title_line = ''#Ordinal Location Reqsize Operation Time1 Time2'' @ [CHR 0x0A]"

text \<open>The lines of the saved list; the average divides by the number of operations.\<close>

definition save_lines :: "xint_target_setup \<Rightarrow> string list option" where
  "save_lines t =
     (if seek_total_ops t = 0 then None
      else Some (distance_line t # title_line #
                 map2 seek_line [0..<length (td_seeks t)] (td_seeks t)))"

text \<open>A histogram: each value counts in the bucket its quotient by the divisor names.\<close>

primrec fill_buckets :: "u64 \<Rightarrow> u64 list \<Rightarrow> nat list \<Rightarrow> nat list option" where
  "fill_buckets divisor [] buckets = Some buckets"
| "fill_buckets divisor (v # vs) buckets =
     (let b = unat (v div divisor)
      in if b < length buckets then fill_buckets divisor vs (buckets[b := buckets ! b + 1]) else None)"

definition hist_line :: "string \<Rightarrow> nat \<Rightarrow> nat \<Rightarrow> string" where
  "hist_line kind i n = ''#'' @ kind @ ''Hist '' @ zero_pad 4 (dec i) @ '' '' @
     replicate (10 - length (dec n)) (CHR '' '') @ dec n @ [CHR 0x0A]"

definition histogram :: "string \<Rightarrow> string \<Rightarrow> u64 \<Rightarrow> int \<Rightarrow> u64 list \<Rightarrow> string list option" where
  "histogram progname kind divisor n vs =
     (if divisor = 0
      then Some [''#'' @ progname @ '': Cannot print '' @ (if kind = ''Dist'' then ''Distance'' else kind) @
                 '' histogram - '' @ dec_int n @ '' is not enough range'' @ [CHR 0x0A]]
      else map_option (\<lambda>bs. map2 (hist_line kind) [0..<length bs] bs) (fill_buckets divisor vs (replicate (nat n) 0)))"

definition seek_histogram :: "string \<Rightarrow> xint_target_setup \<Rightarrow> string list option" where
  "seek_histogram progname t =
     (let n = seek_NumSeekHistBuckets t in
      if \<not> flag_on (td_seek_options t) SO_SEEK_SEEKHIST then Some []
      else if n = 0 then None
      else histogram progname ''Seek'' (word_of_int (seek_range t sdiv n)) n (map block_location (td_seeks t)))"

definition distance_histogram :: "string \<Rightarrow> xint_target_setup \<Rightarrow> string list option" where
  "distance_histogram progname t =
     (let n = seek_NumDistHistBuckets t;
          longest = (if flag_on (td_seek_options t) SO_SEEK_SAVE then foldl max 0 (seek_distances (td_seeks t)) else 0)
      in if \<not> flag_on (td_seek_options t) SO_SEEK_DISTHIST then Some []
         else if n = 0 then None
         else histogram progname ''Dist'' (longest div word_of_int n) n (butlast (seek_distances (td_seeks t))))"

text \<open>What is written to the file that was opened; there is memory for the buckets.\<close>

definition xdd_save_seek_list :: "string \<Rightarrow> xint_target_setup \<Rightarrow> string list option" where
  "xdd_save_seek_list progname t =
     do { ls \<leftarrow> (if flag_on (td_seek_options t) SO_SEEK_SAVE then save_lines t else Some []);
          sh \<leftarrow> seek_histogram progname t;
          dh \<leftarrow> distance_histogram progname t;
          Some (ls @ sh @ dh) }"

subsection \<open>Loading the list\<close>

definition xdd_getnexttoken :: "string \<Rightarrow> string option" where
  "xdd_getnexttoken x =
     (let blank = (\<lambda>c. c = CHR 0x09 \<or> c = CHR '' '') in
      case dropWhile (\<lambda>c. \<not> blank c) x of [] \<Rightarrow> None | y # ys \<Rightarrow> Some (dropWhile blank ys))"

text \<open>The variables of the loop; they keep their values from line to line.\<close>

record seek_vars =
  sv_loc :: "u64 option"
  sv_reqsz :: "int option"
  sv_rw :: "char option"
  sv_t1 :: "u64 option"
  sv_t2 :: "u64 option"

definition scan_times :: "string \<Rightarrow> seek_vars \<Rightarrow> seek_vars" where
  "scan_times x v =
     (case scan_int x of
        None \<Rightarrow> v
      | Some (t1, x1) \<Rightarrow>
          (case scan_int x1 of
             None \<Rightarrow> v\<lparr>sv_t1 := Some (to_llu t1)\<rparr>
           | Some (t2, _) \<Rightarrow> v\<lparr>sv_t1 := Some (to_llu t1), sv_t2 := Some (to_llu t2)\<rparr>))"

definition sscanf_seek :: "string \<Rightarrow> seek_vars \<Rightarrow> seek_vars" where
  "sscanf_seek x v =
     (case scan_int x of
        None \<Rightarrow> v
      | Some (_, x1) \<Rightarrow>
          (case scan_int x1 of
             None \<Rightarrow> v
           | Some (loc, x2) \<Rightarrow>
               let v1 = v\<lparr>sv_loc := Some (to_llu loc)\<rparr> in
               (case scan_int x2 of
                  None \<Rightarrow> v1
                | Some (r, x3) \<Rightarrow>
                    let v2 = v1\<lparr>sv_reqsz := Some (int32 r)\<rparr> in
                    (case scan_char x3 of
                       None \<Rightarrow> v2
                     | Some (c, x4) \<Rightarrow> scan_times x4 (v2\<lparr>sv_rw := Some c\<rparr>)))))"

definition entry_of :: "seek_vars \<Rightarrow> seek_t option" where
  "entry_of v =
     do { loc \<leftarrow> sv_loc v; r \<leftarrow> sv_reqsz v; c \<leftarrow> sv_rw v; t1 \<leftarrow> sv_t1 v; t2 \<leftarrow> sv_t2 v;
          Some \<lparr>operation = (if c = CHR ''w'' \<or> c = CHR ''W'' then SO_OP_WRITE
                              else if c = CHR ''n'' \<or> c = CHR ''N'' then SO_OP_NOOP else SO_OP_READ),
                reqsize = r, block_location = loc, time1 = t1, time2 = t2\<rparr> }"

definition is_comment :: "string \<Rightarrow> bool" where
  "is_comment x \<longleftrightarrow> x \<noteq> [] \<and> hd x = CHR ''#''"

primrec load_lines :: "string list \<Rightarrow> nat \<Rightarrow> seek_vars \<Rightarrow> int \<Rightarrow> seek_t list \<Rightarrow> (int \<times> seek_t list) option" where
  "load_lines [] i v high es = Some (high, es)"
| "load_lines (x # xs) i v high es =
     (if is_comment x then load_lines xs i v high es
      else do { tok \<leftarrow> xdd_getnexttoken x;
                if is_comment tok then load_lines xs i v high es
                else do { let v1 = sscanf_seek x v;
                          e \<leftarrow> entry_of v1;
                          if i < length es then load_lines xs (Suc i) v1 (max high (reqsize e)) (es[i := e])
                          else None } })"

definition xdd_load_seek_list :: "string list option \<Rightarrow> xint_target_setup \<Rightarrow> (int \<times> xint_target_setup) option" where
  "xdd_load_seek_list loadfile t =
     (case loadfile of
        None \<Rightarrow> Some (-1, t)
      | Some xs \<Rightarrow>
          do { (high, es) \<leftarrow> load_lines xs 0 \<lparr>sv_loc = None, sv_reqsz = None, sv_rw = None, sv_t1 = None, sv_t2 = None\<rparr> 0
                               (td_seeks t);
               Some (0, t\<lparr>td_seeks := es, seek_iosize := word_of_int (high * td_block_size t)\<rparr>) })"

text \<open>Initialization: the list that was made, and the file it was saved to.\<close>

definition xdd_init_seek_list :: "rounding \<Rightarrow> (nat \<Rightarrow> int) \<Rightarrow> string \<Rightarrow> string list option \<Rightarrow> xint_target_setup
    \<Rightarrow> (xint_target_setup \<times> string list) option" where
  "xdd_init_seek_list fl rnd progname loadfile t =
     do { _ \<leftarrow> throttle_times fl t;
          t2 \<leftarrow> (if flag_on (td_seek_options t) SO_SEEK_LOAD
                 then do { (_, t1) \<leftarrow> xdd_load_seek_list loadfile t;
                           Some (t1\<lparr>td_seek_options := clear_flag (td_seek_options t1) SO_SEEK_LOAD\<rparr>) }
                 else generate_seek_list fl rnd t);
          xs \<leftarrow> (if flag_on (td_seek_options t2) (SO_SEEK_SAVE OR SO_SEEK_SEEKHIST OR SO_SEEK_DISTHIST)
                 then xdd_save_seek_list progname t2 else Some []);
          Some (t2, xs) }"

text \<open>The start of a target thread sizes the list by the operations of a pass and initializes it.\<close>

definition target_seek_list :: "rounding \<Rightarrow> (nat \<Rightarrow> int) \<Rightarrow> string \<Rightarrow> string list option \<Rightarrow> xint_target_setup
    \<Rightarrow> (xint_target_setup \<times> string list) option" where
  "target_seek_list fl rnd progname loadfile t =
     (let n = int32 (uint (td_target_ops t))
      in xdd_init_seek_list fl rnd progname loadfile (t\<lparr>seek_total_ops := n,
           td_seeks := replicate (nat n) \<lparr>operation = SO_OP_UNSET, reqsize = 0, block_location = 0, time1 = 0, time2 = 0\<rparr>\<rparr>))"

subsection \<open>Where making or saving a list goes wrong\<close>

text \<open>
  A staggered list of one operation divides by zero, also with a stride.  When the range is not a multiple
  of the number of buckets, a location at its end counts in a bucket behind the last.
\<close>

lemma stagger_one_op:
  "sequential_location t i = None \<longleftrightarrow> flag_on (td_seek_options t) SO_SEEK_STAGGER \<and> seek_num_rw_ops t = 1"
  by (auto simp: sequential_location_def seek_gap_def)

lemma histogram_overrun: "histogram progname ''Seek'' (word_of_int (11 sdiv 2)) 2 [10] = None"
  by (simp add: histogram_def Let_def signed_divide_int_def)

subsection \<open>Decimal numbers scan back\<close>

declare dec.simps [simp del]

lemma digit_props:
  assumes "d < 10"
  shows "is_digit (digit d)" and "int (of_char (digit d)) = 48 + int d" and "\<not> is_space (digit d)"
    and "digit d \<noteq> CHR ''-''" "digit d \<noteq> CHR ''+''" "digit d \<noteq> CHR ''#''"
proof -
  have v: "(of_char (digit d) :: nat) = 48 + d" using assms by (simp add: digit_def)
  show "is_digit (digit d)" "int (of_char (digit d)) = 48 + int d" using v assms by (simp_all add: is_digit_def)
  have n: "digit d \<noteq> c" if "(of_char c :: nat) < 48" for c using that v by auto
  show "\<not> is_space (digit d)" unfolding is_space_def using n by simp
  show "digit d \<noteq> CHR ''-''" "digit d \<noteq> CHR ''+''" "digit d \<noteq> CHR ''#''" by (rule n, simp)+
qed

lemma digits_value_append: "digits_value (xs @ [c]) = 10 * digits_value xs + (int (of_char c) - 48)"
  by (simp add: digits_value_def)

lemma dec_props:
  "dec n \<noteq> []" "\<forall>c\<in>set (dec n). \<exists>d<10. c = digit d" "digits_value (dec n) = int n"
proof -
  have "dec n \<noteq> [] \<and> (\<forall>c\<in>set (dec n). \<exists>d<10. c = digit d) \<and> digits_value (dec n) = int n"
  proof (induction n rule: dec.induct)
    case (1 n)
    show ?case
    proof (cases "n < 10")
      case True
      then show ?thesis using digit_props(2) [OF True] by (auto simp: dec.simps [of n] digits_value_def)
    next
      case False
      have m: "n mod 10 < 10" by simp
      have d: "dec n = dec (n div 10) @ [digit (n mod 10)]" using False by (simp add: dec.simps [of n])
      have "digits_value (dec n) = 10 * int (n div 10) + int (n mod 10)"
        using 1 [OF False] digit_props(2) [OF m] by (simp add: d digits_value_append)
      also have "\<dots> = int n" by (simp add: zdiv_int zmod_int)
      finally have v: "digits_value (dec n) = int n" .
      have "\<exists>d<10. c = digit d" if "c \<in> set (dec n)" for c
        using that 1 [OF False] m unfolding d by (cases "c = digit (n mod 10)") (blast, simp)
      with v d show ?thesis by (intro conjI ballI) simp_all
    qed
  qed
  then show "dec n \<noteq> []" "\<forall>c\<in>set (dec n). \<exists>d<10. c = digit d" "digits_value (dec n) = int n" by blast+
qed

lemma zero_digit: "CHR ''0'' = digit 0"
proof -
  have "(of_char (CHR ''0'') :: nat) = of_char (digit 0)" using digit_props(2) [of 0] by simp
  then show ?thesis by (simp only: of_char_eq_iff)
qed

lemma padded_props:
  "zero_pad w (dec n) \<noteq> []" "\<forall>c\<in>set (zero_pad w (dec n)). \<exists>d<10. c = digit d"
  "digits_value (zero_pad w (dec n)) = int n"
proof -
  show "zero_pad w (dec n) \<noteq> []" using dec_props(1) by (simp add: zero_pad_def)
  have "\<exists>d<10. CHR ''0'' = digit d" using zero_digit by (intro exI [of _ 0]) simp
  then show "\<forall>c\<in>set (zero_pad w (dec n)). \<exists>d<10. c = digit d"
    using dec_props(2) [of n] by (auto simp: zero_pad_def)
  have "digits_value (replicate k (CHR ''0'')) = 0" for k
    by (induction k) (simp_all add: digits_value_def)
  then have "digits_value (replicate k (CHR ''0'') @ x) = digits_value x" for k x
    unfolding digits_value_def foldl_append by (simp only:)
  then show "digits_value (zero_pad w (dec n)) = int n"
    using dec_props(3) [of n] unfolding zero_pad_def by (simp only:)
qed

lemma takeWhile_digits:
  assumes "\<forall>c\<in>set ds. \<exists>d<10. c = digit d" and "\<not> is_digit c"
  shows "takeWhile is_digit (ds @ c # rest) = ds" and "dropWhile is_digit (ds @ c # rest) = c # rest"
proof -
  have g: "is_digit x" if x: "x \<in> set ds" for x
  proof -
    obtain d where "d < 10" "x = digit d" using bspec [OF assms(1) x] by blast
    then show ?thesis by (simp only: digit_props(1))
  qed
  show "takeWhile is_digit (ds @ c # rest) = ds" using takeWhile_append2 [of ds is_digit "c # rest"] g assms(2) by simp
  show "dropWhile is_digit (ds @ c # rest) = c # rest" using dropWhile_append2 [of ds is_digit "c # rest"] g assms(2) by simp
qed

lemma dropWhile_spaces:
  "\<forall>b\<in>set bs. is_space b \<Longrightarrow> \<not> is_space y \<Longrightarrow> dropWhile is_space (bs @ y # ys) = y # ys"
  by (simp add: dropWhile_append2)

lemma scan_digits:
  assumes "ds \<noteq> []" and "\<forall>c\<in>set ds. \<exists>d<10. c = digit d" and "\<not> is_digit c" and "\<forall>b\<in>set bs. is_space b"
  shows "scan_int (bs @ ds @ c # rest) = Some (digits_value ds, c # rest)"
proof -
  obtain x xs where ds: "ds = x # xs" using assms(1) by (cases ds) auto
  obtain d where x: "d < 10" "x = digit d" using assms(2) ds by auto
  have nx: "\<not> is_space x" "x \<noteq> CHR ''-''" "x \<noteq> CHR ''+''"
    unfolding x(2) using digit_props(3-5) [OF x(1)] by blast+
  have "dropWhile is_space (bs @ ds @ c # rest) = ds @ c # rest"
    using dropWhile_spaces [OF assms(4) nx(1), of "xs @ c # rest"] ds by simp
  then show ?thesis
    using takeWhile_digits [OF assms(2,3), of rest] nx(2,3) ds unfolding scan_int_def Let_def by simp
qed

lemma scan_negative:
  assumes "ds \<noteq> []" and "\<forall>c\<in>set ds. \<exists>d<10. c = digit d" and "\<not> is_digit c" and "\<forall>b\<in>set bs. is_space b"
  shows "scan_int (bs @ CHR ''-'' # ds @ c # rest) = Some (- digits_value ds, c # rest)"
proof -
  have "dropWhile is_space (bs @ CHR ''-'' # ds @ c # rest) = CHR ''-'' # ds @ c # rest"
    by (rule dropWhile_spaces [OF assms(4)]) (simp add: is_space_def)
  then show ?thesis
    using takeWhile_digits [OF assms(2,3), of rest] assms(1) unfolding scan_int_def Let_def by simp
qed

lemma scan_dec_int:
  assumes "\<not> is_digit c" and "\<forall>b\<in>set bs. is_space b"
  shows "scan_int (bs @ dec_int i @ c # rest) = Some (i, c # rest)"
proof (cases "i < 0")
  case True
  then show ?thesis using scan_negative [OF dec_props(1,2) assms, of "nat (- i)" rest] dec_props(3) [of "nat (- i)"]
    by (simp add: dec_int_def)
next
  case False
  then show ?thesis using scan_digits [OF dec_props(1,2) assms, of "nat i" rest] dec_props(3) [of "nat i"]
    by (simp add: dec_int_def)
qed

lemma scan_padded:
  assumes "\<not> is_digit c" and "\<forall>b\<in>set bs. is_space b"
  shows "scan_int (bs @ zero_pad w (dec n) @ c # rest) = Some (int n, c # rest)"
  using scan_digits [OF padded_props(1,2) assms, of w n rest] padded_props(3) [of w n] by simp

subsection \<open>A saved list loads back\<close>

lemma scan_line:
  shows "scan_int (zero_pad w (dec n) @ CHR '' '' # rest) = Some (int n, CHR '' '' # rest)"
    and "scan_int (CHR '' '' # zero_pad w (dec n) @ CHR '' '' # rest) = Some (int n, CHR '' '' # rest)"
    and "scan_int (CHR '' '' # zero_pad w (dec n) @ [CHR 0x0A]) = Some (int n, [CHR 0x0A])"
    and "scan_int (CHR '' '' # dec_int i @ CHR '' '' # rest) = Some (i, CHR '' '' # rest)"
proof -
  have s: "\<not> is_digit (CHR '' '')" "\<not> is_digit (CHR 0x0A)" "\<forall>b\<in>set []. is_space b" "\<forall>b\<in>set '' ''. is_space b"
    by (simp_all add: is_digit_def is_space_def)
  show "scan_int (zero_pad w (dec n) @ CHR '' '' # rest) = Some (int n, CHR '' '' # rest)"
    using scan_padded [OF s(1,3)] by simp
  show "scan_int (CHR '' '' # zero_pad w (dec n) @ CHR '' '' # rest) = Some (int n, CHR '' '' # rest)"
    using scan_padded [OF s(1,4)] by simp
  show "scan_int (CHR '' '' # zero_pad w (dec n) @ [CHR 0x0A]) = Some (int n, [CHR 0x0A])"
    using scan_padded [OF s(2,4)] by simp
  show "scan_int (CHR '' '' # dec_int i @ CHR '' '' # rest) = Some (i, CHR '' '' # rest)"
    using scan_dec_int [OF s(1,4)] by simp
qed

lemma to_llu_unat: "to_llu (int (unat (x :: u64))) = x"
proof -
  have "int (unat x) < 2 ^ 64" using uint_lt2p [of x] by simp
  then show ?thesis by (simp add: to_llu_def)
qed

lemma sscanf_seek_line:
  "sscanf_seek (seek_line i e) v = \<lparr>sv_loc = Some (block_location e), sv_reqsz = Some (int32 (reqsize e)),
     sv_rw = Some (hd (op_letter (operation e))), sv_t1 = Some (time1 e), sv_t2 = Some (time2 e)\<rparr>"
proof -
  obtain c where c: "op_letter (operation e) = [c]" "\<not> is_space c"
    by (cases "operation e") (simp_all add: op_letter_def is_space_def)
  have ch: "scan_char (CHR '' '' # c # x) = Some (c, x)" for x
    using c(2) by (simp add: scan_char_def is_space_def)
  show ?thesis
    unfolding sscanf_seek_def seek_line_def scan_times_def scan_line c(1) ch option.case prod.case Let_def append_Cons append_Nil
      to_llu_unat
    by simp
qed

definition loadable :: "seek_t \<Rightarrow> bool" where
  "loadable e \<longleftrightarrow> operation e \<in> {SO_OP_READ, SO_OP_WRITE, SO_OP_NOOP} \<and> int32 (reqsize e) = reqsize e"

lemma entry_of_line: "loadable e \<Longrightarrow> entry_of (sscanf_seek (seek_line i e) v) = Some e"
  unfolding sscanf_seek_line entry_of_def loadable_def
  by (cases e) (auto simp: op_letter_def)

lemma digits_head:
  assumes "ds \<noteq> []" and "\<forall>c\<in>set ds. \<exists>d<10. c = digit d"
  shows "\<not> is_comment (ds @ rest)"
proof -
  obtain x xs where ds: "ds = x # xs" using assms(1) by (cases ds) auto
  then obtain d where "d < 10" "x = digit d" using assms(2) by auto
  then show ?thesis using digit_props(6) ds by (simp add: is_comment_def)
qed

lemma padded_no_blank:
  assumes "c \<in> set (zero_pad w (dec n))"
  shows "\<not> (c = CHR 0x09 \<or> c = CHR '' '')"
proof -
  obtain d where d: "d < 10" "c = digit d" using bspec [OF padded_props(2) assms] by blast
  then have "\<not> is_space c" by (simp only: digit_props(3) not_False_eq_True)
  then show ?thesis by (auto simp: is_space_def)
qed

lemma next_token:
  assumes "\<forall>c\<in>set xs. \<not> (c = CHR 0x09 \<or> c = CHR '' '')" and "\<not> (y = CHR 0x09 \<or> y = CHR '' '')"
  shows "xdd_getnexttoken (xs @ CHR '' '' # y # ys) = Some (y # ys)"
proof -
  have "dropWhile (\<lambda>c. \<not> (c = CHR 0x09 \<or> c = CHR '' '')) (xs @ CHR '' '' # y # ys) = CHR '' '' # y # ys"
    using dropWhile_append2 [of xs "\<lambda>c. \<not> (c = CHR 0x09 \<or> c = CHR '' '')" "CHR '' '' # y # ys"] assms(1) by simp
  then show ?thesis unfolding xdd_getnexttoken_def Let_def using assms(2) by simp
qed

lemma next_token_line:
  "\<exists>tok. xdd_getnexttoken (seek_line i e) = Some tok \<and> \<not> is_comment tok"
proof -
  define z where "z = zero_pad 12 (dec (unat (block_location e)))"
  obtain y ys where y: "z = y # ys" using padded_props(1) unfolding z_def by (meson neq_Nil_conv)
  obtain r where r: "seek_line i e = zero_pad 10 (dec i) @ CHR '' '' # z @ r"
    by (simp add: seek_line_def z_def)
  have "\<not> (y = CHR 0x09 \<or> y = CHR '' '')" 
    by (rule padded_no_blank [of y 12 "unat (block_location e)"]) (use y z_def in simp)
  then have "xdd_getnexttoken (seek_line i e) = Some (z @ r)"
    using next_token [of "zero_pad 10 (dec i)" y "ys @ r"] padded_no_blank r y by simp
  moreover have "\<not> is_comment (z @ r)" unfolding z_def by (rule digits_head [OF padded_props(1,2)])
  ultimately show ?thesis by blast
qed

lemma load_line:
  assumes "loadable e" and "n < length es"
  shows "load_lines (seek_line i e # xs) n v high es =
    load_lines xs (Suc n) (sscanf_seek (seek_line i e) v) (max high (reqsize e)) (es[n := e])"
proof -
  have c: "\<not> is_comment (seek_line i e)" unfolding seek_line_def by (rule digits_head [OF padded_props(1,2)])
  obtain tok where t: "xdd_getnexttoken (seek_line i e) = Some tok" "\<not> is_comment tok" using next_token_line by blast
  show ?thesis using c t assms(2) entry_of_line [OF assms(1)] by simp
qed

lemma load_saved_lines:
  assumes "\<forall>e\<in>set fs. loadable e" and "length hs = length fs"
  shows "\<exists>w. load_lines (map2 seek_line [k..<k + length fs] fs @ xs) (length gs) v high (gs @ hs) =
    load_lines xs (length gs + length fs) w (foldl max high (map reqsize fs)) (gs @ fs)"
  using assms
proof (induction fs arbitrary: k gs hs v high)
  case (Cons f fs)
  obtain h hs' where h: "hs = h # hs'" "length hs' = length fs" using Cons.prems(2) by (cases hs) auto
  define v1 where "v1 = sscanf_seek (seek_line k f) v"
  have u: "[k..<k + length (f # fs)] = k # [Suc k..<Suc k + length fs]"
    by (simp add: upt_conv_Cons del: upt_Suc)
  have "load_lines (map2 seek_line [k..<k + length (f # fs)] (f # fs) @ xs) (length gs) v high (gs @ hs) =
    load_lines (map2 seek_line [Suc k..<Suc k + length fs] fs @ xs) (length (gs @ [f])) v1 (max high (reqsize f))
      ((gs @ [f]) @ hs')"
    using Cons.prems load_line [of f "length gs" "gs @ hs" k]
    unfolding u h by (simp add: v1_def del: load_lines.simps upt_Suc)
  with Cons.IH [OF _ h(2), of "Suc k" "gs @ [f]" v1 "max high (reqsize f)"] Cons.prems show ?case
    by (auto simp del: load_lines.simps upt_Suc)
qed auto

lemma load_comments:
  "\<forall>x\<in>set xs. is_comment x \<Longrightarrow> load_lines (xs @ ys) i v high es = load_lines ys i v high es"
  by (induction xs) simp_all

lemma histogram_comments:
  assumes "histogram progname kind divisor n vs = Some xs" and "x \<in> set xs"
  shows "is_comment x"
  using assms by (auto simp: histogram_def is_comment_def hist_line_def split: if_splits)

lemma save_comments:
  assumes "seek_histogram progname t = Some sh" and "distance_histogram progname t = Some dh" and "x \<in> set (sh @ dh)"
  shows "is_comment x"
proof (cases "x \<in> set sh")
  case True
  then show ?thesis using assms(1) histogram_comments unfolding seek_histogram_def Let_def by (auto split: if_splits)
next
  case False
  then have "x \<in> set dh" using assms(3) by simp
  then show ?thesis using assms(2) histogram_comments unfolding distance_histogram_def Let_def by (auto split: if_splits)
qed

text \<open>C24: A seek list that is saved and loaded back is the same list: for entries that read, write or do nothing
  with request sizes of 32 bits, all histograms being written behind the list as comments, loading the
  file into a target with a list of that length gives it the entries, and an I/O size that is the
  largest request size times the block size.\<close>

theorem seek_list_roundtrip:
  assumes "flag_on (td_seek_options t) SO_SEEK_SAVE" and "\<forall>e\<in>set (td_seeks t). loadable e"
    and "xdd_save_seek_list progname t = Some xs"
    and "length (td_seeks t') = length (td_seeks t)"
  shows "xdd_load_seek_list (Some xs) t' = Some (0, t'\<lparr>td_seeks := td_seeks t,
    seek_iosize := word_of_int (foldl max 0 (map reqsize (td_seeks t)) * td_block_size t')\<rparr>)"
proof -
  let ?ls = "map2 seek_line [0..<0 + length (td_seeks t)] (td_seeks t)"
  obtain sh dh where x: "xs = [distance_line t, title_line] @ ?ls @ (sh @ dh) @ []"
    "seek_histogram progname t = Some sh" "distance_histogram progname t = Some dh"
    using assms(1,3) unfolding xdd_save_seek_list_def save_lines_def
    by (auto split: Option.bind_splits if_splits)
  have c: "\<forall>x\<in>set [distance_line t, title_line]. is_comment x" "\<forall>x\<in>set (sh @ dh). is_comment x"
    using save_comments [OF x(2,3)] by (auto simp: distance_line_def title_line_def is_comment_def Let_def)
  have "load_lines (?ls @ (sh @ dh) @ []) 0 v 0 (td_seeks t') =
      Some (foldl max 0 (map reqsize (td_seeks t)), td_seeks t)" for v
    using load_saved_lines [OF assms(2,4), of 0 "(sh @ dh) @ []" "[]" v 0] load_comments [OF c(2), of "[]"] by auto
  then show ?thesis unfolding xdd_load_seek_list_def option.case x(1) load_comments [OF c(1)] by simp
qed

text \<open>Three requests of four blocks for ten bytes, and the list they give.\<close>

definition setup_sample :: "u64 \<Rightarrow> xint_target_setup" where
  "setup_sample opts = xint_target_data.extend ((sample_td 2 2 0)\<lparr>td_seek_options := opts, td_seeks := []\<rparr>)
     (xint_target_setup.fields 4 0 10 0 0 0 0 0 None 10 1 0 0 0 0 2 2)"

definition listed_sample :: "u64 \<Rightarrow> xint_target_setup" where
  "listed_sample opts = (xdd_calculate_xfer_info (setup_sample opts))\<lparr>seek_total_ops := 3, seek_num_rw_ops := 3,
     td_seeks := map (\<lambda>i. \<lparr>operation = SO_OP_WRITE, reqsize = 4, block_location = of_nat (4 * i), time1 = 0, time2 = 0\<rparr>) [0..<3]\<rparr>"

lemmas setup_sample_simps = setup_sample_def listed_sample_def xdd_calculate_xfer_info_def xfer_ops_def xfer_resume_def
  xint_target_data.defs xint_target_setup.defs

lemma sample_fields:
  "td_seek_options (listed_sample opts) = opts" "seek_range (listed_sample opts) = 10" "seek_total_ops (listed_sample opts) = 3"
  "seek_NumSeekHistBuckets (listed_sample opts) = 2" "td_block_size (listed_sample opts) = 1"
  "td_seeks (listed_sample opts) =
     map (\<lambda>i. \<lparr>operation = SO_OP_WRITE, reqsize = 4, block_location = of_nat (4 * i), time1 = 0, time2 = 0\<rparr>) [0..<3]"
  by (simp_all add: setup_sample_simps sample_td_def Let_def int32_def)

lemma sample_saved:
  "\<exists>ls. save_lines (listed_sample opts) = Some ls \<and> length ls = 5"
  by (simp add: save_lines_def sample_fields)

theorem seek_list_roundtrip_witness:
  "\<exists>xs. xdd_save_seek_list ''xdd'' (listed_sample (SO_SEEK_SAVE OR SO_SEEK_SEEKHIST)) = Some xs \<and> length xs = 7 \<and>
    (\<exists>t'. xdd_load_seek_list (Some xs) (listed_sample 0) = Some (0, t') \<and>
      td_seeks t' = td_seeks (listed_sample 0) \<and> seek_iosize t' = 4)"
proof -
  let ?t = "listed_sample (SO_SEEK_SAVE OR SO_SEEK_SEEKHIST)"
  have sh: "\<exists>sh. seek_histogram ''xdd'' ?t = Some sh \<and> length sh = 2"
    by (simp add: seek_histogram_def histogram_def sample_fields flag_on_def upt_rec Let_def signed_divide_int_def)
  have dh: "distance_histogram ''xdd'' ?t = Some []"
    by (simp add: distance_histogram_def sample_fields flag_on_def Let_def)
  have f: "flag_on (td_seek_options ?t) SO_SEEK_SAVE" by (simp add: sample_fields flag_on_def)
  obtain xs where xs: "xdd_save_seek_list ''xdd'' ?t = Some xs" "length xs = 7"
    using sh dh f sample_saved [of "SO_SEEK_SAVE OR SO_SEEK_SEEKHIST"] by (auto simp: xdd_save_seek_list_def)
  have l: "\<forall>e\<in>set (td_seeks ?t). loadable e" by (simp add: sample_fields loadable_def int32_def)
  have "length (td_seeks (listed_sample 0)) = length (td_seeks ?t)" by (simp add: sample_fields)
  from seek_list_roundtrip [OF f l xs(1) this]
  have "\<exists>t'. xdd_load_seek_list (Some xs) (listed_sample 0) = Some (0, t') \<and>
      td_seeks t' = td_seeks (listed_sample 0) \<and> seek_iosize t' = 4" by (simp add: sample_fields upt_rec)
  with xs show ?thesis by blast
qed

subsection \<open>A sequential list covers the bytes of a pass\<close>

lemma gen_seeks_locations:
  assumes "\<not> flag_on (td_seek_options t) SO_SEEK_RANDOM"
    and "gen_seeks fl rnd t nano variance low high js prev rel k = Some es"
  shows "map Some (map block_location es) = map (sequential_location t) js"
  using assms(2)
proof (induction js arbitrary: prev rel k es)
  case (Cons j js)
  from Cons.prems obtain l oper prev1 tm k2 fs where
    *: "sequential_location t j = Some l" "gen_seeks fl rnd t nano variance low high js prev1 (rel + nano) k2 = Some fs"
      "es = \<lparr>operation = oper, reqsize = td_reqsize t, block_location = l, time1 = tm, time2 = 0\<rparr> # fs"
    using assms(1) by (auto simp: seek_location_def split: Option.bind_splits)
  then show ?case using Cons.IH [OF *(2)] by simp
qed simp

lemma target_seek_list_generated:
  assumes "target_seek_list fl rnd progname lf t = Some (t2, xs)"
    and "\<not> flag_on (td_seek_options t) SO_SEEK_LOAD" "\<not> flag_on (td_seek_options t) SO_SEEK_RANDOM"
  obtains es where "t2 = t\<lparr>seek_total_ops := int32 (uint (td_target_ops t)), seek_num_rw_ops := int32 (uint (td_target_ops t)), td_seeks := es\<rparr>"
    "map Some (map block_location es) = map (sequential_location (t\<lparr>seek_num_rw_ops := int32 (uint (td_target_ops t))\<rparr>))
       [0..<nat (int32 (uint (td_target_ops t)))]"
proof -
  define n where "n = int32 (uint (td_target_ops t))"
  define u where "u = t\<lparr>seek_total_ops := n, td_seeks := replicate (nat n) \<lparr>operation = SO_OP_UNSET, reqsize = 0, block_location = 0,
    time1 = 0, time2 = 0\<rparr>\<rparr>"
  have "generate_seek_list fl rnd u = Some t2"
    using assms(1,2) unfolding target_seek_list_def Let_def n_def [symmetric] u_def [symmetric] xdd_init_seek_list_def
    by (auto simp: u_def split: Option.bind_splits if_splits)
  then obtain nano variance low high p rel es where
    g: "gen_seeks fl rnd (u\<lparr>seek_num_rw_ops := n\<rparr>) nano variance low high [0..<nat n] p rel 0 = Some es"
    "t2 = u\<lparr>seek_num_rw_ops := n, td_seeks := es\<rparr>"
    unfolding generate_seek_list_def by (auto simp: u_def split: Option.bind_splits)
  have "\<not> flag_on (td_seek_options (u\<lparr>seek_num_rw_ops := n\<rparr>)) SO_SEEK_RANDOM" using assms(3) by (simp add: u_def)
  note gl = gen_seeks_locations [OF this g(1)]
  have "sequential_location (u\<lparr>seek_num_rw_ops := n\<rparr>) = sequential_location (t\<lparr>seek_num_rw_ops := n\<rparr>)"
    by (simp add: fun_eq_iff sequential_location_def seek_gap_def u_def)
  then show thesis using gl g(2) by (intro that [of es]) (simp_all add: n_def [symmetric] u_def)
qed

lemma xfer_info:
  assumes "0 < td_reqsize t * td_block_size t" "td_reqsize t * td_block_size t < 2 ^ 31" "td_numreqs t \<noteq> 0 \<or> td_bytes t \<noteq> 0"
  defines "t1 \<equiv> xdd_calculate_xfer_info t"
  shows "td_xfer_size t1 = td_reqsize t * td_block_size t"
    and "td_reqsize t1 = td_reqsize t" "td_block_size t1 = td_block_size t" "td_seek_options t1 = td_seek_options t"
    "seek_interleave t1 = seek_interleave t"
    and "uint (td_target_ops t1) =
      (uint (td_target_bytes_to_xfer_per_pass t1) + td_reqsize t * td_block_size t - 1) div (td_reqsize t * td_block_size t)"
proof -
  define x where "x = td_reqsize t * td_block_size t"
  have x: "0 < x" "x < 2 ^ 31" "int32 x = x" using assms(1,2) by (simp_all add: x_def int32_id)
  obtain b where b: "t1 = xfer_ops (xfer_resume (t\<lparr>td_xfer_size := x, td_target_bytes_to_xfer_per_pass := b\<rparr>))"
  proof (cases "td_numreqs t = 0")
    case True
    then show ?thesis using assms(3) x that [of "word_of_int (td_bytes t)"]
      unfolding t1_def xdd_calculate_xfer_info_def Let_def x_def [symmetric] by simp
  next
    case False
    then show ?thesis using x that [of "word_of_int (td_numreqs t * x)"]
      unfolding t1_def xdd_calculate_xfer_info_def Let_def x_def [symmetric] by simp
  qed
  define u where "u = xfer_resume (t\<lparr>td_xfer_size := x, td_target_bytes_to_xfer_per_pass := b\<rparr>)"
  have u: "td_xfer_size u = x" "td_reqsize u = td_reqsize t" "td_block_size u = td_block_size t"
    "td_seek_options u = td_seek_options t" "seek_interleave u = seek_interleave t"
    by (simp_all add: u_def xfer_resume_def split: option.split)
  show "td_xfer_size t1 = td_reqsize t * td_block_size t" "td_reqsize t1 = td_reqsize t" "td_block_size t1 = td_block_size t"
    "td_seek_options t1 = td_seek_options t" "seek_interleave t1 = seek_interleave t"
    using u unfolding b u_def [symmetric] x_def [symmetric] xfer_ops_def Let_def by simp_all
  show "uint (td_target_ops t1) =
      (uint (td_target_bytes_to_xfer_per_pass t1) + td_reqsize t * td_block_size t - 1) div (td_reqsize t * td_block_size t)"
    using xfer_ops_ceiling [of u] x u(1) unfolding b u_def [symmetric] x_def [symmetric] by (simp add: xfer_ops_def Let_def)
qed

lemma uint_seek_offset:
  assumes "block_location (td_seeks (td s) ! i) = word_of_int l" and "c = (td_target_number (td s) * uint (target_offset s) + l) * td_block_size (td s)"
    and "0 \<le> c" "c < 2 ^ 64"
  shows "uint (seek_offset s i) = c"
proof -
  have "word_of_int (uint (target_offset s)) = target_offset s" by simp
  then have "seek_offset s i = word_of_int c" using assms(1,2) by (simp add: seek_offset_def)
  then show ?thesis using assms(3,4) by (simp add: uint_word_of_int)
qed

lemma ceiling_bounds:
  fixes n x :: int
  assumes "0 < x" "0 < n"
  shows "n \<le> (n + x - 1) div x * x" and "i < (n + x - 1) div x \<Longrightarrow> i * x < n"
proof -
  have "(n + x - 1) div x * x + (n + x - 1) mod x = n + x - 1" by (rule div_mult_mod_eq)
  moreover have "0 \<le> (n + x - 1) mod x" "(n + x - 1) mod x < x" using assms by simp_all
  ultimately have b: "n \<le> (n + x - 1) div x * x" "(n + x - 1) div x * x < n + x" by linarith+
  then show "n \<le> (n + x - 1) div x * x" by simp
  assume "i < (n + x - 1) div x"
  then have "(i + 1) * x \<le> (n + x - 1) div x * x" using assms(1) by (intro mult_right_mono) auto
  then show "i * x < n" using b(2) by (simp add: algebra_simps)
qed

lemma sequential_seq_ok:
  assumes x: "0 < td_xfer_size (td s)" "td_xfer_size (td s) < 2 ^ 31" and q: "quiet s"
    and n: "0 < n" "n = uint (td_current_bytes_remaining (td s))" "td_current_bytes_issued (td s) = 0"
      "tc_current_op_number (td_counters (td s)) = 0"
    and len: "int (length (td_seeks (td s))) = (n + td_xfer_size (td s) - 1) div td_xfer_size (td s)"
      "(n + td_xfer_size (td s) - 1) div td_xfer_size (td s) < 2 ^ 31"
    and r: "td_xfer_size (td s) = r * td_block_size (td s)"
    and l: "\<forall>i<length (td_seeks (td s)). block_location (td_seeks (td s) ! i) = word_of_int (l0 + int i * r)"
    and b: "b = (td_target_number (td s) * uint (target_offset s) + l0) * td_block_size (td s)" "0 \<le> b" "b + n \<le> 2 ^ 64"
  shows "seq_ok s" and "uint (seek_offset s 0) = b"
proof -
  have so: "uint (seek_offset s i) = b + int i * td_xfer_size (td s)" if "i < length (td_seeks (td s))" for i
  proof (rule uint_seek_offset)
    show "block_location (td_seeks (td s) ! i) = word_of_int (l0 + int i * r)" using l that by simp
    show "b + int i * td_xfer_size (td s) = (td_target_number (td s) * uint (target_offset s) + (l0 + int i * r)) * td_block_size (td s)"
      using b(1) r by (simp add: algebra_simps)
    have "int i * td_xfer_size (td s) < n" using that len(1) by (intro ceiling_bounds(2) [OF x(1) n(1)]) simp
    then show "b + int i * td_xfer_size (td s) < 2 ^ 64" using b(3) by simp
    show "0 \<le> b + int i * td_xfer_size (td s)" using b(2) x(1) by simp
  qed
  have le: "n \<le> int (length (td_seeks (td s))) * td_xfer_size (td s)" using ceiling_bounds(1) [OF x(1) n(1)] len(1) by simp
  then have "0 < length (td_seeks (td s))" using n(1) by (cases "td_seeks (td s)") auto
  from so [OF this] show s0: "uint (seek_offset s 0) = b" by simp
  have "n < 2 ^ 64" using n(2) uint_lt2p [of "td_current_bytes_remaining (td s)"] by simp
  then show "seq_ok s" unfolding seq_ok_def using q x n le len so s0 by simp
qed

lemma truncate_setup:
  "td_seeks (xint_target_data.truncate t) = td_seeks t" "td_block_size (xint_target_data.truncate t) = td_block_size t"
  by (simp_all add: xint_target_data.defs)



lemma sample_listed:
  "target_seek_list Some (\<lambda>_. 0) ''xdd'' None (xdd_calculate_xfer_info (setup_sample 0)) = Some (listed_sample 0, [])"
  by (simp add: target_seek_list_def xdd_init_seek_list_def generate_seek_list_def throttle_times_def seek_location_def
      sequential_location_def seek_gap_def seek_operation_def seek_time_def int32_def Let_def flag_on_def upt_rec
      setup_sample_simps sample_td_def ctrunc_def to_u64_def)


end
