(* ===== verification/Parse.thy ===== *)
theory Parse
  imports Seek_List
begin

unbundle bit_operations_syntax

text \<open>
  Parsing of options (\<^verbatim>\<open>src/client/parse.c\<close>, \<^verbatim>\<open>xdd_init_new_target_data\<close> of \<^verbatim>\<open>src/common/target_data.c\<close>): the loop over
  the arguments, parameter files, target numbers, the making of targets and hexadecimal strings.  An
  option function gets the plan, the count of arguments left, the arguments from the option on and the
  phase, and returns its status and the plan; \<open>None\<close> is a null or wild pointer that is followed.
  Messages are left out, and so is the state at an exit.
\<close>

subsection \<open>The plan and its targets\<close>

text \<open>
  The members of a target that only options set.  The queue depth is kept as it is given, since the
  passes see it as a natural number.
\<close>

record xint_target_options = xint_target_setup +
  td_target_directory :: "string option"
  td_target_basename :: "string option"
  td_flushwrite :: int
  td_pass_offset :: int
  td_preallocate :: int
  td_pretruncate :: int
  td_given_queue_depth :: int
  td_mem_align :: int
  td_processor :: int
  td_op_delay :: int
  td_retry_count :: int
  td_time_limit :: rat
  td_start_delay_psec :: nclk
  seek_seed :: int
  seek_savefile :: "string option"
  seek_loadfile :: "string option"
  seek_pattern :: string

record xdd_plan =
  target_datap :: "nat \<rightharpoonup> xint_target_options"
  pl_number_of_targets :: int
  pl_plan_options :: u64
  pl_passes :: int
  pl_pass_delay :: rat
  pl_pass_delay_usec :: u64
  pl_target_offset :: u64
  pl_syncio :: int
  pl_run_time :: rat
  pl_run_time_ticks :: nclk
  pl_gts_time :: nclk
  pl_restart_frequency :: u32
  xg_global_options :: u64
  xg_max_errors :: int
  xg_max_errors_to_print :: int

text \<open>
  What the system gives: the rounding of a \<^verbatim>\<open>double\<close>, the page size, whether there is memory for a target,
  fresh structures, the number of processors and the contents of files.
\<close>

record parse_env =
  env_fl :: rounding
  env_pagesize :: int
  env_mem :: "nat \<Rightarrow> bool"
  env_esp :: xint_extended_stats
  env_e2e :: xint_e2e
  env_cpus :: int
  env_file :: "string \<Rightarrow> string option"

definition MAX_TARGETS :: nat where
  "MAX_TARGETS = 8192"

abbreviation (input) XDD_PARSE_PHASE1 :: u32 where "XDD_PARSE_PHASE1 \<equiv> 1"
abbreviation (input) XDD_PARSE_PHASE2 :: u32 where "XDD_PARSE_PHASE2 \<equiv> 2"
abbreviation (input) PLAN_ENDTOEND :: u64 where "PLAN_ENDTOEND \<equiv> 0x8000"
abbreviation (input) GO_EXTENDED_STATS :: u64 where "GO_EXTENDED_STATS \<equiv> 0x10000"
abbreviation (input) XDD_RETURN_VALUE_INVALID_ARGUMENT :: int where "XDD_RETURN_VALUE_INVALID_ARGUMENT \<equiv> 2"
abbreviation (input) XDD_RETURN_VALUE_INVALID_OPTION :: int where "XDD_RETURN_VALUE_INVALID_OPTION \<equiv> 3"

text \<open>A new target: memory that is zero, then the defaults.\<close>

definition xdd_init_new_target_data :: "parse_env \<Rightarrow> nat \<Rightarrow> xint_extended_stats option \<Rightarrow> xint_e2e option \<Rightarrow> xint_target_options" where
  "xdd_init_new_target_data env n esp e2e =
     \<lparr>td_next_wdp = None, td_target_number = int n, td_target_options = 0, td_file_desc = 0, td_xfer_size = 0,
      td_seek_options = 0, td_seeks = [], td_ts_table = \<lparr>ts_options = 0, ts_current_entry = 0, ts_size = 0, tsh_tte = []\<rparr>,
      td_current_bytes_issued = 0, td_current_bytes_completed = 0, td_current_bytes_remaining = 0,
      td_abort = False, td_time_limit_expired = False, td_current_state = 0, td_any_worker_thread_available = 0,
      td_block_size = 1024, td_queue_depth = 1, td_time_limit_ticks = 0, td_report_threshold = 0,
      td_counters = zero_counters\<lparr>tc_pass_number := 0\<rparr>, td_throtp = None,
      td_e2ep = map_option (\<lambda>e. e\<lparr>e2e_sd := 0, e2e_wait_1st_msg := 0\<rparr>) e2e, td_esp = esp, td_trigp = None, td_rawp = None,
      td_lockstep = False, td_magic_cookie = replicate 16 0xFF,
      td_reqsize = 128, td_numreqs = 0, td_bytes = 0, td_start_offset = 0, td_start_delay = 0, td_rwratio = 0,
      td_target_bytes_to_xfer_per_pass = 0, td_target_ops = 0, td_restartp = None,
      seek_range = 1024 * 1024, seek_interleave = 1, seek_stride = 0, seek_iosize = 128 * 1024, seek_num_rw_ops = 0,
      seek_total_ops = 0, seek_NumSeekHistBuckets = 100, seek_NumDistHistBuckets = 100,
      td_target_directory = Some '''', td_target_basename = None, td_flushwrite = 0, td_pass_offset = 0, td_preallocate = 0,
      td_pretruncate = 0, td_given_queue_depth = 1, td_mem_align = env_pagesize env, td_processor = -1, td_op_delay = 0,
      td_retry_count = 0, td_time_limit = 0, td_start_delay_psec = 0, seek_seed = 72058, seek_savefile = None,
      seek_loadfile = None, seek_pattern = ''sequential''\<rparr>"

text \<open>
  The target of a number, made when it is not there.  The outer \<open>None\<close> is an access outside the array of
  targets, the inner one the null pointer for want of memory, after which the program exits.
\<close>

definition xdd_get_target_datap :: "parse_env \<Rightarrow> nat \<Rightarrow> xdd_plan \<Rightarrow> xdd_plan option option" where
  "xdd_get_target_datap env n p =
     (if MAX_TARGETS \<le> n then None
      else case target_datap p n of
             Some t \<Rightarrow> Some (Some p)
           | None \<Rightarrow>
               if \<not> env_mem env n then Some None
               else Some (Some (p\<lparr>target_datap := (target_datap p)(n \<mapsto> xdd_init_new_target_data env n
                 (if flag_on (xg_global_options p) GO_EXTENDED_STATS then Some (env_esp env) else None)
                 (if flag_on (pl_plan_options p) PLAN_ENDTOEND then Some (env_e2e env) else None))\<rparr>)))"

subsection \<open>Numbers\<close>

definition strtol :: "string \<Rightarrow> int" where
  "strtol x = (case scan_int x of None \<Rightarrow> 0 | Some (v, _) \<Rightarrow> max (- (2 ^ 63)) (min (2 ^ 63 - 1) v))"

definition atoi :: "string \<Rightarrow> int" where
  "atoi x = int32 (strtol x)"

definition atoll :: "string \<Rightarrow> int" where
  "atoll x = strtol x"

text \<open>Decimal numbers with fraction and exponent; the hexadecimal notation, infinities and NaNs are left out.\<close>

definition decimal_exponent :: "string \<Rightarrow> int" where
  "decimal_exponent x =
     (case x of
        e # d # ds \<Rightarrow> if (e = CHR ''e'' \<or> e = CHR ''E'') \<and> \<not> is_space d
                       then (case scan_int (d # ds) of None \<Rightarrow> 0 | Some (v, _) \<Rightarrow> v) else 0
      | _ \<Rightarrow> 0)"

definition decimal_value :: "string \<Rightarrow> rat" where
  "decimal_value x =
     (let x1 = dropWhile is_space x;
          neg = (x1 \<noteq> [] \<and> hd x1 = CHR ''-'');
          x2 = (if neg \<or> (x1 \<noteq> [] \<and> hd x1 = CHR ''+'') then tl x1 else x1);
          ds = takeWhile is_digit x2;
          r = dropWhile is_digit x2;
          fs = (case r of c # cs \<Rightarrow> if c = CHR ''.'' then takeWhile is_digit cs else [] | [] \<Rightarrow> []);
          r2 = (case r of c # cs \<Rightarrow> if c = CHR ''.'' then dropWhile is_digit cs else r | [] \<Rightarrow> []);
          m = of_int (digits_value (ds @ fs)) / 10 ^ length fs;
          e = decimal_exponent r2;
          v = (if 0 \<le> e then m * 10 ^ nat e else m / 10 ^ nat (- e))
      in if ds @ fs = [] then 0 else if neg then - v else v)"

definition atof :: "parse_env \<Rightarrow> string \<Rightarrow> rat option" where
  "atof env x = env_fl env (decimal_value x)"

subsection \<open>The arguments of an option\<close>

definition arg :: "string list \<Rightarrow> nat \<Rightarrow> string option" where
  "arg argv i = (if i < length argv then Some (argv ! i) else None)"

definition xdd_parse_arg_count_check :: "int \<Rightarrow> int \<Rightarrow> bool" where
  "xdd_parse_arg_count_check args argc \<longleftrightarrow> \<not> argc \<le> args + 1"

text \<open>
  The target an option is for: the number of arguments that name it (or \<open>-1\<close> for an error) and its number, \<open>-1\<close>
  for all targets.  The target is made when it is named.
\<close>

definition named_target :: "parse_env \<Rightarrow> xdd_plan \<Rightarrow> int \<Rightarrow> int \<Rightarrow> (int \<times> int \<times> xdd_plan) option" where
  "named_target env p tn args =
     (if tn < 0 then None
      else do { q \<leftarrow> xdd_get_target_datap env (nat tn) p;
                Some (case q of None \<Rightarrow> (-1, -1, p) | Some p1 \<Rightarrow> (args, tn, p1)) })"

definition xdd_parse_target_number :: "parse_env \<Rightarrow> xdd_plan \<Rightarrow> int \<Rightarrow> string list \<Rightarrow> (int \<times> int \<times> xdd_plan) option" where
  "xdd_parse_target_number env p argc argv =
     (if argc \<le> 1 then Some (0, -1, p)
      else do { a1 \<leftarrow> arg argv 1;
                if a1 = ''target''
                then if argc < 3 then Some (-1, -1, p)
                     else do { a2 \<leftarrow> arg argv 2;
                               if int MAX_TARGETS \<le> atoi a2 then Some (-1, -1, p) else named_target env p (atoi a2) 2 }
                else do { a0 \<leftarrow> arg argv 0;
                          if a0 \<in> {''previous'', ''prev'', ''p''} then named_target env p (pl_number_of_targets p - 1) 1
                          else Some (0, -1, p) } })"

subsection \<open>The loop over the arguments\<close>

type_synonym handler = "xdd_plan \<Rightarrow> int \<Rightarrow> string list \<Rightarrow> u32 \<Rightarrow> (int \<times> xdd_plan) option"

record xdd_func =
  func_name :: string
  func_alt :: string
  func_ptr :: handler

text \<open>
  A crash is a wild or null pointer that is followed; \<open>None\<close> as the result of the loop is that it does not end.
\<close>

datatype outcome = Parsed xdd_plan | Exit int | Crash

definition names_option :: "string \<Rightarrow> xdd_func \<Rightarrow> bool" where
  "names_option x f \<longleftrightarrow> func_name f = x \<or> func_alt f = x"

definition xdd_check_option :: "xdd_func list \<Rightarrow> string option \<Rightarrow> int" where
  "xdd_check_option tab x =
     (case x of None \<Rightarrow> -1 | Some x \<Rightarrow> if \<exists>f\<in>set tab. names_option x f then 1 else 0)"

definition is_option :: "string \<Rightarrow> bool" where
  "is_option x \<longleftrightarrow> x \<noteq> [] \<and> hd x = CHR ''-''"

partial_function (option) parse_loop :: "xdd_func list \<Rightarrow> string list \<Rightarrow> u32 \<Rightarrow> int \<Rightarrow> int \<Rightarrow> xdd_plan \<Rightarrow> outcome option" where
  "parse_loop tab argv flags arg_count argi p =
     (if arg_count = 0 then Some (Parsed p)
      else if argi < 0 then Some Crash
      else let i = nat argi + length (takeWhile (\<lambda>x. \<not> is_option x) (drop (nat argi) argv)) in
           if length argv \<le> i then Some (Parsed p)
           else case find (names_option (tl (argv ! i))) tab of
                  None \<Rightarrow> Some (Exit XDD_RETURN_VALUE_INVALID_OPTION)
                | Some f \<Rightarrow>
                    (case func_ptr f p arg_count (drop i argv) flags of
                       None \<Rightarrow> Some Crash
                     | Some (st, p1) \<Rightarrow>
                         if st = 0 then Some (Exit XDD_RETURN_VALUE_INVALID_ARGUMENT)
                         else if st = -1 then Some (Exit XDD_RETURN_VALUE_INVALID_OPTION)
                         else parse_loop tab argv flags (arg_count - st) (int i + st) p1))"

definition xdd_parse_args :: "xdd_func list \<Rightarrow> string list \<Rightarrow> u32 \<Rightarrow> xdd_plan \<Rightarrow> outcome option" where
  "xdd_parse_args tab argv flags p = parse_loop tab argv flags (int (length argv) - 1) 1 p"

definition parse_phases :: "xdd_func list \<Rightarrow> string list \<Rightarrow> xdd_plan \<Rightarrow> outcome option" where
  "parse_phases tab argv p =
     do { r \<leftarrow> xdd_parse_args tab argv XDD_PARSE_PHASE1 p;
          case r of Parsed p1 \<Rightarrow> xdd_parse_args tab argv XDD_PARSE_PHASE2 p1 | _ \<Rightarrow> Some r }"

text \<open>The command line, up to the building of the substructures of the targets.\<close>

definition xdd_parse :: "xdd_func list \<Rightarrow> string list \<Rightarrow> xdd_plan \<Rightarrow> outcome option" where
  "xdd_parse tab argv p =
     (if length argv < 1 then Some (Exit XDD_RETURN_VALUE_INVALID_OPTION)
      else do { r \<leftarrow> parse_phases tab argv p;
                Some (case r of
                        Parsed p1 \<Rightarrow> if target_datap p1 0 = None then Exit XDD_RETURN_VALUE_INVALID_ARGUMENT else Parsed p1
                      | _ \<Rightarrow> r) })"

subsection \<open>Parameter files\<close>

definition is_blank :: "char \<Rightarrow> bool" where
  "is_blank c \<longleftrightarrow> c = CHR '' '' \<or> c = CHR 0x09 \<or> c = CHR 0x0A"

text \<open>The number of characters of a buffer that satisfy a condition, at most \<open>n\<close>: a loop with a count.\<close>

definition span_upto :: "(char \<Rightarrow> bool) \<Rightarrow> string \<Rightarrow> nat \<Rightarrow> nat" where
  "span_upto P x n = min (length (takeWhile P x)) n"

text \<open>
  The tokens, from the character at \<open>cp\<close>, while the count \<open>i\<close> is below the size.  The buffer behind the file is
  zero.  A comment counts one more than it has characters.
\<close>

function param_tokens :: "string \<Rightarrow> nat \<Rightarrow> nat \<Rightarrow> nat \<Rightarrow> string list" where
  "param_tokens buf newsize cp i =
     (if newsize \<le> i then []
      else if take 1 (drop cp buf) = ''#''
      then let k = span_upto (\<lambda>c. c \<noteq> CHR 0x0A) (drop cp buf) (newsize - i)
           in if newsize \<le> i + k then [] else param_tokens buf newsize (cp + k + 1) (i + k + 2)
      else let k = span_upto (\<lambda>c. \<not> is_blank c) (drop cp buf) (newsize - i);
               token = takeWhile (\<lambda>c. c \<noteq> CHR 0x00) (take k (drop cp buf))
           in if newsize \<le> i + k then [token]
              else let b = span_upto is_blank (drop (cp + k + 1) buf) (newsize - (i + k))
                   in if newsize \<le> i + k + b then [token]
                      else token # param_tokens buf newsize (cp + k + 1 + b) (i + k + b + 1))"
  by pat_completeness auto
termination
proof (relation "measure (\<lambda>(buf, newsize, cp, i). newsize - i)", goal_cases)
  case (2 buf newsize cp i k)
  then show ?case by simp
next
  case (3 buf newsize cp i k token b)
  then show ?case by simp linarith
qed simp

text \<open>A file that starts with a blank loses its first line.\<close>

definition paramfile_tokens :: "string \<Rightarrow> string list" where
  "paramfile_tokens file =
     (let buf = file @ replicate (length file) (CHR 0x00);
          k = (if file \<noteq> [] \<and> is_blank (hd file) then span_upto (\<lambda>c. c \<noteq> CHR 0x0A) buf (length file) else 0)
      in if length file \<le> k then [] else param_tokens buf (length file - k) k 0)"

definition MAX_PARAM_ARGS :: nat where
  "MAX_PARAM_ARGS = 8192"

text \<open>The status is 0 for success.  An exit inside ends the program.\<close>

definition xdd_process_paramfile :: "parse_env \<Rightarrow> xdd_func list \<Rightarrow> string \<Rightarrow> string \<Rightarrow> xdd_plan \<Rightarrow> (int \<times> outcome) option" where
  "xdd_process_paramfile env tab progname fnp p =
     (case env_file env fnp of
        None \<Rightarrow> Some (-1, Parsed p)
      | Some file \<Rightarrow>
          let toks = paramfile_tokens file in
          if toks = [] then Some (0, Parsed p)
          else if MAX_PARAM_ARGS \<le> length toks then Some (0, Crash)
          else map_option (\<lambda>r. (0, r)) (parse_phases tab (progname # toks) p))"

subsection \<open>Hexadecimal strings\<close>

definition hex_value :: "char \<Rightarrow> u8" where
  "hex_value c =
     (let v = (of_char c :: nat)
      in if 48 \<le> v \<and> v \<le> 57 then of_nat (v - 48) else if 97 \<le> v \<and> v \<le> 102 then of_nat (v - 87)
         else if 65 \<le> v \<and> v \<le> 70 then of_nat (v - 55) else 0)"

text \<open>One turn of the loop: the destination, the position in it and whether the high nibble is next.\<close>

definition put_nibble :: "u8 list \<times> nat \<times> bool \<Rightarrow> char \<Rightarrow> u8 list \<times> nat \<times> bool" where
  "put_nibble = (\<lambda>(dest, ucp, hi) c.
     (dest[ucp := dest ! ucp OR (if hi then push_bit 4 (hex_value c) else hex_value c)], if hi then ucp else Suc ucp, \<not> hi))"

text \<open>The destination has room; as many bytes of it are cleared as the string has characters.\<close>

definition xdd_atohex :: "u8 list \<Rightarrow> string \<Rightarrow> u8 list \<times> nat" where
  "xdd_atohex dest source =
     (let tmp = (if odd (length source) then CHR ''0'' # source else source)
      in (fst (foldl put_nibble (replicate (length tmp) 0 @ drop (length tmp) dest, 0, True) tmp), length source))"

subsection \<open>The tokens of a parameter file\<close>

text \<open>The words of a text, the specification of its tokens.\<close>

function words :: "string \<Rightarrow> string list" where
  "words x = (case dropWhile is_blank x of [] \<Rightarrow> []
     | c # cs \<Rightarrow> takeWhile (\<lambda>c. \<not> is_blank c) (c # cs) # words (dropWhile (\<lambda>c. \<not> is_blank c) (c # cs)))"
  by pat_completeness auto
termination
proof (relation "measure length", goal_cases)
  case (2 x c cs)
  then have "\<not> is_blank c" using hd_dropWhile [of is_blank x] by simp
  moreover have "length (dropWhile (\<lambda>c. \<not> is_blank c) cs) \<le> length cs" by (rule length_dropWhile_le)
  moreover have "length (c # cs) \<le> length x" using length_dropWhile_le [of is_blank x] 2 by simp
  ultimately show ?case by simp
qed simp

declare words.simps [simp del] param_tokens.simps [simp del]

lemma words_blanks: "words (dropWhile is_blank x) = words x"
  by (simp add: words.simps [of x] words.simps [of "dropWhile is_blank x"])

lemma words_Nil [simp]: "words [] = []"
  by (simp add: words.simps)

lemma words_step:
  assumes "w \<noteq> []" and "\<forall>c\<in>set w. \<not> is_blank c"
  shows "words w = [w]" and "is_blank c \<Longrightarrow> words (w @ c # x) = w # words x"
proof -
  obtain d ds where w: "w = d # ds" using assms(1) by (cases w) auto
  have t: "takeWhile (\<lambda>c. \<not> is_blank c) w = w" "dropWhile (\<lambda>c. \<not> is_blank c) w = []" using assms(2) by (simp_all add: dropWhile_eq_Nil_conv)
  have d: "dropWhile (\<lambda>c. \<not> is_blank c) ds = []" using assms(2) w by (simp add: dropWhile_eq_Nil_conv)
  show "words w = [w]" using t assms(2) by (subst words.simps) (simp add: w d)
  assume c: "is_blank c"
  have a: "takeWhile (\<lambda>c. \<not> is_blank c) (ds @ c # x) = ds" "dropWhile (\<lambda>c. \<not> is_blank c) (ds @ c # x) = c # x"
    using assms(2) c w by (simp_all add: takeWhile_append2 dropWhile_append2)
  have "words (c # x) = words x" using c words_blanks [of "c # x"] words_blanks [of x] by simp
  then show "words (w @ c # x) = w # words x"
    using assms(2) by (subst words.simps) (simp add: w a)
qed

lemma span_upto_take: "span_upto P x n = length (takeWhile P (take n x))"
proof (induction x arbitrary: n)
  case (Cons a x)
  then show ?case by (cases n) (auto simp: span_upto_def)
qed (simp add: span_upto_def)

text \<open>Cutting the first word off a text, and the blanks behind it when one character more is looked at.\<close>

lemma first_word:
  assumes "r \<noteq> []" and "\<not> is_blank (hd r)"
  obtains w where "w \<noteq> []" "\<forall>c\<in>set w. \<not> is_blank c" "takeWhile (\<lambda>c. \<not> is_blank c) r = w" "r = w"
  | w c rest where "w \<noteq> []" "\<forall>c\<in>set w. \<not> is_blank c" "takeWhile (\<lambda>c. \<not> is_blank c) r = w" "r = w @ c # rest" "is_blank c"
proof -
  define w where "w = takeWhile (\<lambda>c. \<not> is_blank c) r"
  have w: "w \<noteq> []" "\<forall>c\<in>set w. \<not> is_blank c" "takeWhile (\<lambda>c. \<not> is_blank c) r = w"
    using assms by (cases r) (auto simp: w_def dest: set_takeWhileD)
  show thesis
  proof (cases "dropWhile (\<lambda>c. \<not> is_blank c) r")
    case Nil
    then have "r = w" unfolding w_def by (metis append_Nil2 takeWhile_dropWhile_id)
    with w show thesis by (rule that(1))
  next
    case (Cons c rest)
    then have "is_blank c" using hd_dropWhile [of "\<lambda>c. \<not> is_blank c" r] by simp
    moreover have "r = w @ c # rest" unfolding w_def using Cons by (metis takeWhile_dropWhile_id)
    ultimately show thesis using w by (intro that(2))
  qed
qed

lemma blanks_behind:
  assumes "rest = take (length rest) y"
  defines "b \<equiv> length (takeWhile is_blank (take (Suc (length rest)) y))"
  shows "if \<forall>c\<in>set rest. is_blank c then length rest \<le> b else b < length rest \<and> drop b rest = dropWhile is_blank rest"
proof -
  define x where "x = take (Suc (length rest)) y"
  have x: "x = rest @ drop (length rest) x"
    using assms(1) unfolding x_def by (metis append_take_drop_id le_add2 min.absorb1 plus_1_eq_Suc take_take)
  show ?thesis
  proof (cases "\<forall>c\<in>set rest. is_blank c")
    case True
    then have "length rest \<le> b" unfolding b_def x_def [symmetric] by (subst x) (simp add: takeWhile_append2)
    with True show ?thesis by simp
  next
    case False
    have b: "b = length (takeWhile is_blank rest)"
      unfolding b_def x_def [symmetric] by (subst x) (use False in \<open>auto simp: takeWhile_append1\<close>)
    have "b < length rest" using False unfolding b by (metis takeWhile_eq_all_conv takeWhile_eq_take take_all_iff not_le)
    moreover have "drop b rest = dropWhile is_blank rest" unfolding b by (rule dropWhile_eq_drop [symmetric])
    ultimately show ?thesis using False by simp
  qed
qed

lemma param_tokens_end: "newsize \<le> i \<Longrightarrow> param_tokens buf newsize cp i = []"
  by (subst param_tokens.simps) simp

text \<open>One token of the loop, and how what remains is cut.\<close>

lemma param_token:
  assumes "take (newsize - i) (drop cp buf) = r" "length r = newsize - i" "r \<noteq> []" "CHR ''#'' \<notin> set r" "CHR 0x00 \<notin> set r"
    and "takeWhile (\<lambda>c. \<not> is_blank c) r = w"
  shows "param_tokens buf newsize cp i = (if newsize \<le> i + length w then [w]
    else let b = length (takeWhile is_blank (take (newsize - (i + length w)) (drop (cp + length w + 1) buf)))
         in if newsize \<le> i + length w + b then [w]
            else w # param_tokens buf newsize (cp + length w + 1 + b) (i + length w + b + 1))"
proof -
  have ni: "\<not> newsize \<le> i" using assms(2,3) by (cases r) auto
  obtain d ds where d: "r = d # ds" using assms(3) by (cases r) auto
  have "take 1 (drop cp buf) = take 1 r" unfolding assms(1) [symmetric] take_take using ni by (simp add: min_def)
  then have "take 1 (drop cp buf) = [d]" using d by simp
  moreover have "d \<noteq> CHR ''#''" using assms(4) unfolding d by (simp add: eq_commute)
  ultimately have nh: "take 1 (drop cp buf) \<noteq> ''#''" by simp
  have le: "length w \<le> newsize - i" using length_takeWhile_le [of "\<lambda>c. \<not> is_blank c" r] assms(2,6) by simp
  have "take (length w) (drop cp buf) = take (length w) r"
    unfolding assms(1) [symmetric] take_take min_absorb1 [OF le] by (rule refl)
  also have "\<dots> = w" unfolding assms(6) [symmetric] by (rule takeWhile_eq_take [symmetric])
  finally have t: "take (length w) (drop cp buf) = w" .
  have "CHR 0x00 \<notin> set w" unfolding assms(6) [symmetric] using assms(5) by (meson set_takeWhileD)
  then have "takeWhile (\<lambda>c. c \<noteq> CHR 0x00) (take (length w) (drop cp buf)) = w"
    unfolding t takeWhile_eq_all_conv by blast
  then show ?thesis
    by (subst param_tokens.simps) (simp only: ni nh Let_def if_False span_upto_take assms(1,6) t)
qed

lemma takeWhile_line: "CHR 0x0A \<notin> set l \<Longrightarrow> takeWhile (\<lambda>c. c \<noteq> CHR 0x0A) (l @ CHR 0x0A # y) = l"
  by (induction l) auto

lemma tokens_behind:
  assumes "rest = take (length rest) (drop q buf)" and "newsize - j = Suc (length rest)"
    and "CHR ''#'' \<notin> set rest" "CHR 0x00 \<notin> set rest"
    and IH: "\<And>cp i r. newsize - i \<le> length rest \<Longrightarrow> take (newsize - i) (drop cp buf) = r \<Longrightarrow> length r = newsize - i \<Longrightarrow>
      CHR ''#'' \<notin> set r \<Longrightarrow> CHR 0x00 \<notin> set r \<Longrightarrow> r = [] \<or> \<not> is_blank (hd r) \<Longrightarrow> param_tokens buf newsize cp i = words r"
  defines "b \<equiv> length (takeWhile is_blank (take (Suc (length rest)) (drop q buf)))"
  shows "(if newsize \<le> j + b then [w] else w # param_tokens buf newsize (q + b) (j + b + 1)) = w # words rest"
proof (cases "\<forall>c\<in>set rest. is_blank c")
  case True
  then have "words rest = []" by (subst words.simps) (simp add: dropWhile_eq_Nil_conv [THEN iffD2])
  moreover have "param_tokens buf newsize (q + b) (j + b + 1) = []"
    by (rule param_tokens_end) (use blanks_behind [OF assms(1)] True assms(2) in \<open>simp add: b_def\<close>)
  ultimately show ?thesis by simp
next
  case False
  with blanks_behind [OF assms(1)] have b: "b < length rest" "drop b rest = dropWhile is_blank rest"
    by (simp_all add: b_def)
  have nb: "newsize - (j + b + 1) = length rest - b" using assms(2) by simp
  have "param_tokens buf newsize (q + b) (j + b + 1) = words (drop b rest)"
  proof (rule IH)
    show "take (newsize - (j + b + 1)) (drop (q + b) buf) = drop b rest"
      unfolding nb by (subst (2) assms(1)) (simp add: drop_take add.commute)
    show "CHR ''#'' \<notin> set (drop b rest)" "CHR 0x00 \<notin> set (drop b rest)"
      using assms(3,4) set_drop_subset [of b rest] by auto
    show "drop b rest = [] \<or> \<not> is_blank (hd (drop b rest))" unfolding b(2) using hd_dropWhile by blast
  qed (use nb in simp_all)
  moreover have "\<not> newsize \<le> j + b" using assms(2) b(1) by simp
  ultimately show ?thesis using b(2) words_blanks [of rest] by simp
qed

lemma param_tokens_words:
  assumes "take (newsize - i) (drop cp buf) = r" and "length r = newsize - i"
    and "CHR ''#'' \<notin> set r" "CHR 0x00 \<notin> set r" and "r = [] \<or> \<not> is_blank (hd r)"
  shows "param_tokens buf newsize cp i = words r"
  using assms
proof (induction "newsize - i" arbitrary: i cp r rule: less_induct)
  case less
  consider "r = []" | "r \<noteq> []" "\<not> is_blank (hd r)" using less.prems(5) by blast
  then show ?case
  proof cases
    case 1
    then show ?thesis using less.prems(2) by (simp add: param_tokens_end)
  next
    case 2
    note tok = param_token [OF less.prems(1,2) 2(1) less.prems(3,4)]
    from 2 show ?thesis
    proof (cases rule: first_word)
      case (1 w)
      then show ?thesis using tok [OF 1(3)] less.prems(2) words_step(1) [OF 1(1,2)] by auto
    next
      case w: (2 w c rest)
      let ?q = "cp + length w + 1"
      have m: "newsize - (i + length w) = Suc (length rest)" using less.prems(2) w(4) by simp
      have "rest = drop (length w + 1) r" by (simp add: w(4))
      also have "\<dots> = take (newsize - i - (length w + 1)) (drop (length w + 1) (drop cp buf))"
        unfolding less.prems(1) [symmetric] by (simp only: drop_take)
      also have "newsize - i - (length w + 1) = length rest" using m by simp
      finally have rt: "rest = take (length rest) (drop ?q buf)" by (simp add: add.commute add.left_commute)
      have nr: "CHR ''#'' \<notin> set rest" "CHR 0x00 \<notin> set rest" using less.prems(3,4) w(4) by simp_all
      have "(if newsize \<le> i + length w + b then [w] else w # param_tokens buf newsize (?q + b) (i + length w + b + 1)) = w # words rest"
        if "b = length (takeWhile is_blank (take (Suc (length rest)) (drop ?q buf)))" for b
        unfolding that by (rule tokens_behind [OF rt m nr]) (use less.hyps m in simp)
      moreover have "\<not> newsize \<le> i + length w" using m by simp
      ultimately show ?thesis using tok [OF w(3)] m words_step(2) [OF w(1,2,5)] w(4) by (simp add: Let_def)
    qed
  qed
qed

lemma paramfile_tokens_words:
  assumes "CHR ''#'' \<notin> set g" "CHR 0x00 \<notin> set g" and "g = [] \<or> \<not> is_blank (hd g)"
  shows "paramfile_tokens g = words g"
  using param_tokens_words [of "length g" 0 0 "g @ replicate (length g) (CHR 0x00)" g] assms
  by (cases g) (simp_all add: paramfile_tokens_def)

text \<open>C36: The tokens of a parameter file without comments that does not start with a blank are its words.  A
  file that starts with a blank loses its first line and has an empty token in its place.  A comment line at the start
  costs the last character of the file.\<close>

theorem paramfile_words:
  assumes "CHR ''#'' \<notin> set g" "CHR 0x00 \<notin> set g" and "CHR 0x0A \<notin> set l"
  shows "(g = [] \<or> \<not> is_blank (hd g) \<longrightarrow> paramfile_tokens g = words g) \<and>
    (l = [] \<or> is_blank (hd l) \<longrightarrow> paramfile_tokens (l @ CHR 0x0A # g) = [] # words g) \<and>
    (g = [] \<or> \<not> is_blank (hd g) \<longrightarrow> paramfile_tokens (CHR ''#'' # l @ CHR 0x0A # g) = words (butlast g))"
proof (intro conjI impI)
  assume "g = [] \<or> \<not> is_blank (hd g)"
  then show "paramfile_tokens g = words g" by (rule paramfile_tokens_words [OF assms(1,2)])
next
  assume l: "l = [] \<or> is_blank (hd l)"
  let ?f = "l @ CHR 0x0A # g"
  let ?buf = "?f @ replicate (length ?f) (CHR 0x00)"
  let ?b = "length (takeWhile is_blank (take (Suc (length g)) (drop (length l + 1) ?buf)))"
  have nl: "is_blank (CHR 0x0A)" by (simp add: is_blank_def)
  have "span_upto (\<lambda>c. c \<noteq> CHR 0x0A) ?buf (length ?f) = length l"
    unfolding span_upto_def using takeWhile_line [OF assms(3)] by simp
  moreover have "is_blank (hd ?f)" using l nl by (cases l) auto
  ultimately have "paramfile_tokens ?f = param_tokens ?buf (Suc (length g)) (length l) 0"
    by (simp add: paramfile_tokens_def Let_def)
  also have "\<dots> = (if Suc (length g) \<le> 0 + ?b then [[]]
      else [] # param_tokens ?buf (Suc (length g)) (length l + 1 + ?b) (0 + ?b + 1))"
    using param_token [of "Suc (length g)" 0 "length l" ?buf "CHR 0x0A # g" "[]"] assms(1,2) nl
    by (simp add: Let_def)
  also have "\<dots> = [] # words g"
    by (rule tokens_behind) (use assms(1,2) in \<open>simp_all add: param_tokens_words\<close>)
  finally show "paramfile_tokens ?f = [] # words g" .
next
  assume g: "g = [] \<or> \<not> is_blank (hd g)"
  let ?f = "CHR ''#'' # l @ CHR 0x0A # g"
  let ?buf = "?f @ replicate (length ?f) (CHR 0x00)"
  have s: "span_upto (\<lambda>c. c \<noteq> CHR 0x0A) ?buf (length ?f) = Suc (length l)"
    unfolding span_upto_def using takeWhile_line [OF assms(3)] by simp
  have "\<not> is_blank (CHR ''#'')" by (simp add: is_blank_def)
  then have "paramfile_tokens ?f = param_tokens ?buf (length ?f) 0 0"
    by (simp add: paramfile_tokens_def Let_def)
  also have "\<dots> = param_tokens ?buf (length ?f) (Suc (length l) + 1) (Suc (length l) + 2)"
    using s by (subst param_tokens.simps) (simp add: Let_def)
  also have "\<dots> = words (butlast g)"
  proof (rule param_tokens_words)
    have d: "length ?f - (Suc (length l) + 2) = length g - 1" by simp
    show "take (length ?f - (Suc (length l) + 2)) (drop (Suc (length l) + 1) ?buf) = butlast g"
      unfolding d by (simp add: butlast_conv_take)
    show "length (butlast g) = length ?f - (Suc (length l) + 2)" unfolding d by simp
    show "CHR ''#'' \<notin> set (butlast g)" "CHR 0x00 \<notin> set (butlast g)" using assms(1,2) in_set_butlastD by fast+
    show "butlast g = [] \<or> \<not> is_blank (hd (butlast g))" using g by (cases g) auto
  qed
  finally show "paramfile_tokens ?f = words (butlast g)" .
qed

theorem paramfile_words_witness:
  "paramfile_tokens (''# c'' @ CHR 0x0A # ''-rs 8'') = [''-rs''] \<and>
   paramfile_tokens ('' -rs 8'' @ CHR 0x0A # ''-op read'') = ['''', ''-op'', ''read'']"
proof -
  have "CHR ''#'' \<notin> set ''-rs 8''" "CHR 0x00 \<notin> set ''-rs 8''" "CHR 0x0A \<notin> set '' c''" "\<not> is_blank (hd ''-rs 8'')"
    by (simp_all add: is_blank_def)
  note a = paramfile_words [OF this(1-3)] this(4)
  have "CHR ''#'' \<notin> set ''-op read''" "CHR 0x00 \<notin> set ''-op read''" "CHR 0x0A \<notin> set '' -rs 8''" "is_blank (hd '' -rs 8'')"
    by (simp_all add: is_blank_def)
  note b = paramfile_words [OF this(1-3)] this(4)
  have "words ''-rs '' = [''-rs'']" "words ''-op read'' = [''-op'', ''read'']"
    by (simp_all add: words.simps is_blank_def)
  with a b show ?thesis by simp
qed

subsection \<open>Hexadecimal strings\<close>

definition hex_digit :: "nat \<Rightarrow> char" where
  "hex_digit n = char_of (if n < 10 then 48 + n else 87 + n)"

definition hex_string :: "u8 list \<Rightarrow> string" where
  "hex_string bs = concat (map (\<lambda>b. [hex_digit (unat b div 16), hex_digit (unat b mod 16)]) bs)"

lemma hex_value_digit: "n < 16 \<Longrightarrow> hex_value (hex_digit n) = of_nat n"
  by (auto simp: hex_value_def hex_digit_def)

lemma nibbles:
  fixes b :: u8
  shows "push_bit 4 (of_nat (unat b div 16)) OR of_nat (unat b mod 16) = b"
proof -
  have "unat b div 16 = unat (drop_bit 4 b)" "unat b mod 16 = unat (take_bit 4 b)"
    by (simp_all add: drop_bit_eq_div take_bit_eq_mod unat_div unat_mod)
  then have "of_nat (unat b div 16) = drop_bit 4 b" "of_nat (unat b mod 16) = take_bit 4 b" by simp_all
  moreover have "push_bit 4 (drop_bit 4 b) OR take_bit 4 b = b" by (rule bit_word_eqI) (auto simp: bit_simps)
  ultimately show ?thesis by simp
qed

lemma unat_u8: "unat (b :: u8) < 256"
  using unsigned_less [of b] by simp

lemma put_nibbles:
  "foldl put_nibble (gs @ replicate (length bs + m) 0 @ ks, length gs, True) (hex_string bs) =
     (gs @ bs @ replicate m 0 @ ks, length gs + length bs, True)"
proof (induction bs arbitrary: gs)
  case (Cons b bs)
  have v: "hex_value (hex_digit (unat b div 16)) = of_nat (unat b div 16)" "hex_value (hex_digit (unat b mod 16)) = of_nat (unat b mod 16)"
    using unat_u8 [of b] by (simp_all add: hex_value_digit)
  have "foldl put_nibble (gs @ replicate (length (b # bs) + m) 0 @ ks, length gs, True) (hex_string (b # bs)) =
    foldl put_nibble ((gs @ [b]) @ replicate (length bs + m) 0 @ ks, length (gs @ [b]), True) (hex_string bs)"
    using v nibbles [of b] by (simp add: hex_string_def put_nibble_def list_update_append nth_append)
  then show ?case using Cons.IH [of "gs @ [b]"] by simp
qed (simp add: hex_string_def)

text \<open>C37: A hexadecimal string gives the bytes it is the notation of, behind them zeros as far as the buffer is
  cleared; with an odd number of digits the first is a byte of its own.\<close>

theorem atohex_roundtrip:
  assumes "n < 16"
  shows "xdd_atohex dest (hex_string bs) = (bs @ replicate (length bs) 0 @ drop (2 * length bs) dest, 2 * length bs) \<and>
    xdd_atohex dest (hex_digit n # hex_string bs) =
      (of_nat n # bs @ replicate (Suc (length bs)) 0 @ drop (2 * length bs + 2) dest, 2 * length bs + 1)"
proof -
  have len: "length (hex_string cs) = 2 * length cs" for cs by (induction cs) (simp_all add: hex_string_def)
  have even: "fst (foldl put_nibble (replicate (2 * length cs) 0 @ ks, 0, True) (hex_string cs)) = cs @ replicate (length cs) 0 @ ks" for cs ks
    using put_nibbles [of "[]" cs "length cs" ks] by (simp add: mult_2)
  have "hex_digit 0 = CHR ''0''" by (simp add: hex_digit_def char_of_eq_iff)
  moreover have "unat (of_nat n :: u8) = n" using assms by (simp add: unat_of_nat)
  ultimately have c: "CHR ''0'' # hex_digit n # hex_string bs = hex_string (of_nat n # bs)"
    using assms by (simp add: hex_string_def)
  show ?thesis
    using even [of bs] even [of "of_nat n # bs"] len by (simp add: xdd_atohex_def Let_def c)
qed

theorem atohex_roundtrip_witness: "xdd_atohex (replicate 6 7) ''0a1'' = ([0, 0xa1, 0, 0, 7, 7], 3)"
proof -
  have "hex_digit 0 # hex_string [0xa1] = ''0a1''"
    by (simp add: hex_string_def hex_digit_def char_of_eq_iff)
  then show ?thesis using atohex_roundtrip [of 0 "replicate 6 7" "[0xa1]"] by (simp add: numeral_eq_Suc)
qed

subsection \<open>The loop over the arguments ends\<close>

text \<open>
  What the loop relies on: every option function keeps an invariant of the plan and its status is not less than \<open>-1\<close>.
\<close>

locale option_functions =
  fixes tab :: "xdd_func list" and ok :: "xdd_plan \<Rightarrow> bool"
  assumes keeps: "f \<in> set tab \<Longrightarrow> ok p \<Longrightarrow> func_ptr f p argc argv flags = Some (st, p1) \<Longrightarrow> ok p1 \<and> -1 \<le> st"
begin

lemma parse_loop_keeps:
  assumes "0 \<le> argi" and "ok p"
  shows "\<exists>r. parse_loop tab argv flags arg_count argi p = Some r \<and> (\<forall>p1. r = Parsed p1 \<longrightarrow> ok p1)"
  using assms
proof (induction "length argv - nat argi" arbitrary: arg_count argi p rule: less_induct)
  case less
  define i where "i = nat argi + length (takeWhile (\<lambda>x. \<not> is_option x) (drop (nat argi) argv))"
  consider "arg_count = 0 \<or> length argv \<le> i" | "arg_count \<noteq> 0" "i < length argv" by linarith
  then show ?case
  proof cases
    case 1
    then show ?thesis using less.prems by (subst parse_loop.simps) (auto simp: i_def [symmetric] Let_def)
  next
    case 2
    have more: "\<exists>r. parse_loop tab argv flags (arg_count - st) (int i + st) p1 = Some r \<and> (\<forall>p1. r = Parsed p1 \<longrightarrow> ok p1)"
      if "1 \<le> st" "ok p1" for st p1
    proof (rule less.hyps)
      have "nat argi < nat (int i + st)" using that less.prems by (simp add: i_def)
      moreover have "nat argi < length argv" using 2(2) by (simp add: i_def)
      ultimately show "length argv - nat (int i + st) < length argv - nat argi" by linarith
    qed (use that in simp_all)
    show ?thesis
    proof (cases "find (names_option (tl (argv ! i))) tab")
      case None
      then show ?thesis using 2 less.prems by (subst parse_loop.simps) (simp add: i_def [symmetric] Let_def)
    next
      case (Some f)
      then have f: "f \<in> set tab" by (auto simp: find_Some_iff)
      show ?thesis
      proof (cases "func_ptr f p arg_count (drop i argv) flags")
        case None
        then show ?thesis using 2 less.prems Some by (subst parse_loop.simps) (simp add: i_def [symmetric] Let_def)
      next
        case r: (Some q)
        obtain st p1 where q: "q = (st, p1)" by (cases q)
        have k: "ok p1" "-1 \<le> st" using keeps [OF f less.prems(2)] r q by auto
        then consider "st = 0" | "st = -1" | "1 \<le> st" by linarith
        then show ?thesis
          using 2 less.prems Some r q more [of st p1] k(1)
          by cases (subst parse_loop.simps; simp add: i_def [symmetric] Let_def)+
      qed
    qed
  qed
qed

lemma parse_phases_keeps:
  assumes "ok p"
  shows "\<exists>r. parse_phases tab argv p = Some r \<and> (\<forall>p1. r = Parsed p1 \<longrightarrow> ok p1)"
proof -
  obtain r where r: "xdd_parse_args tab argv XDD_PARSE_PHASE1 p = Some r" "\<forall>p1. r = Parsed p1 \<longrightarrow> ok p1"
    unfolding xdd_parse_args_def 
    using parse_loop_keeps [of 1 p argv XDD_PARSE_PHASE1 "int (length argv) - 1"] assms by auto
  show ?thesis
  proof (cases r)
    case (Parsed p1)
    then show ?thesis using r parse_loop_keeps [of 1 p1 argv XDD_PARSE_PHASE2 "int (length argv) - 1"]
      by (simp add: parse_phases_def xdd_parse_args_def)
  qed (use r in \<open>simp_all add: parse_phases_def\<close>)
qed

end

end
