(* ===== verification/Parse_Options.thy ===== *)
theory Parse_Options
  imports Parse
begin

unbundle bit_operations_syntax

text \<open>
  Option functions (\<^verbatim>\<open>src/client/parse_func.c\<close>) and their table (\<^verbatim>\<open>src/client/parse_table.c\<close>).  Most options are for
  one target or for all targets, and differ in how their arguments are read and in what they set.
\<close>

abbreviation (input) TO_DELETEFILE :: u64 where "TO_DELETEFILE \<equiv> 0x200"
abbreviation (input) TO_DEVICEFILE :: u64 where "TO_DEVICEFILE \<equiv> 0x800"
abbreviation (input) TO_SHARED_MEMORY :: u64 where "TO_SHARED_MEMORY \<equiv> 0x10000"
abbreviation (input) TO_REOPEN :: u64 where "TO_REOPEN \<equiv> 0x100000000"
abbreviation (input) TO_CREATE_NEW_FILES :: u64 where "TO_CREATE_NEW_FILES \<equiv> 0x200000000"
abbreviation (input) TO_RECREATE :: u64 where "TO_RECREATE \<equiv> 0x400000000"
abbreviation (input) TO_SYNCWRITE :: u64 where "TO_SYNCWRITE \<equiv> 0x800000000"
abbreviation (input) TO_PASS_RANDOMIZE :: u64 where "TO_PASS_RANDOMIZE \<equiv> 0x1000000000"
abbreviation (input) TO_RESTART_ENABLE :: u64 where "TO_RESTART_ENABLE \<equiv> 0x10000000000"
abbreviation (input) TO_ORDERING_NETWORK_SERIAL :: u64 where "TO_ORDERING_NETWORK_SERIAL \<equiv> 0x100000000000"
abbreviation (input) TO_ORDERING_NETWORK_LOOSE :: u64 where "TO_ORDERING_NETWORK_LOOSE \<equiv> 0x400000000000"
abbreviation (input) GO_SYNCIO :: u64 where "GO_SYNCIO \<equiv> 0x1"
abbreviation (input) GO_NOBARRIER :: u64 where "GO_NOBARRIER \<equiv> 0x2"
abbreviation (input) GO_NOMEMLOCK :: u64 where "GO_NOMEMLOCK \<equiv> 0x4"
abbreviation (input) GO_NOPROCLOCK :: u64 where "GO_NOPROCLOCK \<equiv> 0x8"
abbreviation (input) GO_MAXPRI :: u64 where "GO_MAXPRI \<equiv> 0x10"
abbreviation (input) GO_PLOCK :: u64 where "GO_PLOCK \<equiv> 0x20"
abbreviation (input) GO_VERBOSE :: u64 where "GO_VERBOSE \<equiv> 0x100"
abbreviation (input) GO_REALLYVERBOSE :: u64 where "GO_REALLYVERBOSE \<equiv> 0x200"
abbreviation (input) GO_TIMER_INFO :: u64 where "GO_TIMER_INFO \<equiv> 0x400"
abbreviation (input) GO_DRYRUN :: u64 where "GO_DRYRUN \<equiv> 0x20000"

subsection \<open>Options of targets\<close>

type_synonym setting = "xint_target_options \<Rightarrow> xint_target_options"

definition on_target :: "nat \<Rightarrow> setting \<Rightarrow> xdd_plan \<Rightarrow> xdd_plan" where
  "on_target n f p = p\<lparr>target_datap := (target_datap p)(n := map_option f (target_datap p n))\<rparr>"

text \<open>The loop over all targets: up to the first null pointer.\<close>

primrec update_from :: "setting \<Rightarrow> nat \<Rightarrow> nat \<Rightarrow> (nat \<rightharpoonup> xint_target_options) \<Rightarrow> nat \<rightharpoonup> xint_target_options" where
  "update_from f 0 i d = d"
| "update_from f (Suc n) i d =
     (case d i of None \<Rightarrow> d | Some t \<Rightarrow> update_from f n (Suc i) (d(i \<mapsto> f t)))"

definition all_targets :: "setting \<Rightarrow> xdd_plan \<Rightarrow> xdd_plan" where
  "all_targets f p = p\<lparr>target_datap := update_from f MAX_TARGETS 0 (target_datap p)\<rparr>"

text \<open>
  The common shape of an option: the target number, the count of arguments, then the arguments, which give an error
  status or the number of arguments used and the setting.  \<open>reads\<close> is told whether the option is for one target.
\<close>

definition option_for :: "parse_env \<Rightarrow> (int \<Rightarrow> int \<Rightarrow> bool) \<Rightarrow> (bool \<Rightarrow> string list \<Rightarrow> (int + int \<times> setting) option) \<Rightarrow> handler" where
  "option_for env enough reads p argc argv flags =
     do { (args, tn, p1) \<leftarrow> xdd_parse_target_number env p argc argv;
          if args < 0 then Some (-1, p1)
          else if \<not> enough args argc then Some (0, p1)
          else do { r \<leftarrow> reads (0 \<le> tn) (drop (nat args) argv);
                    case r of
                      Inl st \<Rightarrow> Some (st, p1)
                    | Inr (k, f) \<Rightarrow>
                        if 0 \<le> tn
                        then do { q \<leftarrow> xdd_get_target_datap env (nat tn) p1;
                                  Some (case q of None \<Rightarrow> (-1, p1) | Some p2 \<Rightarrow> (args + k, on_target (nat tn) f p2)) }
                        else Some (k, if flag_on flags XDD_PARSE_PHASE2 then all_targets f p1 else p1) } }"

text \<open>Options with one value, given by what the value sets, or the status of an error.\<close>

definition value_option :: "parse_env \<Rightarrow> (string \<Rightarrow> (int + setting) option) \<Rightarrow> handler" where
  "value_option env effect = option_for env xdd_parse_arg_count_check
     (\<lambda>one argv. do { x \<leftarrow> arg argv 1; e \<leftarrow> effect x; Some (map_sum id (Pair 2) e) })"

definition int_value :: "(string \<Rightarrow> int) \<Rightarrow> (int \<Rightarrow> bool) \<Rightarrow> int \<Rightarrow> (int \<Rightarrow> setting) \<Rightarrow> string \<Rightarrow> (int + setting) option" where
  "int_value conv ok st put x = Some (if ok (conv x) then Inr (put (conv x)) else Inl st)"

definition xddfunc_blocksize :: "parse_env \<Rightarrow> handler" where
  "xddfunc_blocksize env = value_option env (int_value atoi (\<lambda>v. 0 < v) 0 (\<lambda>v t. t\<lparr>td_block_size := v\<rparr>))"

definition xddfunc_bytes :: "parse_env \<Rightarrow> handler" where
  "xddfunc_bytes env = value_option env (int_value atoll (\<lambda>v. True) 0 (\<lambda>v t. t\<lparr>td_bytes := v, td_numreqs := 0\<rparr>))"

text \<open>A product of 64 bits that wraps.\<close>

definition int64 :: "int \<Rightarrow> int" where
  "int64 v = signed_take_bit 63 v"

definition xddfunc_kbytes :: "parse_env \<Rightarrow> handler" where
  "xddfunc_kbytes env = value_option env
     (int_value atoll (\<lambda>v. True) 0 (\<lambda>v t. t\<lparr>td_bytes := int64 (v * 1024), td_numreqs := 0\<rparr>))"

definition xddfunc_mbytes :: "parse_env \<Rightarrow> handler" where
  "xddfunc_mbytes env = value_option env
     (int_value atoll (\<lambda>v. True) 0 (\<lambda>v t. t\<lparr>td_bytes := int64 (v * 1024 * 1024), td_numreqs := 0\<rparr>))"

definition xddfunc_numreqs :: "parse_env \<Rightarrow> handler" where
  "xddfunc_numreqs env = value_option env
     (int_value atoll (\<lambda>v. 0 < v) 0 (\<lambda>v t. t\<lparr>td_numreqs := v, td_bytes := 0\<rparr>))"

definition xddfunc_reqsize :: "parse_env \<Rightarrow> handler" where
  "xddfunc_reqsize env = value_option env (int_value atoi (\<lambda>v. 0 < v) 0 (\<lambda>v t. t\<lparr>td_reqsize := v\<rparr>))"

definition xddfunc_queuedepth :: "parse_env \<Rightarrow> handler" where
  "xddfunc_queuedepth env = value_option env
     (int_value atoi (\<lambda>v. True) 0 (\<lambda>v t. t\<lparr>td_given_queue_depth := v, td_queue_depth := nat v\<rparr>))"

definition xddfunc_flushwrite :: "parse_env \<Rightarrow> handler" where
  "xddfunc_flushwrite env = value_option env (int_value atoll (\<lambda>v. True) 0 (\<lambda>v t. t\<lparr>td_flushwrite := v\<rparr>))"

definition xddfunc_memalign :: "parse_env \<Rightarrow> handler" where
  "xddfunc_memalign env = value_option env (int_value atoi (\<lambda>v. True) 0 (\<lambda>v t. t\<lparr>td_mem_align := v\<rparr>))"

definition xddfunc_operationdelay :: "parse_env \<Rightarrow> handler" where
  "xddfunc_operationdelay env = value_option env (int_value atoi (\<lambda>v. 0 < v) 0 (\<lambda>v t. t\<lparr>td_op_delay := v\<rparr>))"

definition xddfunc_passoffset :: "parse_env \<Rightarrow> handler" where
  "xddfunc_passoffset env = value_option env (int_value atoll (\<lambda>v. True) 0 (\<lambda>v t. t\<lparr>td_pass_offset := v\<rparr>))"

definition xddfunc_preallocate :: "parse_env \<Rightarrow> handler" where
  "xddfunc_preallocate env = value_option env (int_value atoll (\<lambda>v. 0 < v) (-1) (\<lambda>v t. t\<lparr>td_preallocate := v\<rparr>))"

definition xddfunc_pretruncate :: "parse_env \<Rightarrow> handler" where
  "xddfunc_pretruncate env = value_option env (int_value atoll (\<lambda>v. 0 < v) (-1) (\<lambda>v t. t\<lparr>td_pretruncate := v\<rparr>))"

definition xddfunc_processor :: "parse_env \<Rightarrow> handler" where
  "xddfunc_processor env = value_option env
     (int_value atoi (\<lambda>v. 0 \<le> v \<and> v < env_cpus env) 0 (\<lambda>v t. t\<lparr>td_processor := v\<rparr>))"

definition xddfunc_retry :: "parse_env \<Rightarrow> handler" where
  "xddfunc_retry env = value_option env (int_value atoi (\<lambda>v. 0 < v) 0 (\<lambda>v t. t\<lparr>td_retry_count := v\<rparr>))"

definition xddfunc_startoffset :: "parse_env \<Rightarrow> handler" where
  "xddfunc_startoffset env = value_option env (int_value atoll (\<lambda>v. 0 \<le> v) 0 (\<lambda>v t. t\<lparr>td_start_offset := v\<rparr>))"

text \<open>Values that are numbers with a fraction.\<close>

definition report_threshold_value :: "parse_env \<Rightarrow> string \<Rightarrow> (int + setting) option" where
  "report_threshold_value env x =
     do { v \<leftarrow> atof env x;
          if v < 0 then Some (Inl 0)
          else do { n \<leftarrow> env_fl env (v * BILLION); Some (Inr (\<lambda>t. t\<lparr>td_report_threshold := to_u64 n\<rparr>)) } }"

definition xddfunc_report_threshold :: "parse_env \<Rightarrow> handler" where
  "xddfunc_report_threshold env = value_option env (report_threshold_value env)"

definition rwratio_value :: "parse_env \<Rightarrow> string \<Rightarrow> (int + setting) option" where
  "rwratio_value env x =
     do { v \<leftarrow> atof env x;
          r \<leftarrow> env_fl env (v / 100);
          Some (if r < 0 \<or> 1 < r then Inl 0 else Inr (\<lambda>t. t\<lparr>td_rwratio := r\<rparr>)) }"

definition xddfunc_rwratio :: "parse_env \<Rightarrow> handler" where
  "xddfunc_rwratio env = value_option env (rwratio_value env)"

definition startdelay_value :: "parse_env \<Rightarrow> string \<Rightarrow> (int + setting) option" where
  "startdelay_value env x =
     do { v \<leftarrow> atof env x;
          n \<leftarrow> env_fl env (v * BILLION);
          Some (if v < 0 then Inl 0 else Inr (\<lambda>t. t\<lparr>td_start_delay := v, td_start_delay_psec := to_u64 n\<rparr>)) }"

definition xddfunc_startdelay :: "parse_env \<Rightarrow> handler" where
  "xddfunc_startdelay env = value_option env (startdelay_value env)"

definition timelimit_value :: "parse_env \<Rightarrow> string \<Rightarrow> (int + setting) option" where
  "timelimit_value env x =
     do { v \<leftarrow> atof env x;
          if v \<le> 0 then Some (Inl 0)
          else do { n \<leftarrow> env_fl env (v * BILLION);
                    Some (Inr (\<lambda>t. t\<lparr>td_time_limit := v, td_time_limit_ticks := to_u64 n\<rparr>)) } }"

definition xddfunc_timelimit :: "parse_env \<Rightarrow> handler" where
  "xddfunc_timelimit env = value_option env (timelimit_value env)"

definition operation_value :: "string \<Rightarrow> (int + setting) option" where
  "operation_value x =
     Some (if x = ''write'' then Inr (\<lambda>t. t\<lparr>td_rwratio := 0\<rparr>)
           else if x = ''read'' then Inr (\<lambda>t. t\<lparr>td_rwratio := 1\<rparr>)
           else if x = ''noop'' \<or> x = ''nop'' then Inr (\<lambda>t. t\<lparr>td_rwratio := -1\<rparr>)
           else Inl 0)"

definition xddfunc_operation :: "parse_env \<Rightarrow> handler" where
  "xddfunc_operation env = value_option env operation_value"

text \<open>The directory is stored without being looked at.\<close>

definition xddfunc_targetdir :: "parse_env \<Rightarrow> handler" where
  "xddfunc_targetdir env = option_for env xdd_parse_arg_count_check
     (\<lambda>one argv. Some (Inr (2, \<lambda>t. t\<lparr>td_target_directory := arg argv 1\<rparr>)))"

text \<open>Options that set or clear bits of the target options and have no value.\<close>

definition flag_option :: "parse_env \<Rightarrow> (u64 \<Rightarrow> u64) \<Rightarrow> handler" where
  "flag_option env g = option_for env (\<lambda>_ _. True)
     (\<lambda>one argv. Some (Inr (1, \<lambda>t. t\<lparr>td_target_options := g (td_target_options t)\<rparr>)))"

definition xddfunc_createnewfiles :: "parse_env \<Rightarrow> handler" where
  "xddfunc_createnewfiles env = flag_option env (\<lambda>w. set_flag w TO_CREATE_NEW_FILES)"

definition xddfunc_deletefile :: "parse_env \<Rightarrow> handler" where
  "xddfunc_deletefile env = flag_option env (\<lambda>w. set_flag w TO_DELETEFILE)"

definition xddfunc_devicefile :: "parse_env \<Rightarrow> handler" where
  "xddfunc_devicefile env = flag_option env (\<lambda>w. set_flag w TO_DEVICEFILE)"

definition xddfunc_dio :: "parse_env \<Rightarrow> handler" where
  "xddfunc_dio env = flag_option env (\<lambda>w. set_flag w TO_DIO)"

definition xddfunc_looseordering :: "parse_env \<Rightarrow> handler" where
  "xddfunc_looseordering env =
     flag_option env (\<lambda>w. clear_flag (set_flag w TO_ORDERING_STORAGE_LOOSE) TO_ORDERING_STORAGE_SERIAL)"

definition xddfunc_noordering :: "parse_env \<Rightarrow> handler" where
  "xddfunc_noordering env =
     flag_option env (\<lambda>w. clear_flag (clear_flag w TO_ORDERING_STORAGE_LOOSE) TO_ORDERING_STORAGE_SERIAL)"

definition xddfunc_randomize :: "parse_env \<Rightarrow> handler" where
  "xddfunc_randomize env = flag_option env (\<lambda>w. set_flag w TO_PASS_RANDOMIZE)"

definition xddfunc_recreatefiles :: "parse_env \<Rightarrow> handler" where
  "xddfunc_recreatefiles env = flag_option env (\<lambda>w. set_flag w TO_RECREATE)"

definition xddfunc_reopen :: "parse_env \<Rightarrow> handler" where
  "xddfunc_reopen env = flag_option env (\<lambda>w. set_flag w TO_REOPEN)"

definition xddfunc_serialordering :: "parse_env \<Rightarrow> handler" where
  "xddfunc_serialordering env =
     flag_option env (\<lambda>w. clear_flag (set_flag w TO_ORDERING_STORAGE_SERIAL) TO_ORDERING_STORAGE_LOOSE)"

definition xddfunc_sgio :: "parse_env \<Rightarrow> handler" where
  "xddfunc_sgio env = flag_option env (\<lambda>w. set_flag w TO_SGIO)"

definition xddfunc_sharedmemory :: "parse_env \<Rightarrow> handler" where
  "xddfunc_sharedmemory env = flag_option env (\<lambda>w. set_flag w TO_SHARED_MEMORY)"

text \<open>For one target this one always says that it used three arguments.\<close>

definition xddfunc_syncwrite :: "parse_env \<Rightarrow> handler" where
  "xddfunc_syncwrite env p argc argv flags =
     map_option (map_prod (\<lambda>st. if 1 < st then 3 else st) id)
       (flag_option env (\<lambda>w. set_flag w TO_SYNCWRITE) p argc argv flags)"

subsection \<open>Ordering, seek and throttle options\<close>

definition order_bits :: "string \<Rightarrow> u64 \<Rightarrow> u64 \<Rightarrow> u64 \<Rightarrow> u64" where
  "order_bits how serial loose w =
     (if how \<in> {''serial'', ''ser'', ''so''} then clear_flag (set_flag w serial) loose
      else if how \<in> {''loose'', ''lo''} then clear_flag (set_flag w loose) serial
      else clear_flag (clear_flag w serial) loose)"

definition ordering_value :: "string list \<Rightarrow> (int + int \<times> setting) option" where
  "ordering_value argv =
     do { what \<leftarrow> arg argv 1;
          let storage = (what \<in> {''storage'', ''stor'', ''disk'', ''both''});
          let network = (what \<in> {''network'', ''net'', ''both''});
          if \<not> storage \<and> \<not> network then Some (Inl 0)
          else do { how \<leftarrow> arg argv 2;
                    if how \<notin> {''serial'', ''ser'', ''so'', ''loose'', ''lo'', ''none'', ''no''} then Some (Inl 0)
                    else Some (Inr (3, \<lambda>t. t\<lparr>td_target_options :=
                      (let o1 = (if storage then order_bits how TO_ORDERING_STORAGE_SERIAL TO_ORDERING_STORAGE_LOOSE (td_target_options t)
                                 else td_target_options t)
                       in if network then order_bits how TO_ORDERING_NETWORK_SERIAL TO_ORDERING_NETWORK_LOOSE o1 else o1)\<rparr>)) } }"

definition xddfunc_ordering :: "parse_env \<Rightarrow> handler" where
  "xddfunc_ordering env = option_for env xdd_parse_arg_count_check (\<lambda>one. ordering_value)"

text \<open>The suboption of a seek option and its value, which is looked at by all but the file names.\<close>

definition seek_setting :: "string \<Rightarrow> string list \<Rightarrow> (int + int \<times> setting) option" where
  "seek_setting sub argv =
     (let num = (\<lambda>f. do { x \<leftarrow> arg argv 2; Some (Inr (3, f x)) });
          opts = (\<lambda>m t. t\<lparr>td_seek_options := set_flag (td_seek_options t) m\<rparr>)
      in if sub = ''save'' then Some (Inr (3, \<lambda>t. (opts SO_SEEK_SAVE t)\<lparr>seek_savefile := arg argv 2\<rparr>))
         else if sub = ''load'' then Some (Inr (3, \<lambda>t. (opts SO_SEEK_LOAD t)\<lparr>seek_loadfile := arg argv 2\<rparr>))
         else if sub = ''disthist'' then num (\<lambda>x t. (opts SO_SEEK_DISTHIST t)\<lparr>seek_NumDistHistBuckets := atoi x\<rparr>)
         else if sub = ''seekhist'' then num (\<lambda>x t. (opts SO_SEEK_SEEKHIST t)\<lparr>seek_NumSeekHistBuckets := atoi x\<rparr>)
         else if sub = ''sequential''
         then Some (Inr (2, \<lambda>t. t\<lparr>td_seek_options := clear_flag (td_seek_options t) SO_SEEK_RANDOM, seek_pattern := ''sequential''\<rparr>))
         else if sub = ''random'' then Some (Inr (2, \<lambda>t. (opts SO_SEEK_RANDOM t)\<lparr>seek_pattern := ''random''\<rparr>))
         else if sub = ''stagger'' then num (\<lambda>x t. (opts SO_SEEK_STAGGER t)\<lparr>seek_pattern := ''staggered'', seek_stride := atoi x\<rparr>)
         else if sub = ''interleave'' then num (\<lambda>x t. t\<lparr>seek_interleave := atoi x, seek_pattern := ''interleaved''\<rparr>)
         else if sub = ''none'' then Some (Inr (2, \<lambda>t. (opts SO_SEEK_NONE t)\<lparr>seek_pattern := ''none''\<rparr>))
         else if sub = ''range'' then num (\<lambda>x t. t\<lparr>seek_range := atoll x\<rparr>)
         else if sub = ''seed'' then num (\<lambda>x t. t\<lparr>seek_seed := atoi x\<rparr>)
         else Some (Inl 0))"

definition xddfunc_seek :: "parse_env \<Rightarrow> handler" where
  "xddfunc_seek env = option_for env (\<lambda>_ _. True) (\<lambda>one argv. do { sub \<leftarrow> arg argv 1; seek_setting sub argv })"

text \<open>The throttle of a target, made with its defaults when it is not there.\<close>

definition xdd_get_throtp :: "xint_target_options \<Rightarrow> xint_throttle" where
  "xdd_get_throtp t =
     (case td_throtp t of Some th \<Rightarrow> th
      | None \<Rightarrow> \<lparr>throttle = 1, throttle_variance = 0, throttle_type = XINT_THROTTLE_BW\<rparr>)"

definition throttle_value :: "parse_env \<Rightarrow> bool \<Rightarrow> string list \<Rightarrow> (int + int \<times> setting) option" where
  "throttle_value env one argv =
     do { what \<leftarrow> arg argv 1;
          x \<leftarrow> arg argv 2;
          v \<leftarrow> atof env x;
          let rate = (\<lambda>ty. Some (if v \<le> 0 then Inl 0
                     else Inr (3, \<lambda>t. t\<lparr>td_throtp := Some ((xdd_get_throtp t)\<lparr>throttle_type := ty, throttle := v\<rparr>)\<rparr>)));
          if what = ''ops'' then rate XINT_THROTTLE_OPS
          else if what = ''bw'' then rate XINT_THROTTLE_BW
          else if what = ''delay'' then rate XINT_THROTTLE_DELAY
          else if what = ''var''
          then Some (if one \<and> v \<le> 0 then Inl 0
                     else Inr (3, \<lambda>t. t\<lparr>td_throtp := Some ((xdd_get_throtp t)\<lparr>throttle_variance := v\<rparr>)\<rparr>))
          else Some (Inl 0) }"

definition xddfunc_throttle :: "parse_env \<Rightarrow> handler" where
  "xddfunc_throttle env = option_for env (\<lambda>args argc. \<not> argc < 3) (throttle_value env)"

text \<open>
  The restart options.  The restart structure of a target is zero when it is new.  The suboptions turn the monitor on; its
  period is in the plan.  A copy that resumes needs an end-to-end structure.  Members that only debugging output
  shows are left out.
\<close>

definition xdd_get_restartp :: "xint_target_options \<Rightarrow> xint_restart" where
  "xdd_get_restartp t =
     (case td_restartp t of Some r \<Rightarrow> r
      | None \<Rightarrow> \<lparr>restart_filename = None, initial_restart_offset = 0, byte_offset = 0, restart_flags = 0\<rparr>)"

definition resume_at :: "parse_env \<Rightarrow> int \<Rightarrow> setting" where
  "resume_at env n t = t\<lparr>td_restartp := Some ((xdd_get_restartp t)\<lparr>initial_restart_offset := n, byte_offset := n,
       restart_flags := set_flag (restart_flags (xdd_get_restartp t)) RESTART_FLAG_RESUME_COPY\<rparr>),
     td_e2ep := Some (case td_e2ep t of Some e \<Rightarrow> e | None \<Rightarrow> env_e2e env)\<rparr>"

definition restart_value :: "parse_env \<Rightarrow> string list \<Rightarrow> (int + int \<times> setting) option" where
  "restart_value env argv =
     do { sub \<leftarrow> arg argv 1;
          if sub = ''enable''
          then Some (Inr (2, \<lambda>t. t\<lparr>td_restartp := Some (xdd_get_restartp t),
                                   td_target_options := set_flag (td_target_options t) TO_RESTART_ENABLE\<rparr>))
          else if sub = ''file''
          then Some (Inr (3, \<lambda>t. t\<lparr>td_restartp := Some ((xdd_get_restartp t)\<lparr>restart_filename := arg argv 2\<rparr>)\<rparr>))
          else if sub = ''frequency'' \<or> sub = ''freq''
          then Some (Inr (3, \<lambda>t. t\<lparr>td_restartp := Some (xdd_get_restartp t)\<rparr>))
          else if sub = ''byteoffset'' \<or> sub = ''offset''
          then do { x \<leftarrow> arg argv 2; Some (Inr (3, resume_at env (atoll x))) }
          else Some (Inl 0) }"

text \<open>The period after a suboption; it is set only where a target is.\<close>

definition restart_period :: "bool \<Rightarrow> string list \<Rightarrow> xdd_plan \<Rightarrow> xdd_plan option" where
  "restart_period some_target argv p =
     do { sub \<leftarrow> arg argv 1;
          if sub = ''frequency'' \<or> sub = ''freq''
          then if some_target then do { x \<leftarrow> arg argv 2; Some (p\<lparr>pl_restart_frequency := word_of_int (atoi x)\<rparr>) } else Some p
          else Some (if pl_restart_frequency p = 0 then p\<lparr>pl_restart_frequency := 1\<rparr> else p) }"

definition xddfunc_restart :: "parse_env \<Rightarrow> handler" where
  "xddfunc_restart env p argc argv flags =
     do { (st, p1) \<leftarrow> option_for env (\<lambda>_ _. True) (\<lambda>one. restart_value env) p argc argv flags;
          if st \<le> 0 then Some (st, p1)
          else do { (args, tn, _) \<leftarrow> xdd_parse_target_number env p argc argv;
                    p2 \<leftarrow> restart_period (0 \<le> tn \<or> flag_on flags XDD_PARSE_PHASE2 \<and> target_datap p1 0 \<noteq> None) (drop (nat args) argv) p1;
                    Some (st, p2) } }"

subsection \<open>The targets\<close>

definition name_target :: "string \<Rightarrow> setting" where
  "name_target x t = (let t1 = t\<lparr>td_target_basename := Some x\<rparr>
     in if x = ''null'' then t1\<lparr>td_target_options := set_flag (td_target_options t1) TO_NULL_TARGET\<rparr> else t1)"

definition xddfunc_target :: "parse_env \<Rightarrow> handler" where
  "xddfunc_target env p argc argv flags =
     (if \<not> flag_on flags XDD_PARSE_PHASE1 then Some (2, p)
      else let n = nat (pl_number_of_targets p) in
           do { q \<leftarrow> xdd_get_target_datap env n p;
                Some (case q of None \<Rightarrow> (-1, p)
                      | Some p1 \<Rightarrow> (2, (on_target n (\<lambda>t. t\<lparr>td_target_basename := arg argv 1\<rparr>) p1)
                                         \<lparr>pl_number_of_targets := pl_number_of_targets p + 1\<rparr>)) })"

text \<open>The loop that names targets from a number on; a missing name is a null pointer.\<close>

primrec name_targets :: "parse_env \<Rightarrow> string option list \<Rightarrow> nat \<Rightarrow> xdd_plan \<Rightarrow> xdd_plan option option" where
  "name_targets env [] j p = Some (Some p)"
| "name_targets env (x # xs) j p =
     do { q \<leftarrow> xdd_get_target_datap env j p;
          case q of
            None \<Rightarrow> Some None
          | Some p1 \<Rightarrow> do { y \<leftarrow> x; name_targets env xs (Suc j) (on_target j (name_target y) p1) } }"

definition xddfunc_targets :: "parse_env \<Rightarrow> xdd_func list \<Rightarrow> handler" where
  "xddfunc_targets env tab p argc argv flags =
     do { a \<leftarrow> arg argv 1;
          let n = atoi a;
          let k = pl_number_of_targets p;
          let named = (\<lambda>names used. map_option (\<lambda>r. case r of None \<Rightarrow> (-1, p) | Some p1 \<Rightarrow> (used, p1))
                         (name_targets env names (nat k) (p\<lparr>pl_number_of_targets := k + \<bar>n\<bar>\<rparr>)));
          if \<not> flag_on flags XDD_PARSE_PHASE1 then Some (if n < 0 then 3 else n + 2, p)
          else if n < 0
          then do { b \<leftarrow> arg argv 2;
                    if is_option b \<and> xdd_check_option tab (Some b) \<noteq> 0 then Some (-1, p)
                    else named (replicate (nat (- n)) (Some b)) 3 }
          else named (map (\<lambda>i. arg argv (i + 2)) [0..<nat n]) (n + 2) }"

subsection \<open>Options of the plan\<close>

definition plan_flag :: "bool \<Rightarrow> (u64 \<Rightarrow> u64) \<Rightarrow> handler" where
  "plan_flag late g p argc argv flags =
     Some (1, if late \<and> \<not> flag_on flags XDD_PARSE_PHASE2 then p else p\<lparr>xg_global_options := g (xg_global_options p)\<rparr>)"

definition xddfunc_dryrun :: handler where "xddfunc_dryrun = plan_flag False (\<lambda>w. set_flag w GO_DRYRUN)"
definition xddfunc_extended_stats :: handler where "xddfunc_extended_stats = plan_flag False (\<lambda>w. set_flag w GO_EXTENDED_STATS)"
definition xddfunc_maxpri :: handler where "xddfunc_maxpri = plan_flag False (\<lambda>w. set_flag w GO_MAXPRI)"
definition xddfunc_nobarrier :: handler where "xddfunc_nobarrier = plan_flag True (\<lambda>w. set_flag w GO_NOBARRIER)"
definition xddfunc_nomemlock :: handler where "xddfunc_nomemlock = plan_flag True (\<lambda>w. set_flag w GO_NOMEMLOCK)"
definition xddfunc_noproclock :: handler where "xddfunc_noproclock = plan_flag True (\<lambda>w. set_flag w GO_NOPROCLOCK)"
definition xddfunc_processlock :: handler where "xddfunc_processlock = plan_flag True (\<lambda>w. set_flag w GO_PLOCK)"
definition xddfunc_reallyverbose :: handler where "xddfunc_reallyverbose = plan_flag True (\<lambda>w. set_flag w GO_REALLYVERBOSE)"
definition xddfunc_stoponerror :: handler where "xddfunc_stoponerror = plan_flag False (\<lambda>w. set_flag w GO_STOP_ON_ERROR)"
definition xddfunc_timerinfo :: handler where "xddfunc_timerinfo = plan_flag False (\<lambda>w. set_flag w GO_TIMER_INFO)"
definition xddfunc_unverbose :: handler where "xddfunc_unverbose = plan_flag False (\<lambda>w. clear_flag w GO_VERBOSE)"
definition xddfunc_verbose :: handler where "xddfunc_verbose = plan_flag False (\<lambda>w. set_flag w GO_VERBOSE)"

definition xddfunc_maxall :: handler where
  "xddfunc_maxall p argc argv flags =
     (if \<not> flag_on flags XDD_PARSE_PHASE2 then Some (1, p)
      else do { (s1, p1) \<leftarrow> xddfunc_maxpri p 1 [] flags;
                (s2, p2) \<leftarrow> xddfunc_processlock p1 1 [] flags;
                Some (if s1 + s2 < 2 then -1 else 1, p2) })"

definition xddfunc_minall :: handler where
  "xddfunc_minall p argc argv flags =
     (if \<not> flag_on flags XDD_PARSE_PHASE2 then Some (1, p)
      else do { (s1, p1) \<leftarrow> xddfunc_nomemlock p 1 [] flags;
                (s2, p2) \<leftarrow> xddfunc_noproclock p1 1 [] flags;
                Some (if s1 + s2 < 2 then 0 else 1, p2) })"

text \<open>Options with one value that is read in the second phase.\<close>

definition late_value :: "(string \<Rightarrow> (int + (xdd_plan \<Rightarrow> xdd_plan)) option) \<Rightarrow> handler" where
  "late_value effect p argc argv flags =
     (if argc \<le> 1 then Some (-1, p)
      else if \<not> flag_on flags XDD_PARSE_PHASE2 then Some (2, p)
      else do { x \<leftarrow> arg argv 1;
                e \<leftarrow> effect x;
                Some (case e of Inl st \<Rightarrow> (st, p) | Inr f \<Rightarrow> (2, f p)) })"

definition xddfunc_maxerrors :: handler where
  "xddfunc_maxerrors = late_value (\<lambda>x. Some (if atoll x \<le> 0 then Inl (-1) else Inr (\<lambda>p. p\<lparr>xg_max_errors := atoll x\<rparr>)))"

definition xddfunc_max_errors_to_print :: handler where
  "xddfunc_max_errors_to_print =
     late_value (\<lambda>x. Some (if atoi x \<le> 0 then Inl (-1) else Inr (\<lambda>p. p\<lparr>xg_max_errors_to_print := atoi x\<rparr>)))"

definition xddfunc_passes :: handler where
  "xddfunc_passes = late_value (\<lambda>x. Some (if atoi x \<le> 0 then Inl (-1) else Inr (\<lambda>p. p\<lparr>pl_passes := atoi x\<rparr>)))"

definition xddfunc_passdelay :: "parse_env \<Rightarrow> handler" where
  "xddfunc_passdelay env = late_value (\<lambda>x.
     do { v \<leftarrow> atof env x;
          if v \<le> 0 then Some (Inl 0)
          else do { n \<leftarrow> env_fl env (v * MILLION);
                    Some (Inr (\<lambda>p. p\<lparr>pl_pass_delay := v, pl_pass_delay_usec := to_u64 n\<rparr>)) } })"

definition xddfunc_runtime :: "parse_env \<Rightarrow> handler" where
  "xddfunc_runtime env = late_value (\<lambda>x.
     do { v \<leftarrow> atof env x;
          if v \<le> 0 then Some (Inl 0)
          else do { n \<leftarrow> env_fl env (v * BILLION);
                    Some (Inr (\<lambda>p. p\<lparr>pl_run_time := v, pl_run_time_ticks := to_u64 n\<rparr>)) } })"

definition xddfunc_starttime :: handler where
  "xddfunc_starttime p argc argv flags =
     (if argc < 2 then Some (-1, p)
      else do { x \<leftarrow> arg argv 1; Some (2, p\<lparr>pl_gts_time := word_of_int (atoll x) * 1000000000\<rparr>) })"

definition xddfunc_syncio :: handler where
  "xddfunc_syncio p argc argv flags =
     (if argc < 2 then Some (-1, p)
      else do { x \<leftarrow> arg argv 1;
                Some (2, p\<lparr>xg_global_options := set_flag (xg_global_options p) GO_SYNCIO, pl_syncio := atoi x\<rparr>) })"

definition xddfunc_targetoffset :: handler where
  "xddfunc_targetoffset p argc argv flags =
     do { x \<leftarrow> arg argv 1; Some (2, p\<lparr>pl_target_offset := word_of_int (atoll x)\<rparr>) }"

text \<open>
  A parameter file.  A missing name cannot be opened.  An exit while the file is parsed is the status
  with the same exit code.
\<close>

definition xddfunc_setup :: "parse_env \<Rightarrow> string \<Rightarrow> xdd_func list \<Rightarrow> handler" where
  "xddfunc_setup env progname tab p argc argv flags =
     (if \<not> flag_on flags XDD_PARSE_PHASE1 then Some (2, p)
      else case arg argv 1 of
             None \<Rightarrow> Some (2, p)
           | Some fnp \<Rightarrow>
               do { (status, r) \<leftarrow> xdd_process_paramfile env tab progname fnp p;
                    case r of
                      Crash \<Rightarrow> None
                    | Exit c \<Rightarrow> Some (if c = XDD_RETURN_VALUE_INVALID_ARGUMENT then 0 else -1, p)
                    | Parsed p1 \<Rightarrow> Some (if status = 0 then 0 else 2, p1) })"

subsection \<open>The table\<close>

definition func :: "string \<Rightarrow> string \<Rightarrow> handler \<Rightarrow> xdd_func" where
  "func name alt h = \<lparr>func_name = name, func_alt = alt, func_ptr = h\<rparr>"

text \<open>The modelled entries, in the order of the table.  \<open>inner\<close> is the table for the options of a parameter file.\<close>

definition table_with :: "parse_env \<Rightarrow> string \<Rightarrow> xdd_func list \<Rightarrow> xdd_func list" where
  "table_with env progname inner =
  [func ''blocksize'' ''bs'' (xddfunc_blocksize env),
   func ''bytes'' ''b'' (xddfunc_bytes env),
   func ''createnewfiles'' ''cnf'' (xddfunc_createnewfiles env),
   func ''deletefile'' ''del'' (xddfunc_deletefile env),
   func ''devicefile'' ''devf'' (xddfunc_devicefile env),
   func ''directio'' ''dio'' (xddfunc_dio env),
   func ''dryrun'' ''dry'' xddfunc_dryrun,
   func ''extendedstats'' ''extstats'' xddfunc_extended_stats,
   func ''flushwrite'' ''fw'' (xddfunc_flushwrite env),
   func ''kbytes'' ''kb'' (xddfunc_kbytes env),
   func ''looseordering'' ''lo'' (xddfunc_looseordering env),
   func ''maxall'' ''maxall'' xddfunc_maxall,
   func ''maxerrors'' ''maxerrors'' xddfunc_maxerrors,
   func ''maxerrorstoprint'' ''mep'' xddfunc_max_errors_to_print,
   func ''maximumpriority'' ''maxpri'' xddfunc_maxpri,
   func ''mbytes'' ''mb'' (xddfunc_mbytes env),
   func ''memalign'' ''mal'' (xddfunc_memalign env),
   func ''minall'' ''minall'' xddfunc_minall,
   func ''nobarrier'' ''nb'' xddfunc_nobarrier,
   func ''nomemlock'' ''nomlock'' xddfunc_nomemlock,
   func ''noordering'' ''no'' (xddfunc_noordering env),
   func ''noproclock'' ''noplock'' xddfunc_noproclock,
   func ''numreqs'' ''nr'' (xddfunc_numreqs env),
   func ''operationdelay'' ''opdelay'' (xddfunc_operationdelay env),
   func ''operation'' ''op'' (xddfunc_operation env),
   func ''ordering'' ''or'' (xddfunc_ordering env),
   func ''passdelay'' ''pdelay'' (xddfunc_passdelay env),
   func ''passes'' ''p'' xddfunc_passes,
   func ''passoffset'' ''po'' (xddfunc_passoffset env),
   func ''preallocate'' ''pa'' (xddfunc_preallocate env),
   func ''pretruncate'' ''pt'' (xddfunc_pretruncate env),
   func ''processlock'' ''plock'' xddfunc_processlock,
   func ''processor'' ''pr'' (xddfunc_processor env),
   func ''queuedepth'' ''qd'' (xddfunc_queuedepth env),
   func ''randomize'' ''rand'' (xddfunc_randomize env),
   func ''reallyverbose'' ''rv'' xddfunc_reallyverbose,
   func ''recreatefiles'' ''recreate'' (xddfunc_recreatefiles env),
   func ''reopen'' ''reop'' (xddfunc_reopen env),
   func ''reportthreshold'' ''rept'' (xddfunc_report_threshold env),
   func ''reqsize'' ''rs'' (xddfunc_reqsize env),
   func ''restart'' ''rst'' (xddfunc_restart env),
   func ''retry'' ''ret'' (xddfunc_retry env),
   func ''runtime'' ''rt'' (xddfunc_runtime env),
   func ''rwratio'' ''rw'' (xddfunc_rwratio env),
   func ''seek'' ''s'' (xddfunc_seek env),
   func ''serialordering'' ''so'' (xddfunc_serialordering env),
   func ''setup'' ''setup'' (xddfunc_setup env progname inner),
   func ''scsigeneric'' ''sgio'' (xddfunc_sgio env),
   func ''sharedmemory'' ''shm'' (xddfunc_sharedmemory env),
   func ''startdelay'' ''sd'' (xddfunc_startdelay env),
   func ''startoffset'' ''sto'' (xddfunc_startoffset env),
   func ''starttime'' ''stime'' xddfunc_starttime,
   func ''stoponerror'' ''soe'' xddfunc_stoponerror,
   func ''syncio'' ''sio'' xddfunc_syncio,
   func ''syncwrite'' ''sw'' (xddfunc_syncwrite env),
   func ''target'' ''target'' (xddfunc_target env),
   func ''targetdir'' ''td'' (xddfunc_targetdir env),
   func ''targetoffset'' ''to'' xddfunc_targetoffset,
   func ''targets'' ''targets'' (xddfunc_targets env inner),
   func ''throttle'' ''throt'' (xddfunc_throttle env),
   func ''timelimit'' ''tl'' (xddfunc_timelimit env),
   func ''timerinfo'' ''ti'' xddfunc_timerinfo,
   func ''unverbose'' ''unv'' xddfunc_unverbose,
   func ''verbose'' ''verbose'' xddfunc_verbose]"

text \<open>The table with parameter files nested at most \<open>d\<close> deep.\<close>

primrec option_table :: "parse_env \<Rightarrow> string \<Rightarrow> nat \<Rightarrow> xdd_func list" where
  "option_table env progname 0 = table_with env progname []"
| "option_table env progname (Suc d) = table_with env progname (option_table env progname d)"

subsection \<open>Every option function keeps the plan well-formed\<close>

text \<open>A target at its number, with sizes that are positive numbers of 32 bits.\<close>

definition target_ok :: "int \<Rightarrow> xint_target_options \<Rightarrow> bool" where
  "target_ok n t \<longleftrightarrow> td_target_number t = n \<and> 0 < td_block_size t \<and> td_block_size t < 2 ^ 31 \<and> 0 < td_reqsize t \<and> td_reqsize t < 2 ^ 31"

definition plan_ok :: "xdd_plan \<Rightarrow> bool" where
  "plan_ok p \<longleftrightarrow> (\<forall>n t. target_datap p n = Some t \<longrightarrow> n < MAX_TARGETS \<and> target_ok (int n) t)"

definition setting_ok :: "setting \<Rightarrow> bool" where
  "setting_ok f \<longleftrightarrow> (\<forall>n t. target_ok n t \<longrightarrow> target_ok n (f t))"

definition handler_ok :: "handler \<Rightarrow> bool" where
  "handler_ok h \<longleftrightarrow> (\<forall>p argc argv flags st p1. plan_ok p \<longrightarrow> h p argc argv flags = Some (st, p1) \<longrightarrow> plan_ok p1 \<and> -1 \<le> st)"

named_theorems option_ok

lemma handler_okI:
  assumes "\<And>p argc argv flags st p1. plan_ok p \<Longrightarrow> h p argc argv flags = Some (st, p1) \<Longrightarrow> plan_ok p1 \<and> -1 \<le> st"
  shows "handler_ok h"
  using assms unfolding handler_ok_def by blast

lemma plan_ok_upd:
  assumes "plan_ok p"
  shows "plan_ok (p\<lparr>pl_number_of_targets := a\<rparr>)" "plan_ok (p\<lparr>pl_passes := a\<rparr>)" "plan_ok (p\<lparr>pl_pass_delay := d\<rparr>)"
    "plan_ok (p\<lparr>pl_pass_delay_usec := w\<rparr>)" "plan_ok (p\<lparr>pl_target_offset := w\<rparr>)" "plan_ok (p\<lparr>pl_syncio := a\<rparr>)"
    "plan_ok (p\<lparr>pl_run_time := d\<rparr>)" "plan_ok (p\<lparr>pl_run_time_ticks := k\<rparr>)" "plan_ok (p\<lparr>pl_gts_time := k\<rparr>)"
    "plan_ok (p\<lparr>pl_restart_frequency := u\<rparr>)" "plan_ok (p\<lparr>xg_global_options := w\<rparr>)" "plan_ok (p\<lparr>xg_max_errors := a\<rparr>)" "plan_ok (p\<lparr>xg_max_errors_to_print := a\<rparr>)"
  using assms by (simp_all add: plan_ok_def)

lemma new_target_ok: "target_ok (int n) (xdd_init_new_target_data env n e f)"
  by (simp add: target_ok_def xdd_init_new_target_data_def)

lemma get_target_datap_ok:
  assumes "plan_ok p" and "xdd_get_target_datap env n p = Some (Some p1)"
  shows "plan_ok p1 \<and> n < MAX_TARGETS \<and> target_datap p1 n \<noteq> None"
  using assms new_target_ok [of n env]
  unfolding xdd_get_target_datap_def plan_ok_def by (auto split: if_splits option.splits)

lemma on_target_ok:
  assumes "plan_ok p" and "setting_ok f"
  shows "plan_ok (on_target n f p)"
  using assms unfolding plan_ok_def setting_ok_def on_target_def by auto

lemma update_from_ok:
  assumes "\<And>m t. d m = Some t \<Longrightarrow> m < MAX_TARGETS \<and> target_ok (int m) t" and "setting_ok f" and "update_from f k i d m = Some t"
  shows "m < MAX_TARGETS \<and> target_ok (int m) t"
  using assms(1,3)
proof (induction k arbitrary: i d)
  case (Suc k)
  show ?case
  proof (cases "d i")
    case (Some u)
    show ?thesis
    proof (rule Suc.IH)
      show "update_from f k (Suc i) (d(i \<mapsto> f u)) m = Some t" using Suc.prems(2) Some by simp
      show "m < MAX_TARGETS \<and> target_ok (int m) t" if "(d(i \<mapsto> f u)) m = Some t" for m t
        using Suc.prems(1) [of m] Suc.prems(1) [OF Some] assms(2) that by (auto simp: setting_ok_def split: if_splits)
    qed
  qed (use Suc.prems in simp)
qed simp

lemma all_targets_ok:
  assumes "plan_ok p" and "setting_ok f"
  shows "plan_ok (all_targets f p)"
proof -
  have "n < MAX_TARGETS \<and> target_ok (int n) t" if "update_from f MAX_TARGETS 0 (target_datap p) n = Some t" for n t
    by (rule update_from_ok [OF _ assms(2) that]) (use assms(1) in \<open>simp add: plan_ok_def\<close>)
  then show ?thesis by (simp add: plan_ok_def all_targets_def)
qed

lemma named_target_ok:
  assumes "plan_ok p" and "named_target env p tn a = Some (args, n, p1)" and "0 \<le> a"
  shows "plan_ok p1 \<and> -1 \<le> args"
  using assms get_target_datap_ok [OF assms(1), of env "nat tn"]
  unfolding named_target_def by (auto split: if_splits bind_splits option.splits)

lemma target_number_ok:
  assumes "plan_ok p" and "xdd_parse_target_number env p argc argv = Some (args, tn, p1)"
  shows "plan_ok p1 \<and> -1 \<le> args"
  using assms named_target_ok [OF assms(1), of env _ 1] named_target_ok [OF assms(1), of env _ 2]
  unfolding xdd_parse_target_number_def by (simp split: if_splits bind_splits)

lemma option_for_ok [intro]:
  assumes "\<And>one av r. reads one av = Some r \<Longrightarrow> (case r of Inl st \<Rightarrow> -1 \<le> st | Inr (k, f) \<Rightarrow> 0 \<le> k \<and> setting_ok f)"
  shows "handler_ok (option_for env enough reads)"
proof (rule handler_okI)
  fix p argc argv flags st p1
  assume p: "plan_ok p" and h: "option_for env enough reads p argc argv flags = Some (st, p1)"
  from h obtain args tn p2 where tn: "xdd_parse_target_number env p argc argv = Some (args, tn, p2)"
    by (auto simp: option_for_def split: bind_splits)
  have p2: "plan_ok p2" "-1 \<le> args" using target_number_ok [OF p tn] by auto
  show "plan_ok p1 \<and> -1 \<le> st"
  proof (cases "args < 0 \<or> \<not> enough args argc")
    case True
    then show ?thesis using h tn p2 by (auto simp: option_for_def split: if_splits)
  next
    case False
    then obtain r where r: "reads (0 \<le> tn) (drop (nat args) argv) = Some r"
      using h tn by (auto simp: option_for_def split: bind_splits)
    from assms [OF r] False h tn r p2 show ?thesis
      by (auto simp: option_for_def split: sum.splits if_splits option.splits bind_splits
               dest!: get_target_datap_ok [OF p2(1)] intro!: on_target_ok all_targets_ok)
  qed
qed

text \<open>The settings leave the sizes alone, or put a checked number of 32 bits there.\<close>

lemma int32_range: "int32 v < 2 ^ 31"
  using signed_take_bit_int_less_exp [of 31 v] by (simp add: int32_def)

lemma setting_okI:
  assumes "\<And>t. td_target_number (f t) = td_target_number t" and "\<And>t. td_block_size (f t) = td_block_size t"
    and "\<And>t. td_reqsize (f t) = td_reqsize t"
  shows "setting_ok f"
  using assms by (simp add: setting_ok_def target_ok_def)

lemma value_option_ok:
  assumes "\<And>x e. effect x = Some e \<Longrightarrow> (case e of Inl st \<Rightarrow> -1 \<le> st | Inr f \<Rightarrow> setting_ok f)"
  shows "handler_ok (value_option env effect)"
  unfolding value_option_def
proof (rule option_for_ok)
  fix one :: bool and av r
  assume "do { x \<leftarrow> arg av 1; e \<leftarrow> effect x; Some (map_sum id (Pair (2::int)) e) } = Some r"
  then obtain x e where "effect x = Some e" "r = map_sum id (Pair 2) e" by (auto split: bind_splits)
  with assms show "case r of Inl st \<Rightarrow> -1 \<le> st | Inr (k, f) \<Rightarrow> 0 \<le> k \<and> setting_ok f" by (cases e) fastforce+
qed

lemma int_value_ok:
  assumes "-1 \<le> st" and "\<And>x. ok (conv x) \<Longrightarrow> setting_ok (put (conv x))"
  shows "handler_ok (value_option env (int_value conv ok st put))"
  by (rule value_option_ok) (use assms in \<open>auto simp: int_value_def\<close>)

lemma flag_option_ok: "handler_ok (flag_option env g)"
  unfolding flag_option_def by (rule option_for_ok) (auto intro!: setting_okI)

lemma size_options_ok [option_ok]: "handler_ok (xddfunc_blocksize env)" "handler_ok (xddfunc_reqsize env)"
  using int32_range unfolding xddfunc_blocksize_def xddfunc_reqsize_def
  by (auto intro!: int_value_ok simp: setting_ok_def target_ok_def atoi_def)

lemma int_options_ok [option_ok]:
  "handler_ok (xddfunc_bytes env)" "handler_ok (xddfunc_kbytes env)" "handler_ok (xddfunc_mbytes env)"
  "handler_ok (xddfunc_numreqs env)" "handler_ok (xddfunc_queuedepth env)" "handler_ok (xddfunc_flushwrite env)"
  "handler_ok (xddfunc_memalign env)" "handler_ok (xddfunc_operationdelay env)" "handler_ok (xddfunc_passoffset env)"
  "handler_ok (xddfunc_preallocate env)" "handler_ok (xddfunc_pretruncate env)" "handler_ok (xddfunc_processor env)"
  "handler_ok (xddfunc_retry env)" "handler_ok (xddfunc_startoffset env)"
  unfolding xddfunc_bytes_def xddfunc_kbytes_def xddfunc_mbytes_def xddfunc_numreqs_def xddfunc_queuedepth_def
    xddfunc_flushwrite_def xddfunc_memalign_def xddfunc_operationdelay_def xddfunc_passoffset_def xddfunc_preallocate_def
    xddfunc_pretruncate_def xddfunc_processor_def xddfunc_retry_def xddfunc_startoffset_def
  by (rule int_value_ok; simp add: setting_okI)+

lemma operation_ok [option_ok]: "handler_ok (xddfunc_operation env)"
  unfolding xddfunc_operation_def
proof (rule value_option_ok)
  fix x e
  have s: "setting_ok (\<lambda>t. t\<lparr>td_rwratio := v\<rparr>)" for v by (rule setting_okI) simp_all
  assume "operation_value x = Some e"
  then show "case e of Inl st \<Rightarrow> -1 \<le> st | Inr f \<Rightarrow> setting_ok f"
    unfolding operation_value_def by (simp split: if_splits) (auto simp: s)
qed

lemma fraction_options_ok [option_ok]:
  "handler_ok (xddfunc_report_threshold env)" "handler_ok (xddfunc_rwratio env)" "handler_ok (xddfunc_startdelay env)"
  "handler_ok (xddfunc_timelimit env)"
  unfolding xddfunc_report_threshold_def xddfunc_rwratio_def xddfunc_startdelay_def xddfunc_timelimit_def
  by (rule value_option_ok;
      auto simp: report_threshold_value_def rwratio_value_def startdelay_value_def timelimit_value_def
        split: if_splits bind_splits intro!: setting_okI)+

lemma flag_options_ok [option_ok]:
  "handler_ok (xddfunc_createnewfiles env)" "handler_ok (xddfunc_deletefile env)" "handler_ok (xddfunc_devicefile env)"
  "handler_ok (xddfunc_dio env)" "handler_ok (xddfunc_looseordering env)" "handler_ok (xddfunc_noordering env)"
  "handler_ok (xddfunc_randomize env)" "handler_ok (xddfunc_recreatefiles env)" "handler_ok (xddfunc_reopen env)"
  "handler_ok (xddfunc_serialordering env)" "handler_ok (xddfunc_sgio env)" "handler_ok (xddfunc_sharedmemory env)"
  by (simp_all add: flag_option_ok xddfunc_createnewfiles_def xddfunc_deletefile_def xddfunc_devicefile_def xddfunc_dio_def
      xddfunc_looseordering_def xddfunc_noordering_def xddfunc_randomize_def xddfunc_recreatefiles_def xddfunc_reopen_def
      xddfunc_serialordering_def xddfunc_sgio_def xddfunc_sharedmemory_def)

lemma syncwrite_ok [option_ok]: "handler_ok (xddfunc_syncwrite env)"
proof (rule handler_okI)
  fix p argc argv flags st p1
  assume "plan_ok p" "xddfunc_syncwrite env p argc argv flags = Some (st, p1)"
  then show "plan_ok p1 \<and> -1 \<le> st"
    using flag_option_ok [of env "\<lambda>w. set_flag w TO_SYNCWRITE"] by (auto simp: xddfunc_syncwrite_def handler_ok_def split: if_splits)
qed

lemma targetdir_ok [option_ok]: "handler_ok (xddfunc_targetdir env)"
  unfolding xddfunc_targetdir_def by (rule option_for_ok) (auto intro!: setting_okI)

lemma ordering_ok [option_ok]: "handler_ok (xddfunc_ordering env)"
  unfolding xddfunc_ordering_def
  by (rule option_for_ok) (auto simp: ordering_value_def Let_def split: bind_splits if_splits intro!: setting_okI)

lemma seek_ok [option_ok]: "handler_ok (xddfunc_seek env)"
  unfolding xddfunc_seek_def
proof (rule option_for_ok)
  fix one :: bool and av r
  assume "do { sub \<leftarrow> arg av 1; seek_setting sub av } = Some r"
  then obtain sub where "seek_setting sub av = Some r" by (auto split: bind_splits)
  then show "case r of Inl st \<Rightarrow> -1 \<le> st | Inr (k, f) \<Rightarrow> 0 \<le> k \<and> setting_ok f"
    unfolding seek_setting_def Let_def by (simp split: if_splits bind_splits) (auto intro!: setting_okI)
qed

lemma throttle_ok [option_ok]: "handler_ok (xddfunc_throttle env)"
  unfolding xddfunc_throttle_def
  by (rule option_for_ok) (auto simp: throttle_value_def Let_def split: bind_splits if_splits intro!: setting_okI)

lemma resume_at_ok: "setting_ok (resume_at env n)"
  by (rule setting_okI) (simp_all add: resume_at_def)

lemma restart_settings_ok:
  "setting_ok (\<lambda>t. t\<lparr>td_restartp := Some (xdd_get_restartp t), td_target_options := set_flag (td_target_options t) w\<rparr>)"
  "setting_ok (\<lambda>t. t\<lparr>td_restartp := Some ((xdd_get_restartp t)\<lparr>restart_filename := x\<rparr>)\<rparr>)"
  "setting_ok (\<lambda>t. t\<lparr>td_restartp := Some (xdd_get_restartp t)\<rparr>)"
  by (rule setting_okI; simp)+

lemma restart_value_ok:
  assumes "restart_value env av = Some r"
  shows "case r of Inl st \<Rightarrow> -1 \<le> st | Inr (k, f) \<Rightarrow> 0 \<le> k \<and> setting_ok f"
proof -
  obtain sub where sub: "arg av 1 = Some sub" using assms by (cases "arg av 1") (simp_all add: restart_value_def)
  consider "sub = ''enable''" | "sub = ''file''" | "sub = ''frequency'' \<or> sub = ''freq''" | x where "sub = ''byteoffset'' \<or> sub = ''offset''" "arg av 2 = Some x"
    | "r = Inl 0"
    using assms sub by (cases "arg av 2") (auto simp: restart_value_def split: if_splits)
  then show ?thesis
    by cases (use assms sub in \<open>auto simp: restart_value_def restart_settings_ok resume_at_ok\<close>)
qed

lemma restart_period_ok: "plan_ok p \<Longrightarrow> restart_period b av p = Some q \<Longrightarrow> plan_ok q"
  by (auto simp: restart_period_def plan_ok_upd split: bind_splits if_splits)

lemma restart_ok [option_ok]: "handler_ok (xddfunc_restart env)"
proof (rule handler_okI)
  fix p argc argv flags st p1
  let ?h = "option_for env (\<lambda>_ _. True) (\<lambda>one. restart_value env)"
  assume p: "plan_ok p" and h: "xddfunc_restart env p argc argv flags = Some (st, p1)"
  have "handler_ok ?h" by (rule option_for_ok) (rule restart_value_ok)
  with p have o: "plan_ok q \<and> -1 \<le> k" if "?h p argc argv flags = Some (k, q)" for k q
    using that unfolding handler_ok_def by blast
  from h obtain k q where kq: "?h p argc argv flags = Some (k, q)"
    and r: "(if k \<le> 0 then Some (k, q) else do { (args, tn, _) \<leftarrow> xdd_parse_target_number env p argc argv;
              p2 \<leftarrow> restart_period (0 \<le> tn \<or> flag_on flags XDD_PARSE_PHASE2 \<and> target_datap q 0 \<noteq> None) (drop (nat args) argv) q;
              Some (k, p2) }) = Some (st, p1)"
    unfolding xddfunc_restart_def by (auto split: bind_splits)
  show "plan_ok p1 \<and> -1 \<le> st"
    using r o [OF kq] restart_period_ok [of q] by (simp split: if_splits bind_splits prod.splits)
qed

text \<open>Options of the plan and the naming of targets.\<close>

lemma plan_flag_ok: "handler_ok (plan_flag late g)"
  by (rule handler_okI) (auto simp: plan_flag_def plan_ok_upd split: if_splits)

lemma plan_flags_ok [option_ok]:
  "handler_ok xddfunc_dryrun" "handler_ok xddfunc_extended_stats" "handler_ok xddfunc_maxpri" "handler_ok xddfunc_nobarrier"
  "handler_ok xddfunc_nomemlock" "handler_ok xddfunc_noproclock" "handler_ok xddfunc_processlock"
  "handler_ok xddfunc_reallyverbose" "handler_ok xddfunc_stoponerror" "handler_ok xddfunc_timerinfo"
  "handler_ok xddfunc_unverbose" "handler_ok xddfunc_verbose"
  by (simp_all add: plan_flag_ok xddfunc_dryrun_def xddfunc_extended_stats_def xddfunc_maxpri_def xddfunc_nobarrier_def
      xddfunc_nomemlock_def xddfunc_noproclock_def xddfunc_processlock_def xddfunc_reallyverbose_def xddfunc_stoponerror_def
      xddfunc_timerinfo_def xddfunc_unverbose_def xddfunc_verbose_def)

lemma all_flags_ok [option_ok]: "handler_ok xddfunc_maxall" "handler_ok xddfunc_minall"
  by (rule handler_okI; auto simp: xddfunc_maxall_def xddfunc_minall_def xddfunc_maxpri_def xddfunc_processlock_def
      xddfunc_nomemlock_def xddfunc_noproclock_def plan_flag_def plan_ok_upd split: if_splits)+

lemma late_value_ok:
  assumes "\<And>x e. effect x = Some e \<Longrightarrow> (case e of Inl st \<Rightarrow> -1 \<le> st | Inr f \<Rightarrow> \<forall>p. plan_ok p \<longrightarrow> plan_ok (f p))"
  shows "handler_ok (late_value effect)"
  by (rule handler_okI) (use assms in \<open>fastforce simp: late_value_def split: if_splits bind_splits sum.splits\<close>)

lemma late_values_ok [option_ok]:
  "handler_ok xddfunc_maxerrors" "handler_ok xddfunc_max_errors_to_print" "handler_ok xddfunc_passes"
  "handler_ok (xddfunc_passdelay env)" "handler_ok (xddfunc_runtime env)"
  unfolding xddfunc_maxerrors_def xddfunc_max_errors_to_print_def xddfunc_passes_def xddfunc_passdelay_def xddfunc_runtime_def
  by (rule late_value_ok; auto simp: plan_ok_upd split: if_splits bind_splits)+

lemma plan_values_ok [option_ok]: "handler_ok xddfunc_starttime" "handler_ok xddfunc_syncio" "handler_ok xddfunc_targetoffset"
  by (rule handler_okI; auto simp: xddfunc_starttime_def xddfunc_syncio_def xddfunc_targetoffset_def plan_ok_upd
      split: if_splits bind_splits)+

lemma target_option_ok [option_ok]: "handler_ok (xddfunc_target env)"
proof (rule handler_okI)
  fix p argc argv flags st p1
  assume p: "plan_ok p" and h: "xddfunc_target env p argc argv flags = Some (st, p1)"
  have s: "setting_ok (\<lambda>t. t\<lparr>td_target_basename := x\<rparr>)" for x by (rule setting_okI) simp_all
  show "plan_ok p1 \<and> -1 \<le> st"
    using h p unfolding xddfunc_target_def Let_def
    by (auto split: if_splits bind_splits option.splits dest!: get_target_datap_ok [OF p] intro!: plan_ok_upd on_target_ok s)
qed

lemma name_targets_ok:
  assumes "plan_ok p" and "name_targets env xs j p = Some (Some p1)"
  shows "plan_ok p1"
  using assms
proof (induction xs arbitrary: j p)
  case (Cons x xs)
  have s: "setting_ok (name_target y)" for y by (rule setting_okI) (simp_all add: name_target_def Let_def)
  from Cons.prems(2) obtain q y where q: "xdd_get_target_datap env j p = Some (Some q)"
    and n: "name_targets env xs (Suc j) (on_target j (name_target y) q) = Some (Some p1)"
    by (auto split: bind_splits option.splits)
  show ?case by (rule Cons.IH [OF _ n]) (use get_target_datap_ok [OF Cons.prems(1) q] on_target_ok s in blast)
qed simp

lemma targets_ok [option_ok]: "handler_ok (xddfunc_targets env tab)"
proof (rule handler_okI)
  fix p argc argv flags st p1
  assume p: "plan_ok p" and h: "xddfunc_targets env tab p argc argv flags = Some (st, p1)"
  have named: "plan_ok p1 \<and> -1 \<le> st"
    if "map_option (\<lambda>r. case r of None \<Rightarrow> (-1, p) | Some p1 \<Rightarrow> (used, p1)) (name_targets env xs j (p\<lparr>pl_number_of_targets := k\<rparr>)) = Some (st, p1)"
      "0 \<le> used" for used xs j k
    using that p name_targets_ok [OF plan_ok_upd(1) [OF p], of env xs j k] by (auto split: option.splits)
  obtain a where a: "arg argv 1 = Some a" using h by (auto simp: xddfunc_targets_def split: bind_splits)
  consider "\<not> flag_on flags XDD_PARSE_PHASE1" | "flag_on flags XDD_PARSE_PHASE1" "atoi a < 0" | "flag_on flags XDD_PARSE_PHASE1" "0 \<le> atoi a"
    by linarith
  then show "plan_ok p1 \<and> -1 \<le> st"
  proof cases
    case 1
    then show ?thesis using h p a by (auto simp: xddfunc_targets_def Let_def split: if_splits)
  next
    case 2
    then obtain b where "arg argv 2 = Some b" using h a by (auto simp: xddfunc_targets_def Let_def split: bind_splits)
    with 2 show ?thesis using h a p named [of 3] by (simp add: xddfunc_targets_def Let_def split: if_splits)
  next
    case 3
    then show ?thesis using h a named [of "atoi a + 2"] by (simp add: xddfunc_targets_def Let_def)
  qed
qed

lemma setup_ok [option_ok]:
  assumes "option_functions tab plan_ok"
  shows "handler_ok (xddfunc_setup env progname tab)"
proof (rule handler_okI)
  fix p argc argv flags st p1
  assume p: "plan_ok p" and h: "xddfunc_setup env progname tab p argc argv flags = Some (st, p1)"
  have "plan_ok q" if "xdd_process_paramfile env tab progname fnp p = Some (k, Parsed q)" for fnp k q
    using that p option_functions.parse_phases_keeps [OF assms p, of "progname # paramfile_tokens (the (env_file env fnp))"]
    by (auto simp: xdd_process_paramfile_def Let_def split: option.splits if_splits)
  then show "plan_ok p1 \<and> -1 \<le> st"
    using h p unfolding xddfunc_setup_def by (auto split: if_splits bind_splits option.splits outcome.splits)
qed

subsection \<open>The table of options\<close>

lemma table_with_ok:
  assumes "option_functions inner plan_ok"
  shows "\<forall>f\<in>set (table_with env progname inner). handler_ok (func_ptr f)"
  using setup_ok [OF assms] by (simp add: table_with_def func_def option_ok)

lemma option_table_functions: "option_functions (option_table env progname d) plan_ok"
proof (induction d)
  case 0
  have "option_functions [] plan_ok" by unfold_locales simp
  from table_with_ok [OF this, of env progname] show ?case by (auto simp: option_functions_def handler_ok_def)
next
  case (Suc d)
  from table_with_ok [OF Suc, of env progname] show ?case by (auto simp: option_functions_def handler_ok_def)
qed

interpretation options: option_functions "option_table env progname d" plan_ok for env progname d
  by (rule option_table_functions)


subsection \<open>What a list of options sets\<close>

text \<open>An option as it is written: its name, the number of its target, its values; and what the values set.\<close>

record option_item =
  it_name :: string
  it_target :: "string option"
  it_values :: "string list"
  it_setting :: setting

definition item_args :: "option_item \<Rightarrow> string list" where
  "item_args it = (CHR ''-'' # it_name it) # (case it_target it of None \<Rightarrow> [] | Some x \<Rightarrow> [''target'', x]) @ it_values it"

text \<open>
  Its meaning.  For one target the target is there afterwards and has the setting; for all targets the
  setting is for the targets without a gap before them, in the second phase.
\<close>

definition gapless :: "xdd_plan \<Rightarrow> nat \<Rightarrow> bool" where
  "gapless p m \<longleftrightarrow> m < MAX_TARGETS \<and> (\<forall>k\<le>m. target_datap p k \<noteq> None)"

definition with_target :: "parse_env \<Rightarrow> nat \<Rightarrow> xdd_plan \<Rightarrow> xdd_plan" where
  "with_target env n p = (case xdd_get_target_datap env n p of Some (Some p1) \<Rightarrow> p1 | _ \<Rightarrow> p)"

definition item_effect :: "parse_env \<Rightarrow> bool \<Rightarrow> option_item \<Rightarrow> xdd_plan \<Rightarrow> xdd_plan" where
  "item_effect env late it p =
     (case it_target it of
        Some x \<Rightarrow> on_target (nat (atoi x)) (it_setting it) (with_target env (nat (atoi x)) p)
      | None \<Rightarrow> if late
                then p\<lparr>target_datap := (\<lambda>m. if gapless p m then map_option (it_setting it) (target_datap p m) else target_datap p m)\<rparr>
                else p)"

text \<open>
  An option of the table that follows the common shape and accepts its values, for a target number in range
  with memory.
\<close>

definition item_ok :: "parse_env \<Rightarrow> xdd_func list \<Rightarrow> option_item \<Rightarrow> bool" where
  "item_ok env tab it \<longleftrightarrow>
     (\<exists>f enough reads. find (names_option (it_name it)) tab = Some f \<and> func_ptr f = option_for env enough reads
        \<and> (\<forall>args k. args + int (length (it_values it)) + 1 \<le> k \<longrightarrow> enough args k)
        \<and> (\<forall>one x rest. reads one (x # it_values it @ rest) = Some (Inr (int (length (it_values it)) + 1, it_setting it))))
     \<and> take 1 (it_values it) \<noteq> [''target'']
     \<and> (\<forall>x. it_target it = Some x \<longrightarrow> 0 \<le> atoi x \<and> atoi x < int MAX_TARGETS \<and> env_mem env (nat (atoi x)))"

lemma update_from_value:
  "update_from f k i d m = (if i \<le> m \<and> m < i + k \<and> (\<forall>j. i \<le> j \<and> j \<le> m \<longrightarrow> d j \<noteq> None) then map_option f (d m) else d m)"
proof (induction k arbitrary: i d)
  case (Suc k)
  show ?case
  proof (cases "d i")
    case None
    then show ?thesis by auto
  next
    case (Some t)
    define e where "e = d(i \<mapsto> f t)"
    have e: "e i = Some (f t)" "\<And>j. i < j \<Longrightarrow> e j = d j" "\<And>j. j < i \<Longrightarrow> e j = d j" by (simp_all add: e_def)
    have q: "(\<forall>j. i \<le> j \<and> j \<le> m \<longrightarrow> d j \<noteq> None) \<longleftrightarrow> (\<forall>j. Suc i \<le> j \<and> j \<le> m \<longrightarrow> e j \<noteq> None)" if "i < m"
      using Some that e(2) by (metis Suc_leD Suc_le_eq le_neq_implies_less option.distinct(1))
    have "update_from f (Suc k) i d m = update_from f k (Suc i) e m" using Some by (simp add: e_def)
    also have "\<dots> = (if Suc i \<le> m \<and> m < Suc i + k \<and> (\<forall>j. Suc i \<le> j \<and> j \<le> m \<longrightarrow> e j \<noteq> None) then map_option f (e m) else e m)"
      by (rule Suc.IH)
    finally show ?thesis using q e Some by (cases i m rule: linorder_cases) auto
  qed
qed auto

lemma all_targets_value:
  "all_targets f p = p\<lparr>target_datap := (\<lambda>m. if gapless p m then map_option f (target_datap p m) else target_datap p m)\<rparr>"
proof -
  have "update_from f MAX_TARGETS 0 (target_datap p) = (\<lambda>m. if gapless p m then map_option f (target_datap p m) else target_datap p m)"
    by (rule ext) (auto simp: gapless_def update_from_value)
  then show ?thesis by (simp add: all_targets_def)
qed

lemma with_target_get:
  assumes "n < MAX_TARGETS" and "env_mem env n"
  shows "xdd_get_target_datap env n p = Some (Some (with_target env n p))"
    and "xdd_get_target_datap env n (with_target env n p) = Some (Some (with_target env n p))"
  using assms by (auto simp: with_target_def xdd_get_target_datap_def split: option.splits)

text \<open>The target number of an option that is followed by the arguments of the next one.\<close>

lemma target_number_one:
  assumes "3 \<le> argc" and "0 \<le> atoi x" and "atoi x < int MAX_TARGETS" and "env_mem env (nat (atoi x))"
  shows "xdd_parse_target_number env p argc (y # ''target'' # x # rest) = Some (2, atoi x, with_target env (nat (atoi x)) p)"
proof -
  have "nat (atoi x) < MAX_TARGETS" using assms(2,3) by linarith
  then show ?thesis using assms with_target_get(1)
    by (simp add: xdd_parse_target_number_def named_target_def arg_def)
qed

lemma target_number_all:
  assumes "argc \<le> 1 \<or> (\<exists>x xs. rest = x # xs \<and> x \<noteq> ''target'')" and "is_option y"
  shows "xdd_parse_target_number env p argc (y # rest) = Some (0, -1, p)"
proof -
  have "y \<notin> {''previous'', ''prev'', ''p''}" using assms(2) by (auto simp: is_option_def)
  then show ?thesis using assms(1) by (auto simp: xdd_parse_target_number_def arg_def)
qed

text \<open>One option, called with the arguments that are left.\<close>

lemma item_call:
  assumes "item_ok env tab it" and "rest = [] \<or> is_option (hd rest)"
    and f: "find (names_option (it_name it)) tab = Some f"
  shows "func_ptr f p (int (length (item_args it @ rest))) (item_args it @ rest) flags =
    Some (int (length (item_args it)), item_effect env (flag_on flags XDD_PARSE_PHASE2) it p)"
proof -
  from assms(1) f obtain enough reads where h: "func_ptr f = option_for env enough reads"
    and e: "\<And>args k. args + int (length (it_values it)) + 1 \<le> k \<Longrightarrow> enough args k"
    and r: "\<And>one x rest. reads one (x # it_values it @ rest) = Some (Inr (int (length (it_values it)) + 1, it_setting it))"
    by (auto simp: item_ok_def)
  have v: "take 1 (it_values it) \<noteq> [''target'']" using assms(1) by (simp add: item_ok_def)
  show ?thesis
  proof (cases "it_target it")
    case None
    have "int (length (item_args it @ rest)) \<le> 1 \<or> (\<exists>x xs. it_values it @ rest = x # xs \<and> x \<noteq> ''target'')"
      using v assms(2) None by (cases "it_values it"; cases rest) (auto simp: item_args_def is_option_def)
    then have "xdd_parse_target_number env p (int (length (item_args it @ rest))) (item_args it @ rest) = Some (0, -1, p)"
      using None target_number_all [of _ "it_values it @ rest" "CHR ''-'' # it_name it"] by (simp add: item_args_def is_option_def)
    then show ?thesis using e [of 0] r None
      by (simp add: h option_for_def item_effect_def item_args_def all_targets_value)
  next
    case (Some x)
    have x: "0 \<le> atoi x" "atoi x < int MAX_TARGETS" "env_mem env (nat (atoi x))" using assms(1) Some by (auto simp: item_ok_def)
    then have n: "nat (atoi x) < MAX_TARGETS" by linarith
    have "xdd_parse_target_number env p (int (length (item_args it @ rest))) (item_args it @ rest)
        = Some (2, atoi x, with_target env (nat (atoi x)) p)"
      using Some x target_number_one [of _ x env] by (simp add: item_args_def)
    then show ?thesis using e [of 2] r Some x with_target_get(2) [OF n x(3)]
      by (simp add: h option_for_def item_effect_def item_args_def)
  qed
qed

text \<open>The loop over options that are each accepted.\<close>

lemma parse_loop_items:
  assumes "\<forall>it\<in>set items. item_ok env tab it"
  shows "parse_loop tab (pre @ concat (map item_args items)) flags (int (length (concat (map item_args items)))) (int (length pre)) p
    = Some (Parsed (fold (item_effect env (flag_on flags XDD_PARSE_PHASE2)) items p))"
  using assms
proof (induction items arbitrary: pre p)
  case Nil
  then show ?case by (subst parse_loop.simps) simp
next
  case (Cons it items)
  define rest where "rest = concat (map item_args items)"
  obtain f where f: "find (names_option (it_name it)) tab = Some f" using Cons.prems by (auto simp: item_ok_def)
  have hd: "rest = [] \<or> is_option (hd rest)"
    unfolding rest_def by (cases items) (auto simp: item_args_def is_option_def)
  have len: "item_args it \<noteq> []" and o: "is_option (hd (item_args it))" "tl (hd (item_args it)) = it_name it"
    by (simp_all add: item_args_def is_option_def)
  have no_skip: "takeWhile (\<lambda>x. \<not> is_option x) (item_args it @ rest) = []"
    using len o by (cases "item_args it") auto
  have pos: "int (length (item_args it)) + int (length rest) \<noteq> 0" using len by (cases "item_args it") simp_all
  have at: "(pre @ item_args it @ rest) ! length pre = hd (item_args it)" using len by (simp add: nth_append hd_conv_nth)
  have "parse_loop tab (pre @ item_args it @ rest) flags (int (length (item_args it @ rest))) (int (length pre)) p
      = parse_loop tab (pre @ item_args it @ rest) flags (int (length rest)) (int (length pre) + int (length (item_args it)))
          (item_effect env (flag_on flags XDD_PARSE_PHASE2) it p)"
    using item_call [OF _ hd f, of env p flags] Cons.prems len f o
    by (subst parse_loop.simps) (simp add: Let_def at no_skip pos)
  with Cons.IH [of "pre @ item_args it"] Cons.prems show ?case by (simp add: rest_def)
qed

text \<open>C22: A command line of options that follow the common shape is parsed to the end, and what it sets is what the
  options mean: first every option for one target, in their order, then all options again in their order.
  An option for one target makes the target when it is missing.  An option for all targets sets every target
  that has no missing number before it, at its turn of the second phase.
\<close>

theorem parse_settings:
  assumes "\<forall>it\<in>set items. item_ok env tab it"
  shows "parse_phases tab (progname # concat (map item_args items)) p
    = Some (Parsed (fold (item_effect env True) items (fold (item_effect env False) items p)))"
  using parse_loop_items [OF assms, of "[progname]"] by (simp add: parse_phases_def xdd_parse_args_def flag_on_def)

text \<open>A system with memory and one file, and a plan without targets.\<close>

definition sample_parse :: parse_env where
  "sample_parse = \<lparr>env_fl = Some, env_pagesize = 4096, env_mem = (\<lambda>_. True),
     env_esp = \<lparr>my_longest_op_time = 0, my_longest_read_op_time = 0, my_longest_write_op_time = 0, my_longest_noop_op_time = 0,
       my_shortest_op_time = 0, my_shortest_read_op_time = 0, my_shortest_write_op_time = 0, my_shortest_noop_op_time = 0,
       my_longest_op_number = 0, my_longest_read_op_number = 0, my_longest_write_op_number = 0, my_longest_noop_op_number = 0,
       my_shortest_op_number = 0, my_shortest_read_op_number = 0, my_shortest_write_op_number = 0, my_shortest_noop_op_number = 0\<rparr>,
     env_e2e = sample_e2e 0 [], env_cpus = 4, env_file = [''params'' \<mapsto> ''-verbose'']\<rparr>"

definition empty_plan :: xdd_plan where
  "empty_plan = \<lparr>target_datap = Map.empty, pl_number_of_targets = 0, pl_plan_options = 0, pl_passes = 1, pl_pass_delay = 0,
     pl_pass_delay_usec = 0, pl_target_offset = 0, pl_syncio = 0, pl_run_time = 0, pl_run_time_ticks = 0, pl_gts_time = 0, pl_restart_frequency = 0,
     xg_global_options = 0, xg_max_errors = 0, xg_max_errors_to_print = 10\<rparr>"

definition sample_items :: "option_item list" where
  "sample_items = [\<lparr>it_name = ''rs'', it_target = None, it_values = [''16''], it_setting = (\<lambda>t. t\<lparr>td_reqsize := 16\<rparr>)\<rparr>,
     \<lparr>it_name = ''reqsize'', it_target = Some ''0'', it_values = [''8''], it_setting = (\<lambda>t. t\<lparr>td_reqsize := 8\<rparr>)\<rparr>]"

lemma find_reqsize:
  assumes "nm = ''reqsize'' \<or> nm = ''rs''"
  shows "find (names_option nm) (table_with env progname inner) = Some (func ''reqsize'' ''rs'' (xddfunc_reqsize env))"
  using assms by (elim disjE) (simp_all add: table_with_def func_def names_option_def)

lemma find_setup:
  "find (names_option ''setup'') (table_with env progname inner) = Some (func ''setup'' ''setup'' (xddfunc_setup env progname inner))"
  by (simp add: table_with_def func_def names_option_def)

lemma table_is: "option_table env progname d = table_with env progname (case d of 0 \<Rightarrow> [] | Suc e \<Rightarrow> option_table env progname e)"
  by (cases d) simp_all

lemma atoi_sample: "atoi ''16'' = 16" "atoi ''8'' = 8" "atoi ''0'' = 0"
  by (simp_all add: atoi_def strtol_def scan_int_def is_space_def is_digit_def digits_value_def Let_def int32_def of_char_of)


lemma sample_items_ok: "\<forall>it\<in>set sample_items. item_ok sample_parse (option_table sample_parse ''xdd'' 0) it"
proof -
  have "item_ok sample_parse (option_table sample_parse ''xdd'' 0) it"
    if "it_name it = ''reqsize'' \<or> it_name it = ''rs''" "it_values it = [x]" "0 < atoi x" "it_setting it = (\<lambda>t. t\<lparr>td_reqsize := atoi x\<rparr>)"
      "x \<noteq> ''target''" "it_target it = None \<or> it_target it = Some ''0''" for it x
    unfolding item_ok_def
    using find_reqsize [OF that(1)] that
    by (auto simp: xddfunc_reqsize_def value_option_def func_def arg_def int_value_def xdd_parse_arg_count_check_def
        atoi_sample MAX_TARGETS_def sample_parse_def intro!: exI)
  then show ?thesis by (simp add: sample_items_def atoi_sample)
qed

theorem parse_settings_witness:
  "map_option (\<lambda>r. case r of Parsed p \<Rightarrow> map_option td_reqsize (target_datap p 0) | _ \<Rightarrow> None)
     (parse_phases (option_table sample_parse ''xdd'' 0) [''xdd'', ''-rs'', ''16'', ''-reqsize'', ''target'', ''0'', ''8''] empty_plan)
   = Some (Some 8)"
proof -
  have "''xdd'' # concat (map item_args sample_items) = [''xdd'', ''-rs'', ''16'', ''-reqsize'', ''target'', ''0'', ''8'']"
    by (simp add: sample_items_def item_args_def)
  then show ?thesis
    using parse_settings [OF sample_items_ok, of "''xdd''" empty_plan]
    by (simp add: sample_items_def item_effect_def atoi_sample on_target_def with_target_def xdd_get_target_datap_def
        empty_plan_def MAX_TARGETS_def sample_parse_def)
qed


subsection \<open>Errors\<close>

lemma parse_args_first:
  assumes "\<forall>x\<in>set xs. \<not> is_option x" and "find (names_option nm) tab = Some f"
  shows "xdd_parse_args tab (progname # xs @ (CHR ''-'' # nm) # rest) flags p =
    (case func_ptr f p (int (length xs) + 1 + int (length rest)) ((CHR ''-'' # nm) # rest) flags of
       None \<Rightarrow> Some Crash
     | Some (st, p1) \<Rightarrow>
         if st = 0 then Some (Exit XDD_RETURN_VALUE_INVALID_ARGUMENT)
         else if st = -1 then Some (Exit XDD_RETURN_VALUE_INVALID_OPTION)
         else parse_loop tab (progname # xs @ (CHR ''-'' # nm) # rest) flags (int (length xs) + 1 + int (length rest) - st)
                (int (Suc (length xs)) + st) p1)"
proof -
  let ?argv = "progname # xs @ (CHR ''-'' # nm) # rest"
  have t: "takeWhile (\<lambda>x. \<not> is_option x) (xs @ (CHR ''-'' # nm) # rest) = xs"
    using assms(1) by (simp add: takeWhile_append2 is_option_def)
  have n: "(xs @ (CHR ''-'' # nm) # rest) ! length xs = CHR ''-'' # nm" by simp
  have c: "int (length ?argv) - 1 = int (length xs) + 1 + int (length rest)" "int (length xs) + 1 + int (length rest) \<noteq> 0"
    by simp_all
  show ?thesis unfolding xdd_parse_args_def c(1)
    by (subst parse_loop.simps) (simp add: t n c(2) assms(2) Let_def add.commute)
qed

text \<open>C38: A parameter file that is parsed without an error ends the program with the exit code for an invalid
  argument, because the status of success is 0, and that of an option that failed is 0, too.  A parameter file
  that cannot be read is passed over.
\<close>

theorem setup_rejected:
  assumes "env_file env fnp = Some file" and "length (paramfile_tokens file) < MAX_PARAM_ARGS"
    and "parse_phases (option_table env progname d) (progname # paramfile_tokens file) p = Some (Parsed p1)"
    and "env_file env missing = None"
  shows "parse_phases (option_table env progname (Suc d)) (progname # ''-setup'' # fnp # rest) p
      = Some (Exit XDD_RETURN_VALUE_INVALID_ARGUMENT)
    \<and> parse_phases (option_table env progname (Suc d)) [progname, ''-setup'', missing] p = Some (Parsed p)"
proof -
  let ?inner = "option_table env progname d" and ?tab = "option_table env progname (Suc d)"
  have o: "is_option ''-setup''" by (simp add: is_option_def)
  have f: "find (names_option ''setup'') ?tab = Some (func ''setup'' ''setup'' (xddfunc_setup env progname ?inner))"
    by (simp add: find_setup)
  have good: "\<exists>q. xdd_process_paramfile env ?inner progname fnp p = Some (0, Parsed q)"
    using assms(1-3) by (simp add: xdd_process_paramfile_def Let_def)
  have "xdd_process_paramfile env ?inner progname missing p = Some (-1, Parsed p)"
    using assms(4) by (simp add: xdd_process_paramfile_def)
  then have "parse_phases ?tab [progname, ''-setup'', missing] p = Some (Parsed p)"
    using parse_args_first [OF _ f, of "[]" progname "[missing]"]
    by (simp add: parse_phases_def func_def xddfunc_setup_def arg_def flag_on_def parse_loop.simps)
  moreover have "parse_phases ?tab (progname # ''-setup'' # fnp # rest) p = Some (Exit XDD_RETURN_VALUE_INVALID_ARGUMENT)"
    using good parse_args_first [OF _ f, of "[]" progname "fnp # rest"]
    by (auto simp: parse_phases_def func_def xddfunc_setup_def arg_def flag_on_def)
  ultimately show ?thesis by blast
qed

theorem setup_rejected_witness:
  "parse_phases (option_table sample_parse ''xdd'' 1) [''xdd'', ''-setup'', ''params''] empty_plan = Some (Exit 2)"
proof -
  let ?tab = "option_table sample_parse ''xdd'' 0" and ?p = "empty_plan\<lparr>xg_global_options := GO_VERBOSE\<rparr>"
  have t: "paramfile_tokens ''-verbose'' = [''-verbose'']"
    by (simp add: paramfile_tokens_def param_tokens.simps span_upto_def is_blank_def)
  have f: "find (names_option ''verbose'') ?tab = Some (func ''verbose'' ''verbose'' xddfunc_verbose)"
    by (simp add: table_with_def func_def names_option_def)
  have "xdd_parse_args ?tab [''xdd'', ''-verbose''] flags q = Some (Parsed (q\<lparr>xg_global_options := set_flag (xg_global_options q) GO_VERBOSE\<rparr>))"
    for flags q
    using parse_args_first [OF _ f, of "[]" "''xdd''" "[]" flags q]
    by (simp add: func_def xddfunc_verbose_def plan_flag_def parse_loop.simps)
  then have "parse_phases ?tab [''xdd'', ''-verbose''] empty_plan = Some (Parsed ?p)"
    by (simp add: parse_phases_def empty_plan_def set_flag_def)
  then show ?thesis
    using setup_rejected [of sample_parse "''params''" "''-verbose''" "''xdd''" 0 empty_plan ?p "''none''" "[]"]
    by (simp add: t sample_parse_def MAX_PARAM_ARGS_def)
qed

text \<open>C39: An option with one value that is the last argument and has no value ends the program with the exit code
  for an invalid argument.  After a stray word that is no option, the same option follows a null pointer:
  the count of arguments left is not reduced for skipped words.
\<close>

theorem stray_argument:
  assumes "find (names_option nm) tab = Some f" and "func_ptr f = value_option env effect" and "\<forall>x\<in>set xs. \<not> is_option x"
  shows "parse_phases tab (progname # xs @ [CHR ''-'' # nm]) p
    = Some (if xs = [] then Exit XDD_RETURN_VALUE_INVALID_ARGUMENT else Crash)"
proof -
  have "func_ptr f p (int (length xs) + 1) [CHR ''-'' # nm] flags = (if xs = [] then Some (0, p) else None)" for flags
    using assms(2) by (simp add: value_option_def option_for_def xdd_parse_target_number_def xdd_parse_arg_count_check_def arg_def)
  then show ?thesis using parse_args_first [OF assms(3,1), of progname "[]"] by (simp add: parse_phases_def)
qed

theorem stray_argument_witness:
  "parse_phases (option_table sample_parse ''xdd'' 1) [''xdd'', ''-rs''] empty_plan = Some (Exit 2)
   \<and> parse_phases (option_table sample_parse ''xdd'' 1) [''xdd'', ''x'', ''-rs''] empty_plan = Some Crash"
proof -
  have f: "find (names_option ''rs'') (option_table sample_parse ''xdd'' 1) = Some (func ''reqsize'' ''rs'' (xddfunc_reqsize sample_parse))"
    by (simp add: find_reqsize)
  have h: "func_ptr (func ''reqsize'' ''rs'' (xddfunc_reqsize sample_parse))
      = value_option sample_parse (int_value atoi (\<lambda>v. 0 < v) 0 (\<lambda>v t. t\<lparr>td_reqsize := v\<rparr>))"
    by (simp add: func_def xddfunc_reqsize_def)
  show ?thesis
    using stray_argument [OF f h, of "[]" "''xdd''" empty_plan] stray_argument [OF f h, of "[''x'']" "''xdd''" empty_plan]
    by (simp add: is_option_def)
qed

end
