(* ===== verification/Restart.thy ===== *)
theory Restart
  imports Parse_Options
begin

text \<open>
  The restart monitor (\<^verbatim>\<open>base/restart.c\<close>): a thread that writes the offset from which a copy can be resumed to a restart
  file, in the form of an option, so that the file can be given to the next run.  The words of the file are read back
  by the option functions of \<open>Parse_Options\<close>.
\<close>

subsection \<open>The restart file\<close>

text \<open>Where the file pointer leads: nowhere, to the error output, or to a file with its contents.\<close>

datatype restart_stream = No_File | Error_Output | File string

record xint_restart_monitor = xint_restart +
  restart_fp :: restart_stream
  source_host :: "string option"
  source_filename :: "string option"
  destination_host :: "string option"
  destination_filename :: "string option"
  last_committed_byte_offset :: int
  last_committed_length :: u64
  last_committed_op :: int

text \<open>What the system gives: memory for a name, the time in Greenwich, and whether the file can be opened.\<close>

record restart_env =
  env_name_memory :: bool
  env_tm_year :: nat
  env_tm_mon :: nat
  env_tm_mday :: nat
  env_tm_hour :: nat
  env_tm_min :: nat
  env_fopen :: "string \<Rightarrow> bool"

abbreviation (input) RESTART_FLAG_SUCCESSFUL_COMPLETION :: u64 where "RESTART_FLAG_SUCCESSFUL_COMPLETION \<equiv> 4"

definition restart_line :: "int \<Rightarrow> string" where
  "restart_line n = ''-restart offset '' @ dec_int n @ [CHR 0x0A]"

text \<open>Text at the beginning of a file: what is longer stays behind it.\<close>

definition overwrite :: "string \<Rightarrow> string \<Rightarrow> string" where
  "overwrite x file = x @ drop (length x) file"

definition restart_offset :: "'a xint_restart_scheme \<Rightarrow> int" where
  "restart_offset rp = (if initial_restart_offset rp < byte_offset rp then byte_offset rp else initial_restart_offset rp)"

definition xdd_restart_write_restart_file :: "xint_restart_monitor \<Rightarrow> xint_restart_monitor option" where
  "xdd_restart_write_restart_file rp =
     (case restart_fp rp of
        No_File \<Rightarrow> None
      | Error_Output \<Rightarrow> Some rp
      | File x \<Rightarrow> Some (rp\<lparr>restart_fp := File (overwrite (restart_line (restart_offset rp)) x)\<rparr>))"

definition basename :: "string \<Rightarrow> string" where
  "basename x = rev (takeWhile (\<lambda>c. c \<noteq> CHR ''/'') (rev x))"

definition or_na :: "string option \<Rightarrow> string" where
  "or_na x = (case x of None \<Rightarrow> ''NA'' | Some y \<Rightarrow> y)"

definition default_restart_name :: "restart_env \<Rightarrow> xint_restart_monitor \<Rightarrow> string" where
  "default_restart_name env rp =
     ''xdd.'' @ or_na (source_host rp) @ ''.'' @ or_na (map_option basename (source_filename rp)) @ ''.'' @
     or_na (destination_host rp) @ ''.'' @ or_na (map_option basename (destination_filename rp)) @ ''.'' @
     dec (env_tm_year env + 1900) @ ''-'' @ zero_pad 2 (dec (env_tm_mon env + 1)) @ ''-'' @ zero_pad 2 (dec (env_tm_mday env)) @ ''-'' @
     zero_pad 2 (dec (env_tm_hour env)) @ zero_pad 2 (dec (env_tm_min env)) @ ''-GMT.rst''"

definition xdd_restart_create_restart_file :: "restart_env \<Rightarrow> xint_restart_monitor \<Rightarrow> (int \<times> xint_restart_monitor) option" where
  "xdd_restart_create_restart_file env rp =
     (if restart_filename rp = None \<and> \<not> env_name_memory env then Some (0, rp\<lparr>restart_fp := Error_Output\<rparr>)
      else let name = (case restart_filename rp of Some x \<Rightarrow> x | None \<Rightarrow> default_restart_name env rp) in
           if \<not> env_fopen env name then Some (-1, rp\<lparr>restart_filename := None, restart_fp := Error_Output\<rparr>)
           else map_option (Pair 0) (xdd_restart_write_restart_file (rp\<lparr>restart_filename := Some name, restart_fp := File []\<rparr>)))"

subsection \<open>The monitor\<close>

text \<open>
  A target as the monitor sees it: its options, its restart structure and its workers.  The monitor does not lock
  the workers; a check sees them in one state.
\<close>

record monitored =
  mt_options :: u64
  mt_restartp :: "xint_restart_monitor option"
  mt_state :: xdd

definition monitor_init_target :: "restart_env \<Rightarrow> monitored \<Rightarrow> monitored option" where
  "monitor_init_target env m =
     (case mt_restartp m of
        None \<Rightarrow> None
      | Some rp \<Rightarrow>
          if flag_on (mt_options m) TO_E2E_DESTINATION
          then map_option (\<lambda>(_, rp1). m\<lparr>mt_restartp := Some rp1\<rparr>) (xdd_restart_create_restart_file env rp)
          else Some m)"

definition task_at :: "xdd \<Rightarrow> nat \<Rightarrow> int" where
  "task_at s w = sint (task_byte_offset (wd_task (wd s w)))"

text \<open>The walk down the chain of workers for the lowest offset.\<close>

partial_function (option) lowest_wdp :: "xdd \<Rightarrow> nat \<Rightarrow> nat \<Rightarrow> nat option" where
  "lowest_wdp s cur best =
     (case wd_next_wdp (wd s cur) of
        None \<Rightarrow> Some best
      | Some c \<Rightarrow> lowest_wdp s c (if task_at s c < task_at s best then c else best))"

definition commit_at :: "xdd \<Rightarrow> nat \<Rightarrow> xint_restart_monitor \<Rightarrow> xint_restart_monitor" where
  "commit_at s b rp = rp\<lparr>byte_offset := task_at s b, last_committed_byte_offset := -1,
     last_committed_length := task_xfer_size (wd_task (wd s b)), last_committed_op := -1\<rparr>"

definition monitor_check_target :: "monitored \<Rightarrow> monitored option" where
  "monitor_check_target m =
     (if \<not> flag_on (mt_options m) TO_RESTART_ENABLE then Some m
      else case mt_restartp m of
             None \<Rightarrow> Some m
           | Some rp \<Rightarrow>
               if flag_on (restart_flags rp) RESTART_FLAG_SUCCESSFUL_COMPLETION then Some m
               else do { w \<leftarrow> td_next_wdp (td (mt_state m));
                         b \<leftarrow> lowest_wdp (mt_state m) w w;
                         rp2 \<leftarrow> (if flag_on (mt_options m) TO_E2E_DESTINATION
                                then xdd_restart_write_restart_file (commit_at (mt_state m) b rp) else Some (commit_at (mt_state m) b rp));
                         Some (m\<lparr>mt_restartp := Some rp2\<rparr>) })"

primrec each_target :: "(monitored \<Rightarrow> monitored option) \<Rightarrow> monitored list \<Rightarrow> monitored list option" where
  "each_target f [] = Some []"
| "each_target f (m # ms) = do { m1 \<leftarrow> f m; ms1 \<leftarrow> each_target f ms; Some (m1 # ms1) }"

text \<open>
  The loop of the monitor, over what it finds at each of its checks: whether the run is over before
  the check, the state of the workers of each target, and whether the run is over after it.
\<close>

fun monitor_loop :: "(bool \<times> xdd list \<times> bool) list \<Rightarrow> monitored list \<Rightarrow> monitored list option" where
  "monitor_loop [] ms = Some ms"
| "monitor_loop ((before, views, behind) # rs) ms =
     (if before then Some ms
      else do { ms1 \<leftarrow> each_target monitor_check_target (map2 (\<lambda>m s. m\<lparr>mt_state := s\<rparr>) ms views);
                if behind then Some ms1 else monitor_loop rs ms1 })"

definition xdd_restart_monitor :: "restart_env \<Rightarrow> (bool \<times> xdd list \<times> bool) list \<Rightarrow> monitored list \<Rightarrow> monitored list option" where
  "xdd_restart_monitor env rs ms = Option.bind (each_target (monitor_init_target env) ms) (monitor_loop rs)"

subsection \<open>The words of the file\<close>

text \<open>What is left of longer lines behind the line of a file.\<close>

definition leftover :: "string \<Rightarrow> bool" where
  "leftover x \<longleftrightarrow> (\<forall>c\<in>set x. is_digit c \<or> c = CHR 0x0A)"

lemma dec_int_dec: "0 \<le> n \<Longrightarrow> dec_int n = dec (nat n)"
  by (simp add: dec_int_def)

lemma dec_digits: "c \<in> set (dec n) \<Longrightarrow> is_digit c"
  using dec_props(2) [of n] digit_props(1) by auto

lemma digit_no_blank: "is_digit c \<Longrightarrow> \<not> is_blank c \<and> c \<noteq> CHR ''#'' \<and> c \<noteq> CHR 0x00 \<and> c \<noteq> CHR ''-'' \<and> \<not> is_space c"
  by (auto simp: is_digit_def is_blank_def is_space_def)

lemma overwrite_line:
  assumes "0 \<le> n" and "leftover x"
  shows "\<exists>y. overwrite (restart_line m) (restart_line n @ x) = restart_line m @ y \<and> leftover y"
proof -
  let ?k = "length (dec_int m) + 1"
  have "drop (length (restart_line m)) (restart_line n @ x) = drop ?k (dec_int n @ CHR 0x0A # x)" by (simp add: restart_line_def)
  moreover have "leftover (drop ?k (dec_int n @ CHR 0x0A # x))"
    using assms dec_digits unfolding leftover_def by (auto simp: dec_int_dec dest!: in_set_dropD)
  ultimately show ?thesis by (auto simp: overwrite_def)
qed

lemma words_chars: "w \<in> set (words x) \<Longrightarrow> w \<noteq> [] \<and> set w \<subseteq> set x"
proof (induction x arbitrary: w rule: words.induct)
  case (1 x)
  show ?case
  proof (cases "dropWhile is_blank x")
    case Nil
    then show ?thesis using 1(2) unfolding words.simps [of x] Nil by simp
  next
    case (Cons c cs)
    have nb: "\<not> is_blank c" using Cons hd_dropWhile [of is_blank x] by simp
    have sub: "set (c # cs) \<subseteq> set x" unfolding Cons [symmetric] by (auto dest: set_dropWhileD)
    let ?r = "dropWhile (\<lambda>c. \<not> is_blank c) (c # cs)"
    have "words x = takeWhile (\<lambda>c. \<not> is_blank c) (c # cs) # words ?r" unfolding words.simps [of x] Cons by simp
    then consider "w = takeWhile (\<lambda>c. \<not> is_blank c) (c # cs)" | "w \<in> set (words ?r)" using 1(2) by auto
    then show ?thesis
    proof cases
      case 1
      then show ?thesis using nb sub by (auto dest: set_takeWhileD)
    next
      case 2
      have "set ?r \<subseteq> set x" using sub by (meson set_dropWhileD subset_iff)
      then show ?thesis using "1.IH" [OF Cons 2] by blast
    qed
  qed
qed

lemma file_words:
  assumes "0 \<le> n" and "leftover x"
  shows "paramfile_tokens (restart_line n @ x) = [''-restart'', ''offset'', dec (nat n)] @ words x"
proof -
  have b: "is_blank (CHR '' '')" "is_blank (CHR 0x0A)" by (simp_all add: is_blank_def)
  have d: "c \<in> set (dec (nat n)) \<Longrightarrow> \<not> is_blank c \<and> c \<noteq> CHR ''#'' \<and> c \<noteq> CHR 0x00" for c using dec_digits digit_no_blank by blast
  have l: "restart_line n @ x = ''-restart'' @ CHR '' '' # ''offset'' @ CHR '' '' # dec (nat n) @ CHR 0x0A # x"
    using assms(1) by (simp add: restart_line_def dec_int_dec)
  have w: "words (''-restart'' @ CHR '' '' # y) = ''-restart'' # words y" "words (''offset'' @ CHR '' '' # y) = ''offset'' # words y"
    "words (dec (nat n) @ CHR 0x0A # y) = dec (nat n) # words y" for y
    using d dec_props(1) b by (intro words_step(2); simp add: is_blank_def)+
  have "CHR ''#'' \<notin> set x" "CHR 0x00 \<notin> set x" using assms(2) digit_no_blank by (auto simp: leftover_def)
  then have "paramfile_tokens (restart_line n @ x) = words (restart_line n @ x)"
    using d by (intro paramfile_tokens_words) (auto simp: l is_blank_def)
  also have "\<dots> = [''-restart'', ''offset'', dec (nat n)] @ words x"
    unfolding l w by simp
  finally show ?thesis .
qed

lemma leftover_words:
  assumes "leftover x" and "w \<in> set (words x)"
  shows "\<not> is_option w"
proof -
  obtain c cs where w: "w = c # cs" "c \<in> set x" using words_chars [OF assms(2)] by (cases w) auto
  then have "is_digit c \<or> c = CHR 0x0A" using assms(1) by (simp add: leftover_def)
  then have "c \<noteq> CHR ''-''" using digit_no_blank by auto
  then show ?thesis by (simp add: w(1) is_option_def)
qed

lemma scan_dec: "scan_int (dec n) = Some (int n, [])"
proof -
  obtain c cs where d: "dec n = c # cs" using dec_props(1) [of n] by (cases "dec n") auto
  have c: "\<not> is_space c" "c \<noteq> CHR ''-''" using dec_digits [of c n] digit_no_blank d by auto
  moreover have "c \<noteq> CHR ''+''" using dec_digits [of c n] d by (auto simp: is_digit_def)
  moreover have "takeWhile is_digit (dec n) = dec n" "dropWhile is_digit (dec n) = []"
    using dec_digits by (simp_all add: dropWhile_eq_Nil_conv)
  ultimately show ?thesis using dec_props(3) [of n] by (simp add: scan_int_def d)
qed

lemma atoll_dec: "0 \<le> n \<Longrightarrow> n < 2 ^ 63 \<Longrightarrow> atoll (dec (nat n)) = n"
  by (simp add: atoll_def strtol_def scan_dec)

subsection \<open>Resuming from the file\<close>

lemma parse_loop_strays:
  assumes "0 \<le> argi" and "\<forall>x\<in>set (drop (nat argi) argv). \<not> is_option x"
  shows "parse_loop tab argv flags k argi p = Some (Parsed p)"
proof -
  have "takeWhile (\<lambda>x. \<not> is_option x) (drop (nat argi) argv) = drop (nat argi) argv" using assms(2) by simp
  then have "length argv \<le> nat argi + length (takeWhile (\<lambda>x. \<not> is_option x) (drop (nat argi) argv))"
    by (simp only: length_drop)
  then show ?thesis using assms(1) by (subst parse_loop.simps) (simp only: Let_def if_True if_cancel not_less [symmetric] if_False simp_thms)
qed

definition monitor_on :: "xdd_plan \<Rightarrow> xdd_plan" where
  "monitor_on p = (if pl_restart_frequency p = 0 then p\<lparr>pl_restart_frequency := 1\<rparr> else p)"

lemma restart_call:
  assumes "2 \<le> k"
  shows "xddfunc_restart env p k (''-restart'' # ''offset'' # x # rest) flags =
    Some (3, monitor_on (if flag_on flags XDD_PARSE_PHASE2 then all_targets (resume_at env (atoll x)) p else p))"
proof -
  have "xdd_parse_target_number env p k (''-restart'' # ''offset'' # x # rest) = Some (0, -1, p)"
    by (rule target_number_all) (simp_all add: is_option_def)
  then show ?thesis
    by (simp add: xddfunc_restart_def option_for_def restart_value_def restart_period_def monitor_on_def arg_def)
qed

lemma find_restart: "find (names_option ''restart'') (option_table env progname d) = Some (func ''restart'' ''rst'' (xddfunc_restart env))"
  by (cases d) (simp_all add: table_with_def func_def names_option_def)

lemma monitor_on_simps [simp]: "monitor_on (monitor_on p) = monitor_on p" "target_datap (monitor_on p) = target_datap p"
  by (simp_all add: monitor_on_def)

lemma parse_restart_file:
  assumes "\<forall>w\<in>set ws. \<not> is_option w"
  shows "parse_phases (option_table env progname d) (progname # [''-restart'', ''offset'', x] @ ws) p =
    Some (Parsed (monitor_on (all_targets (resume_at env (atoll x)) (monitor_on p))))"
proof -
  let ?tab = "option_table env progname d"
  have "xdd_parse_args ?tab (progname # [''-restart'', ''offset'', x] @ ws) flags q =
      Some (Parsed (monitor_on (if flag_on flags XDD_PARSE_PHASE2 then all_targets (resume_at env (atoll x)) q else q)))" for flags q
    using parse_args_first [OF _ find_restart [of env progname d], of "[]" progname "[''offset'', x] @ ws" flags q] assms
      restart_call [of "3 + int (length ws)" env q x ws flags]
    by (simp add: func_def parse_loop_strays)
  then show ?thesis by (simp add: parse_phases_def flag_on_def)
qed

subsection \<open>What the monitor writes\<close>

text \<open>The walk finds a worker of the chain whose offset is not above that of any other.\<close>

lemma lowest_wdp_chain:
  assumes "chain (\<lambda>w. wd_next_wdp (wd s w)) (wd_next_wdp (wd s cur)) ws None"
  shows "\<exists>b. lowest_wdp s cur best = Some b \<and> b \<in> insert best (set ws) \<and> (\<forall>w\<in>insert best (set ws). task_at s b \<le> task_at s w)"
  using assms
proof (induction ws arbitrary: cur best)
  case Nil
  then show ?case by (subst lowest_wdp.simps) simp
next
  case (Cons c ws)
  let ?best = "if task_at s c < task_at s best then c else best"
  obtain b where b: "lowest_wdp s c ?best = Some b" "b \<in> insert ?best (set ws)" "\<forall>w\<in>insert ?best (set ws). task_at s b \<le> task_at s w"
    using Cons.IH [of c ?best] Cons.prems by auto
  then have "lowest_wdp s cur best = Some b" using Cons.prems by (subst lowest_wdp.simps) simp
  moreover have "b \<in> insert best (set (c # ws))" using b(2) by (auto split: if_splits)
  moreover have "\<forall>w\<in>insert best (set (c # ws)). task_at s b \<le> task_at s w" using b(3) by (auto split: if_splits)
  ultimately show ?case by blast
qed

text \<open>The restart structure of a destination, once the monitor has started.\<close>

definition restart_kept :: "int \<Rightarrow> xint_restart_monitor \<Rightarrow> bool" where
  "restart_kept i rp \<longleftrightarrow> initial_restart_offset rp = i \<and> byte_offset rp < 2 ^ 63 \<and>
     (restart_fp rp = Error_Output \<or> (\<exists>x. restart_fp rp = File (restart_line (restart_offset rp) @ x) \<and> leftover x))"

lemma restart_offset_range: "restart_kept i rp \<Longrightarrow> 0 \<le> i \<Longrightarrow> i < 2 ^ 63 \<Longrightarrow> 0 \<le> restart_offset rp \<and> restart_offset rp < 2 ^ 63"
  by (auto simp: restart_kept_def restart_offset_def)

lemma create_kept:
  assumes "0 \<le> initial_restart_offset rp" and "byte_offset rp < 2 ^ 63" and "xdd_restart_create_restart_file env rp = Some (st, rp1)"
  shows "restart_kept (initial_restart_offset rp) rp1 \<and> restart_flags rp1 = restart_flags rp"
proof -
  have "overwrite x [] = x" for x by (simp add: overwrite_def)
  then show ?thesis using assms
    by (auto simp: xdd_restart_create_restart_file_def xdd_restart_write_restart_file_def restart_kept_def restart_offset_def leftover_def
      Let_def split: if_splits)
qed

lemma write_kept:
  assumes "restart_kept i rp" and "0 \<le> i" "i < 2 ^ 63" and "v < 2 ^ 63" and "restart_fp rp1 = restart_fp rp" "initial_restart_offset rp1 = i" "byte_offset rp1 = v"
    and "xdd_restart_write_restart_file rp1 = Some rp2"
  shows "restart_kept i rp2"
proof (cases "restart_fp rp")
  case (File f)
  obtain x where x: "f = restart_line (restart_offset rp) @ x" "leftover x" using assms(1) File by (auto simp: restart_kept_def)
  obtain y where y: "overwrite (restart_line (restart_offset rp1)) f = restart_line (restart_offset rp1) @ y" "leftover y"
    using overwrite_line [OF _ x(2)] restart_offset_range [OF assms(1-3)] x(1) by blast
  have "rp2 = rp1\<lparr>restart_fp := File (restart_line (restart_offset rp1) @ y)\<rparr>"
    using assms(5,8) File y(1) by (simp add: xdd_restart_write_restart_file_def)
  then show ?thesis using assms(4,6,7) y(2) by (auto simp: restart_kept_def restart_offset_def)
qed (use assms in \<open>auto simp: xdd_restart_write_restart_file_def restart_kept_def\<close>)

text \<open>What a check leaves of a target that is a destination.\<close>

definition target_kept :: "int \<Rightarrow> u64 \<Rightarrow> monitored \<Rightarrow> bool" where
  "target_kept i opts m \<longleftrightarrow> mt_options m = opts \<and> (\<exists>rp. mt_restartp m = Some rp \<and> restart_kept i rp)"

lemma task_at_less: "task_at s w < 2 ^ 63"
  using sint_lt [of "task_byte_offset (wd_task (wd s w))"] by (simp add: task_at_def)

lemma check_kept:
  assumes "target_kept i opts m" and "0 \<le> i" "i < 2 ^ 63" and "flag_on opts TO_E2E_DESTINATION"
    and "monitor_check_target (m\<lparr>mt_state := s\<rparr>) = Some m1"
  shows "target_kept i opts m1"
proof -
  from assms(1) obtain rp where rp: "mt_options m = opts" "mt_restartp m = Some rp" "restart_kept i rp" by (auto simp: target_kept_def)
  show ?thesis
  proof (cases "flag_on opts TO_RESTART_ENABLE \<and> \<not> flag_on (restart_flags rp) RESTART_FLAG_SUCCESSFUL_COMPLETION")
    case False
    then have "m1 = m\<lparr>mt_state := s\<rparr>" using assms(5) rp by (auto simp: monitor_check_target_def split: if_splits)
    then show ?thesis using rp by (simp add: target_kept_def)
  next
    case True
    then obtain b rp2 where w: "xdd_restart_write_restart_file (commit_at s b rp) = Some rp2" "m1 = m\<lparr>mt_state := s, mt_restartp := Some rp2\<rparr>"
      using assms(4,5) rp by (auto simp: monitor_check_target_def split: bind_splits)
    have "initial_restart_offset rp = i" using rp(3) by (simp add: restart_kept_def)
    then have "restart_kept i rp2" using write_kept [OF rp(3) assms(2,3) task_at_less _ _ _ w(1)] by (simp add: commit_at_def)
    then show ?thesis using w(2) rp by (simp add: target_kept_def)
  qed
qed

lemma each_target_nth:
  assumes "each_target f ms = Some ms1" and "j < length ms"
  shows "f (ms ! j) = Some (ms1 ! j) \<and> length ms1 = length ms"
  using assms
proof (induction ms arbitrary: ms1 j)
  case (Cons m ms)
  then obtain m1 ms2 where m: "f m = Some m1" "each_target f ms = Some ms2" "ms1 = m1 # ms2" by (auto split: bind_splits)
  show ?case
  proof (cases j)
    case 0
    have "length ms2 = length ms" using Cons.IH [OF m(2), of 0] m(2) by (cases ms) auto
    then show ?thesis using 0 m by simp
  next
    case (Suc k)
    then show ?thesis using Cons.IH [OF m(2), of k] Cons.prems(2) m by simp
  qed
qed simp

lemma loop_kept:
  assumes "monitor_loop rs ms = Some ms1" and "j < length ms" and "\<forall>(x, views, y)\<in>set rs. length views = length ms"
    and "target_kept i opts (ms ! j)" and "0 \<le> i" "i < 2 ^ 63" and "flag_on opts TO_E2E_DESTINATION"
  shows "target_kept i opts (ms1 ! j)"
  using assms(1-4)
proof (induction rs ms rule: monitor_loop.induct)
  case (2 x views y rs ms)
  show ?case
  proof (cases x)
    case True
    then show ?thesis using 2 by simp
  next
    case False
    let ?ms = "map2 (\<lambda>m s. m\<lparr>mt_state := s\<rparr>) ms views"
    obtain ms2 where ms2: "each_target monitor_check_target ?ms = Some ms2" "(if y then Some ms2 else monitor_loop rs ms2) = Some ms1"
      using 2(2) False by (auto split: bind_splits)
    have l: "length views = length ms" "j < length ?ms" using 2(3,4) by auto
    have "monitor_check_target ((ms ! j)\<lparr>mt_state := views ! j\<rparr>) = Some (ms2 ! j)" "length ms2 = length ms"
      using each_target_nth [OF ms2(1) l(2)] l 2(3) by simp_all
    moreover from this(1) have "target_kept i opts (ms2 ! j)" using check_kept [OF 2(5) assms(5,6,7)] by blast
    ultimately show ?thesis using 2 ms2(2) False ms2(1) by (cases y) auto
  qed
qed simp

lemma monitor_kept:
  assumes "xdd_restart_monitor env rs ms = Some ms1" and "j < length ms" and "\<forall>(x, views, y)\<in>set rs. length views = length ms"
    and "flag_on (mt_options (ms ! j)) TO_E2E_DESTINATION" and "mt_restartp (ms ! j) = Some rp"
    and "0 \<le> initial_restart_offset rp" "initial_restart_offset rp < 2 ^ 63" "byte_offset rp < 2 ^ 63"
  shows "target_kept (initial_restart_offset rp) (mt_options (ms ! j)) (ms1 ! j)"
proof -
  obtain ms0 where ms0: "each_target (monitor_init_target env) ms = Some ms0" "monitor_loop rs ms0 = Some ms1"
    using assms(1) by (auto simp: xdd_restart_monitor_def split: bind_splits)
  have l: "monitor_init_target env (ms ! j) = Some (ms0 ! j)" "length ms0 = length ms" using each_target_nth [OF ms0(1) assms(2)] by simp_all
  obtain st rp1 where "xdd_restart_create_restart_file env rp = Some (st, rp1)" and m: "ms0 ! j = (ms ! j)\<lparr>mt_restartp := Some rp1\<rparr>"
    using l(1) assms(4,5) by (auto simp: monitor_init_target_def intro: sym)
  then have "target_kept (initial_restart_offset rp) (mt_options (ms ! j)) (ms0 ! j)"
    using create_kept [OF assms(6,8)] by (simp add: target_kept_def)
  then show ?thesis using loop_kept [OF ms0(2) _ _ _ assms(6,7,4)] assms(2,3) l(2) by simp
qed

text \<open>Two workers of a destination at offsets, checked when both have data and when the second waits for it.\<close>

definition sample_view :: "u64 \<Rightarrow> u64 \<Rightarrow> xdd" where
  "sample_view x y = (sample_io 0)\<lparr>td := (td (sample_io 0))\<lparr>td_next_wdp := Some 0\<rparr>,
     wd := (\<lambda>w. if w = 0 then zero_worker\<lparr>wd_next_wdp := Some 1, wd_task := zero_task\<lparr>task_byte_offset := x\<rparr>\<rparr>
                else zero_worker\<lparr>wd_task := zero_task\<lparr>task_byte_offset := y\<rparr>\<rparr>)\<rparr>"

definition sample_restart :: xint_restart_monitor where
  "sample_restart = \<lparr>restart_filename = Some ''r'', initial_restart_offset = 7, byte_offset = 7, restart_flags = 0, restart_fp = No_File,
     source_host = None, source_filename = None, destination_host = None, destination_filename = None,
     last_committed_byte_offset = 0, last_committed_length = 0, last_committed_op = 0\<rparr>"

definition sample_monitored :: monitored where
  "sample_monitored = \<lparr>mt_options = TO_RESTART_ENABLE OR TO_E2E_DESTINATION, mt_restartp = Some sample_restart, mt_state = sample_view 0 0\<rparr>"

definition sample_clock :: restart_env where
  "sample_clock = \<lparr>env_name_memory = True, env_tm_year = 113, env_tm_mon = 0, env_tm_mday = 1, env_tm_hour = 12, env_tm_min = 5, env_fopen = \<lambda>x. True\<rparr>"

lemma sample_lowest: "lowest_wdp (sample_view x y) 0 0 = Some (if sint y < sint x then 1 else 0)"
  by (simp add: lowest_wdp.simps sample_view_def task_at_def zero_worker_def)

lemma sample_options: "flag_on (TO_RESTART_ENABLE OR TO_E2E_DESTINATION) TO_RESTART_ENABLE" "flag_on (TO_RESTART_ENABLE OR TO_E2E_DESTINATION) TO_E2E_DESTINATION"
  by (simp_all add: flag_on_def)

lemma sample_checks:
  "\<exists>ms1. xdd_restart_monitor sample_clock [(False, [sample_view 123456 200000], False), (False, [sample_view 123456 (-1)], True)] [sample_monitored] = Some ms1"
proof -
  have c: "\<exists>rp1 y. monitor_check_target \<lparr>mt_options = TO_RESTART_ENABLE OR TO_E2E_DESTINATION, mt_restartp = Some rp, mt_state = sample_view a b\<rparr>
      = Some \<lparr>mt_options = TO_RESTART_ENABLE OR TO_E2E_DESTINATION, mt_restartp = Some rp1, mt_state = sample_view a b\<rparr>
      \<and> restart_flags rp1 = 0 \<and> restart_fp rp1 = File y"
    if "restart_flags rp = 0" "restart_fp rp = File x" for rp x a b
  proof -
    have "td_next_wdp (td (sample_view a b)) = Some 0" by (simp add: sample_view_def)
    then show ?thesis using that sample_options
      by (simp add: monitor_check_target_def sample_lowest xdd_restart_write_restart_file_def commit_at_def flag_on_def)
  qed
  obtain rp0 where rp0: "xdd_restart_create_restart_file sample_clock sample_restart = Some (0, rp0)" "restart_flags rp0 = 0" "\<exists>y. restart_fp rp0 = File y"
    by (auto simp: xdd_restart_create_restart_file_def sample_clock_def sample_restart_def xdd_restart_write_restart_file_def Let_def)
  have i: "monitor_init_target sample_clock sample_monitored = Some (sample_monitored\<lparr>mt_restartp := Some rp0\<rparr>)"
    using rp0(1) sample_options(2) by (simp add: monitor_init_target_def sample_monitored_def)
  from rp0(3) obtain y0 where y0: "restart_fp rp0 = File y0" by blast
  from c [OF rp0(2) y0, of 123456 200000] obtain rp1 y1 where r1: "monitor_check_target \<lparr>mt_options = TO_RESTART_ENABLE OR TO_E2E_DESTINATION, mt_restartp = Some rp0,
      mt_state = sample_view 123456 200000\<rparr> = Some \<lparr>mt_options = TO_RESTART_ENABLE OR TO_E2E_DESTINATION, mt_restartp = Some rp1, mt_state = sample_view 123456 200000\<rparr>"
    "restart_flags rp1 = 0" "restart_fp rp1 = File y1" by blast
  from c [OF r1(2,3), of 123456 "-1"] show ?thesis
    using i r1(1) by (auto simp: xdd_restart_monitor_def sample_monitored_def)
qed

text \<open>C20: Whatever the restart monitor finds at its checks, the restart file of a destination resumes the copy where
  the monitor says: the words of the file, given to the next run, are parsed to the end and set every target to resume
  at the offset of the last checkpoint, although a shorter line leaves a part of a longer one behind it.\<close>

theorem restart_file_resumes:
  assumes "xdd_restart_monitor env rs ms = Some ms1" and "j < length ms" and "\<forall>(x, views, y)\<in>set rs. length views = length ms"
    and "flag_on (mt_options (ms ! j)) TO_E2E_DESTINATION" and "mt_restartp (ms ! j) = Some rp"
    and "0 \<le> initial_restart_offset rp" "initial_restart_offset rp < 2 ^ 63" "byte_offset rp < 2 ^ 63"
  shows "\<exists>rp1. mt_restartp (ms1 ! j) = Some rp1 \<and> initial_restart_offset rp \<le> restart_offset rp1 \<and>
    (restart_fp rp1 = Error_Output \<or>
     (\<exists>file p1. restart_fp rp1 = File file \<and>
        parse_phases (option_table penv progname d) (progname # paramfile_tokens file) p = Some (Parsed p1) \<and>
        (\<forall>k t. gapless p k \<longrightarrow> target_datap p k = Some t \<longrightarrow> target_datap p1 k = Some (resume_at penv (restart_offset rp1) t))))"
proof -
  obtain rp1 where rp1: "mt_restartp (ms1 ! j) = Some rp1" "restart_kept (initial_restart_offset rp) rp1"
    using monitor_kept [OF assms] by (auto simp: target_kept_def)
  have n: "0 \<le> restart_offset rp1" "restart_offset rp1 < 2 ^ 63" "initial_restart_offset rp \<le> restart_offset rp1"
    using restart_offset_range [OF rp1(2) assms(6,7)] rp1(2) by (auto simp: restart_kept_def restart_offset_def)
  have "\<exists>p1. parse_phases (option_table penv progname d) (progname # paramfile_tokens file) p = Some (Parsed p1) \<and>
      (\<forall>k t. gapless p k \<longrightarrow> target_datap p k = Some t \<longrightarrow> target_datap p1 k = Some (resume_at penv (restart_offset rp1) t))"
    if "file = restart_line (restart_offset rp1) @ x" "leftover x" for "file" x
  proof -
    let ?p1 = "monitor_on (all_targets (resume_at penv (restart_offset rp1)) (monitor_on p))"
    have "parse_phases (option_table penv progname d) (progname # paramfile_tokens file) p = Some (Parsed ?p1)"
      using parse_restart_file [of "words x" penv progname d "dec (nat (restart_offset rp1))" p] leftover_words [OF that(2)]
      unfolding that(1) file_words [OF n(1) that(2)] atoll_dec [OF n(1,2)] by blast
    moreover have "gapless (monitor_on p) = gapless p" by (simp add: gapless_def fun_eq_iff)
    ultimately show ?thesis by (intro exI [of _ ?p1]) (simp add: all_targets_value)
  qed
  then show ?thesis using rp1 n(3) unfolding restart_kept_def by blast
qed

theorem restart_file_resumes_witness:
  "\<exists>ms1 rp1. xdd_restart_monitor sample_clock [(False, [sample_view 123456 200000], False), (False, [sample_view 123456 (-1)], True)] [sample_monitored]
      = Some ms1 \<and> mt_restartp (ms1 ! 0) = Some rp1 \<and> 7 \<le> restart_offset rp1"
proof -
  obtain ms1 where m: "xdd_restart_monitor sample_clock [(False, [sample_view 123456 200000], False), (False, [sample_view 123456 (-1)], True)] [sample_monitored]
      = Some ms1" using sample_checks by blast
  have "flag_on (mt_options ([sample_monitored] ! 0)) TO_E2E_DESTINATION" "mt_restartp ([sample_monitored] ! 0) = Some sample_restart"
    "0 \<le> initial_restart_offset sample_restart" "initial_restart_offset sample_restart < 2 ^ 63" "byte_offset sample_restart < 2 ^ 63"
    using sample_options(2) by (simp_all add: sample_monitored_def sample_restart_def)
  from restart_file_resumes [OF m _ _ this, of sample_parse "''xdd''" 0 empty_plan] m show ?thesis
    by (auto simp: sample_restart_def)
qed

text \<open>C21: A check of a destination with at least one worker returns.  The offset it takes is that of a worker of the target, and no
  worker is at a lower one; it is written to the restart file unless the copy was started above it.  While a worker
  waits for data its offset is -1, and the file falls back to the offset where the copy was started.\<close>

theorem restart_point_lowest:
  assumes "chain (\<lambda>w. wd_next_wdp (wd (mt_state m) w)) (td_next_wdp (td (mt_state m))) ws None" and "ws \<noteq> []"
    and "flag_on (mt_options m) TO_RESTART_ENABLE" "flag_on (mt_options m) TO_E2E_DESTINATION"
    and "mt_restartp m = Some rp" "\<not> flag_on (restart_flags rp) RESTART_FLAG_SUCCESSFUL_COMPLETION" "restart_fp rp = File x"
  shows "\<exists>rp1 b. monitor_check_target m = Some (m\<lparr>mt_restartp := Some rp1\<rparr>) \<and> b \<in> set ws \<and> byte_offset rp1 = task_at (mt_state m) b \<and>
    (\<forall>w\<in>set ws. byte_offset rp1 \<le> task_at (mt_state m) w) \<and>
    restart_fp rp1 = File (overwrite (restart_line (max (initial_restart_offset rp) (byte_offset rp1))) x) \<and>
    ((\<exists>w\<in>set ws. task_byte_offset (wd_task (wd (mt_state m) w)) = -1) \<and> 0 \<le> initial_restart_offset rp \<longrightarrow>
      restart_fp rp1 = File (overwrite (restart_line (initial_restart_offset rp)) x))"
proof -
  let ?s = "mt_state m"
  obtain v vs where ws: "ws = v # vs" using assms(2) by (cases ws) auto
  then have v: "td_next_wdp (td ?s) = Some v" "chain (\<lambda>w. wd_next_wdp (wd ?s w)) (wd_next_wdp (wd ?s v)) vs None" using assms(1) by simp_all
  obtain b where b: "lowest_wdp ?s v v = Some b" "b \<in> set ws" "\<forall>w\<in>set ws. task_at ?s b \<le> task_at ?s w"
    using lowest_wdp_chain [OF v(2), of v] ws by auto
  define rp2 where "rp2 = (commit_at ?s b rp)\<lparr>restart_fp := File (overwrite (restart_line (max (initial_restart_offset rp) (task_at ?s b))) x)\<rparr>"
  have c: "restart_offset (commit_at ?s b rp) = max (initial_restart_offset rp) (task_at ?s b)" "restart_fp (commit_at ?s b rp) = File x"
    using assms(7) by (simp_all add: commit_at_def restart_offset_def)
  then have "xdd_restart_write_restart_file (commit_at ?s b rp) = Some rp2" by (simp add: xdd_restart_write_restart_file_def rp2_def)
  then have "monitor_check_target m = Some (m\<lparr>mt_restartp := Some rp2\<rparr>)"
    using assms(3-6) v(1) b(1) by (simp add: monitor_check_target_def)
  moreover have "byte_offset rp2 = task_at ?s b" by (simp add: rp2_def commit_at_def)
  moreover have "max (initial_restart_offset rp) (task_at ?s b) = initial_restart_offset rp"
    if "\<exists>w\<in>set ws. task_byte_offset (wd_task (wd ?s w)) = -1" "0 \<le> initial_restart_offset rp"
  proof -
    from that(1) obtain w where "w \<in> set ws" "task_at ?s w = -1" by (auto simp: task_at_def)
    then have "task_at ?s b \<le> -1" using b(3) by fastforce
    then show ?thesis using that(2) by simp
  qed
  moreover have "restart_fp rp2 = File (overwrite (restart_line (max (initial_restart_offset rp) (task_at ?s b))) x)" by (simp add: rp2_def)
  ultimately show ?thesis using b(2,3) by (intro exI [of _ rp2] exI [of _ b]) auto
qed

theorem restart_point_lowest_witness:
  "\<exists>rp1. monitor_check_target (sample_monitored\<lparr>mt_restartp := Some (sample_restart\<lparr>restart_fp := File (restart_line 123456)\<rparr>), mt_state := sample_view 123456 (-1)\<rparr>)
      = Some (sample_monitored\<lparr>mt_state := sample_view 123456 (-1), mt_restartp := Some rp1\<rparr>) \<and>
    restart_fp rp1 = File (''-restart offset 7'' @ CHR 0x0A # ''3456'' @ [CHR 0x0A])"
proof -
  let ?rp = "sample_restart\<lparr>restart_fp := File (restart_line 123456)\<rparr>"
  let ?m = "sample_monitored\<lparr>mt_restartp := Some ?rp, mt_state := sample_view 123456 (-1)\<rparr>"
  have c: "chain (\<lambda>w. wd_next_wdp (wd (mt_state ?m) w)) (td_next_wdp (td (mt_state ?m))) [0, 1] None"
    by (simp add: sample_view_def zero_worker_def)
  have o: "flag_on (mt_options ?m) TO_RESTART_ENABLE" "flag_on (mt_options ?m) TO_E2E_DESTINATION" "mt_restartp ?m = Some ?rp"
    "\<not> flag_on (restart_flags ?rp) RESTART_FLAG_SUCCESSFUL_COMPLETION" "restart_fp ?rp = File (restart_line 123456)"
    using sample_options by (simp_all add: sample_monitored_def sample_restart_def flag_on_def)
  have w: "\<exists>w\<in>set [0, 1]. task_byte_offset (wd_task (wd (mt_state ?m) w)) = -1" "0 \<le> initial_restart_offset ?rp"
    by (simp_all add: sample_view_def sample_restart_def)
  have e: "overwrite (restart_line (initial_restart_offset ?rp)) (restart_line 123456) = ''-restart offset 7'' @ CHR 0x0A # ''3456'' @ [CHR 0x0A]"
    by (simp add: overwrite_def restart_line_def sample_restart_def dec_int_def dec.simps digit_def char_of_eq_iff)
  from restart_point_lowest [OF c _ o] w e show ?thesis by auto
qed

end
