(* ===== verification/Spec2Isabelle.thy ===== *)
theory Spec2Isabelle
  imports Tot Bx_Target Lockstep Data_Pattern Barrier_Chain Run_Sync Xni_Tcp Restart
begin

text \<open>
  A verification development for XDD, the data movement and benchmarking toolkit.  Paths below are
  relative to \<^verbatim>\<open>src/\<close> of the repository.

  \<^bold>\<open>The program.\<close>  A run of XDD has one thread per target (a file or device) and, for each target,
  \<^verbatim>\<open>td_queue_depth\<close> worker threads.  A pass over a target takes its operations from a seek list; the
  target thread finds a free worker, does the checks that come before an operation, sets up a task and
  releases the worker at its barrier; the worker does the operation, which may wait for the operation before
  it (storage ordering), may receive its data from or send it to another host (end-to-end), and then hands
  itself back.  Targets may run in lockstep, one interval of operations after the other.  Barriers keep the
  threads together.  The buffer exchange (\<^verbatim>\<open>bx\<close>) is a second, smaller copy program in the tree with
  queues of buffers and of workers.

  \<^bold>\<open>Theories.\<close>
  \<^item> \<open>Xdd_Prelude\<close>: bit flags in words (\<open>flag_on\<close>, \<open>set_flag\<close>, \<open>clear_flag\<close>), linked chains in a store
    (\<open>chain\<close>, doubly linked queues), little-endian byte strings.  The collections \<open>flag_simps\<close> and
    \<open>chain_simps\<close> carry these facts into the component proofs.
  \<^item> \<open>Tot\<close>: the target offset table (\<^verbatim>\<open>base/target_offset_table.c\<close>) and the ordering protocol over it
    (\<^verbatim>\<open>base/worker_thread_io.c\<close>: \<^verbatim>\<open>xdd_worker_thread_wait_for_previous_io\<close>, \<^verbatim>\<open>..._release_next_io\<close>).
    The wait and the release refine an abstract specification with a list of waiting workers for each slot;
    the slots of a window of operations are distinct; creation leaves a usable table or reports failure.
  \<^item> \<open>Bx_Queue\<close>, \<open>Bx_Target\<close>: the queues and the threads of \<^verbatim>\<open>bx\<close> (\<^verbatim>\<open>bx_buffer_queue.c\<close>,
    \<^verbatim>\<open>bx_worker_queue.c\<close>, \<^verbatim>\<open>bx_target_thread.c\<close>, \<^verbatim>\<open>bx_worker_thread.c\<close>).  A locale states the laws
    of a first-in first-out queue; both pointer queues are interpretations.  A copy is exact.
  \<^item> \<open>Chunking\<close>: the contract of a loop that issues a transfer in chunks, as a locale: the chunks tile the
    transfer.  The bx input loop, the normal pass and the end-to-end source pass interpret it.
  \<^item> \<open>Xdd_Types\<close>: the data structures of targets, workers and tasks (\<^verbatim>\<open>common/xint_td.h\<close>,
    \<^verbatim>\<open>xint_wd.h\<close>, \<^verbatim>\<open>xint_task.h\<close> and the structures they point to), with the members the modelled
    code uses.  The state \<open>xdd\<close> is one target, its workers, the global flags and a trace of effects on
    other threads and the outside.
  \<^item> \<open>E2e\<close>: end-to-end transfer byte by byte (\<^verbatim>\<open>net/end_to_end.c\<close>, the transfer routines of
    \<^verbatim>\<open>xnet/xnet_end_to_end.c\<close>): header layout, send and receive loops, connections, errors, end of file.
    What is sent arrives, however the system cuts the transfer.
  \<^item> \<open>Worker_Io\<close>: the whole task of a worker (\<^verbatim>\<open>base/worker_thread_io.c\<close>, \<^verbatim>\<open>..._ttd_before_io_op.c\<close>,
    \<^verbatim>\<open>..._ttd_after_io_op.c\<close>, \<^verbatim>\<open>worker_thread_io_for_os.c\<close>): direct I/O, read-after-write, end-to-end,
    throttle, the operation, the counters, statistics and thresholds.  The counters account for every byte;
    with storage ordering every path releases the next operation.
  \<^item> \<open>Worker_Locator\<close>: how the target finds a worker (\<^verbatim>\<open>base/target_pass_wt_locator.c\<close>) and how a worker
    hands itself back (\<^verbatim>\<open>base/worker_thread.c\<close>).  No idle worker is lost to the count of free workers.
  \<^item> \<open>Target_Pass\<close>: the checks before an operation (\<^verbatim>\<open>base/target_ttd_before_io_op.c\<close>) and the set-up of
    tasks (\<^verbatim>\<open>base/target_pass.c\<close>, \<^verbatim>\<open>target_pass_e2e_specific.c\<close>).  The tasks of a pass tile its bytes.
  \<^item> \<open>Pass_Loop\<close>: the pass loops and the task loop of the workers as one step relation.  A task is only
    released to a worker that runs none.
  \<^item> \<open>Target_Setup\<close>: the bytes and operations of a pass, the ports and the chain of workers of a target
    (\<^verbatim>\<open>common/target_data.c\<close>) and the reset before a pass (\<^verbatim>\<open>base/target_ttd_before_pass.c\<close>).  The chain has
    the shape that the locators and pass loops rely on; ports are dealt out evenly.
  \<^item> \<open>Seek_List\<close>: generating, saving and loading the list of seek locations (\<^verbatim>\<open>common/access_pattern.c\<close>).
    A saved list loads back; from the set-up through the list and the reset, a sequential pass
    covers exactly its bytes.
  \<^item> \<open>Parse\<close>: the two phases over the arguments, parameter files, target numbers, new targets with their
    defaults, and hexadecimal strings (\<^verbatim>\<open>client/parse.c\<close>).  A locale states what the loop needs of the option
    functions; under it parsing ends.
  \<^item> \<open>Parse_Options\<close>: option functions and their table (\<^verbatim>\<open>client/parse_func.c\<close>, \<^verbatim>\<open>client/parse_table.c\<close>).  Every
    modelled function keeps the plan well-formed, which interprets the locale; a list of options sets what the
    options mean.
  \<^item> \<open>Restart\<close>: the restart monitor and its file (\<^verbatim>\<open>base/restart.c\<close>).  The words of the file are an option that the
    functions of \<open>Parse_Options\<close> read back: the copy resumes at the last checkpoint, which is the lowest offset of the workers.
  \<^item> \<open>Lockstep\<close>: several targets in lockstep (\<^verbatim>\<open>base/lockstep.c\<close>) and how the options link them into a
    ring (\<^verbatim>\<open>client/parse_func.c\<close>).  One target at a time has the turn and nobody is left waiting.
  \<^item> \<open>Run_Sync\<close>: a whole run, the threads of the targets and the results manager that meet at barriers
    (\<^verbatim>\<open>base/target_thread.c\<close>, \<^verbatim>\<open>xdd_target_pass\<close>, \<^verbatim>\<open>client/results_manager.c\<close>).  A locale states what keeps a system of
    threads from hanging; a run without stopped targets interprets it, ends under every schedule and shows every result once.
  \<^item> \<open>Xni_Tcp\<close>: the TCP transport of the XNI library (\<^verbatim>\<open>xni/xni_tcp.c\<close>), with the threads of both hosts and sockets that
    are byte streams.  A locale states what a pool of buffers or sockets promises its clients; the buffer and socket
    calls interpret it.  Messages arrive unchanged and in order on each socket, and all of them before the end of file.
  \<^item> \<open>Data_Pattern\<close>: filling and verifying buffers (\<^verbatim>\<open>common/datapatterns.c\<close>, \<^verbatim>\<open>base/verify.c\<close>).  A
    locale states that verification accepts exactly the filled buffer; three patterns interpret it.
  \<^item> \<open>Barrier_Chain\<close>: the chain of barriers, the occupants of a barrier and the condition-variable barrier
    (\<^verbatim>\<open>common/barrier.c\<close>, \<^verbatim>\<open>common/xint_barrier.h\<close>).

  \<^bold>\<open>Conventions.\<close>  Unsigned C integers of 64 and 32 bits that can wrap are words; signed ones are \<open>int\<close> with
  the conversions written out where they matter.  Pointers are options of identifiers.  \<open>None\<close> as the result of
  an operation is what the code does not survive or does not leave: a null pointer, an access outside an array,
  a failed assertion, a call that blocks for ever.  System calls, clocks, random numbers and other libraries
  are parameters, collected in environment records (\<open>io_env\<close>, \<open>net_env\<close>, \<open>parse_env\<close>, \<open>restart_env\<close>, \<open>tcp_calls\<close>).  An operation that waits on a condition
  variable or barrier is split there; what holds between the parts is shown under every interleaving.
  Loops are recursion over the data or \<open>partial_function (option)\<close>; there is no fuel, and the properties that
  say a loop returns are proved as such.  The table of options refers to itself, because a parameter file may name
  another one; \<open>option_table\<close> unfolds it to a depth of nested files, which the properties leave open.

  \<^bold>\<open>Not modelled.\<close>  The options for data patterns, end-to-end, time stamps, triggers and
  output, rates and times of the results and all displays,
  the interactive console, heartbeat output, set-up and clean-up of threads, buffers, sockets and
  files, the UDT and InfiniBand transports, device support, platform code and the stand-alone tools.  These are operating-system
  calls, output, or tables of option functions.  In the task of a worker the contents of the data buffer are not
  part of the state; \<open>Data_Pattern\<close> and \<open>E2e\<close> treat them.  Processor numbers in time stamps are left out.
\<close>

end
